(* ===== verification/PyBase.thy ===== *)
theory PyBase
  imports Main "HOL-Library.AList" "HOL-Library.Sublist"
begin

text \<open>
  The prelude of the development, first part: the Python values, exceptions and pure
  operations the Lambdas are written with.

  The Lambdas handle untyped JSON documents (events, the responses of boto3 and pymongo, the
  bodies of HTTP replies), so a value is a \<open>pyval\<close>. A dict is an association list in insertion
  order, since its keys are strings and Python keeps that order; a finite float is the dyadic
  number \<open>m / 2^k\<close>; a datetime is a flag (timezone-aware or naive) with microseconds. A string
  is a char list, each char one code point below 256.

  A pure operation that may raise returns an \<open>'a res\<close>: \<open>Inl\<close> of an exception, whose class is
  one of \<open>exn_class\<close> and whose argument is the value given to the constructor, or \<open>Inr\<close> of the
  result. What the interpreter raises (a missing key, a wrong type, an index out of range) is
  written out in every operation.
\<close>

section \<open>Values and exceptions\<close>

datatype pyval =
    PNone
  | PBool bool
  | PInt int
  | PFloat int nat
  | PStr string
  | PDate bool int
  | PList "pyval list"
  | PDict "(string \<times> pyval) list"

datatype exn_class =
    KeyError | TypeError | IndexError | AttributeError | StopIteration | AssertionError
  | PyException
  | ClientError | AutoReconnect
  | NoENIFound | NoInstancesFound | TooManyInstancesFound | TooManyReservationsFound
  | InstanceStateNotFound | MongoRequestFailed
  | NoLaunchTemplatesFound | LaunchTemplateAmiMismatch | MongoReplicaSetMismatch
  | NodeNotHealthy | PrimaryError | SecondaryNotHealthy
  | ScaledDownASGException
  | LibraryError string

datatype exn = Exn (exn_cls: exn_class) (exn_arg: "pyval option")

type_synonym 'a res = "exn + 'a"

definition type_error :: "string \<Rightarrow> exn" where
  "type_error msg = Exn TypeError (Some (PStr msg))"

text \<open>\<open>quoted s\<close> is \<open>s\<close> between single quotes, as the interpreter's messages write names.\<close>

definition quoted :: "string \<Rightarrow> string" where
  "quoted s = CHR 0x27 # s @ [CHR 0x27]"

fun exn_class_name :: "exn_class \<Rightarrow> string" where
  "exn_class_name KeyError = ''KeyError''"
| "exn_class_name TypeError = ''TypeError''"
| "exn_class_name IndexError = ''IndexError''"
| "exn_class_name AttributeError = ''AttributeError''"
| "exn_class_name StopIteration = ''StopIteration''"
| "exn_class_name AssertionError = ''AssertionError''"
| "exn_class_name PyException = ''Exception''"
| "exn_class_name ClientError = ''ClientError''"
| "exn_class_name AutoReconnect = ''AutoReconnect''"
| "exn_class_name NoENIFound = ''NoENIFound''"
| "exn_class_name NoInstancesFound = ''NoInstancesFound''"
| "exn_class_name TooManyInstancesFound = ''TooManyInstancesFound''"
| "exn_class_name TooManyReservationsFound = ''TooManyReservationsFound''"
| "exn_class_name InstanceStateNotFound = ''InstanceStateNotFound''"
| "exn_class_name MongoRequestFailed = ''MongoRequestFailed''"
| "exn_class_name NoLaunchTemplatesFound = ''NoLaunchTemplatesFound''"
| "exn_class_name LaunchTemplateAmiMismatch = ''LaunchTemplateAmiMismatch''"
| "exn_class_name MongoReplicaSetMismatch = ''MongoReplicaSetMismatch''"
| "exn_class_name NodeNotHealthy = ''NodeNotHealthy''"
| "exn_class_name PrimaryError = ''PrimaryError''"
| "exn_class_name SecondaryNotHealthy = ''SecondaryNotHealthy''"
| "exn_class_name ScaledDownASGException = ''ScaledDownASGException''"
| "exn_class_name (LibraryError n) = n"

section \<open>Sequencing of operations that may raise\<close>

named_theorems res_simps

definition res_bind :: "'a res \<Rightarrow> ('a \<Rightarrow> 'b res) \<Rightarrow> 'b res" where
  "res_bind m f = (case m of Inl e \<Rightarrow> Inl e | Inr x \<Rightarrow> f x)"

lemma res_bind_Inl [simp]: "res_bind (Inl e) f = Inl e"
  by (simp add: res_bind_def)

lemma res_bind_Inr [simp]: "res_bind (Inr x) f = f x"
  by (simp add: res_bind_def)

lemma res_bind_eq_Inr [res_simps]:
  "res_bind m f = Inr y \<longleftrightarrow> (\<exists>x. m = Inr x \<and> f x = Inr y)"
  by (cases m) auto

lemma res_bind_eq_Inl [res_simps]:
  "res_bind m f = Inl e \<longleftrightarrow> m = Inl e \<or> (\<exists>x. m = Inr x \<and> f x = Inl e)"
  by (cases m) auto

lemma res_bind_cong [fundef_cong]:
  "m = m' \<Longrightarrow> (\<And>x. m' = Inr x \<Longrightarrow> f x = f' x) \<Longrightarrow> res_bind m f = res_bind m' f'"
  by (cases m') auto

text \<open>A list comprehension \<open>[f x for x in xs]\<close>, and one with a condition \<open>if p x\<close>.\<close>

fun res_map :: "('a \<Rightarrow> 'b res) \<Rightarrow> 'a list \<Rightarrow> 'b list res" where
  "res_map f [] = Inr []"
| "res_map f (x # xs) = res_bind (f x) (\<lambda>y. res_bind (res_map f xs) (\<lambda>ys. Inr (y # ys)))"

fun res_filter :: "('a \<Rightarrow> bool res) \<Rightarrow> 'a list \<Rightarrow> 'a list res" where
  "res_filter p [] = Inr []"
| "res_filter p (x # xs) =
     res_bind (p x) (\<lambda>b. res_bind (res_filter p xs) (\<lambda>ys. Inr (if b then x # ys else ys)))"

text \<open>\<open>[f x for x in xs if p x]\<close>: the condition and the element of one \<open>x\<close> before those of the next.\<close>

fun res_comp :: "('a \<Rightarrow> bool res) \<Rightarrow> ('a \<Rightarrow> 'b res) \<Rightarrow> 'a list \<Rightarrow> 'b list res" where
  "res_comp p f [] = Inr []"
| "res_comp p f (x # xs) =
     res_bind (p x) (\<lambda>b.
       if b then res_bind (f x) (\<lambda>y. res_bind (res_comp p f xs) (\<lambda>ys. Inr (y # ys)))
       else res_comp p f xs)"

lemma res_comp_total:
  "(\<And>x. x \<in> set xs \<Longrightarrow> p x = Inr (q x)) \<Longrightarrow> (\<And>x. x \<in> set xs \<Longrightarrow> q x \<Longrightarrow> f x = Inr (g x)) \<Longrightarrow>
   res_comp p f xs = Inr (map g (filter q xs))"
  by (induction xs) auto

lemma res_map_Inr_iff: "res_map f xs = Inr ys \<longleftrightarrow> list_all2 (\<lambda>x y. f x = Inr y) xs ys"
  by (induction xs arbitrary: ys) (auto simp: res_simps list_all2_Cons1)

lemma res_map_total: "(\<And>x. x \<in> set xs \<Longrightarrow> f x = Inr (g x)) \<Longrightarrow> res_map f xs = Inr (map g xs)"
  by (induction xs) auto

lemma res_map_length: "res_map f xs = Inr ys \<Longrightarrow> length ys = length xs"
  by (auto simp: res_map_Inr_iff dest: list_all2_lengthD)

lemma res_filter_total: "(\<And>x. x \<in> set xs \<Longrightarrow> p x = Inr (q x)) \<Longrightarrow> res_filter p xs = Inr (filter q xs)"
  by (induction xs) auto

lemma res_filter_Inr:
  "res_filter p xs = Inr ys \<Longrightarrow> ys = filter (\<lambda>x. p x = Inr True) xs"
  by (induction xs arbitrary: ys) (auto simp: res_simps)

lemma res_filter_Inr_all:
  "res_filter p xs = Inr ys \<Longrightarrow> x \<in> set xs \<Longrightarrow> \<exists>b. p x = Inr b"
  by (induction xs arbitrary: ys) (auto simp: res_simps)

section \<open>Strings\<close>

fun nat_str :: "nat \<Rightarrow> string" where
  "nat_str n = (if n < 10 then [char_of (48 + n)] else nat_str (n div 10) @ [char_of (48 + n mod 10)])"

declare nat_str.simps [simp del]

definition int_str :: "int \<Rightarrow> string" where
  "int_str i = (if i < 0 then CHR ''-'' # nat_str (nat (- i)) else nat_str (nat i))"

text \<open>\<open>sub in s\<close> for strings: some suffix of \<open>s\<close> starts with \<open>sub\<close>.\<close>

fun str_contains :: "string \<Rightarrow> string \<Rightarrow> bool" where
  "str_contains sub [] = (sub = [])"
| "str_contains sub (c # cs) = (prefix sub (c # cs) \<or> str_contains sub cs)"

lemma str_contains_iff: "str_contains sub s \<longleftrightarrow> (\<exists>a b. s = a @ sub @ b)"
proof (induction s)
  case Nil
  then show ?case by simp
next
  case (Cons c cs)
  show ?case
  proof
    assume "str_contains sub (c # cs)"
    with Cons.IH show "\<exists>a b. c # cs = a @ sub @ b"
      by (auto simp: prefix_def intro: exI [of _ "[]"]) (metis append_Cons)
  next
    assume "\<exists>a b. c # cs = a @ sub @ b"
    then obtain a b where eq: "c # cs = a @ sub @ b" by blast
    show "str_contains sub (c # cs)"
    proof (cases a)
      case Nil
      with eq have "prefix sub (c # cs)" by (simp add: prefix_def)
      then show ?thesis by simp
    next
      case (Cons x a')
      with eq Cons.IH show ?thesis by auto
    qed
  qed
qed

text \<open>\<open>s.split(sep)[0]\<close>: what stands before the first occurrence of \<open>sep\<close>.\<close>

fun split_head :: "string \<Rightarrow> string \<Rightarrow> string" where
  "split_head sep [] = []"
| "split_head sep (c # cs) = (if prefix sep (c # cs) then [] else c # split_head sep cs)"

lemma split_head_none: "\<not> str_contains sep s \<Longrightarrow> split_head sep s = s"
  by (induction s) auto

lemma split_head_prefix: "prefix (split_head sep s) s"
  by (induction s) (auto simp: prefix_def)

text \<open>\<open>s.strip(chars)\<close>, and \<open>s.strip()\<close> with the white space of Python's \<open>str\<close> below 256.\<close>

definition str_strip :: "(char \<Rightarrow> bool) \<Rightarrow> string \<Rightarrow> string" where
  "str_strip p s = rev (dropWhile p (rev (dropWhile p s)))"

definition is_space :: "char \<Rightarrow> bool" where
  "is_space c = (let n = (of_char c :: nat) in (9 \<le> n \<and> n \<le> 13) \<or> (28 \<le> n \<and> n \<le> 32) \<or> n = 133 \<or> n = 160)"

lemma dropWhile_none: "\<forall>c \<in> set s. \<not> p c \<Longrightarrow> dropWhile p s = s"
  by (cases s) auto

lemma str_strip_none: "\<forall>c \<in> set s. \<not> p c \<Longrightarrow> str_strip p s = s"
  by (simp add: str_strip_def dropWhile_none)

definition lower_char :: "char \<Rightarrow> char" where
  "lower_char c = (let n = (of_char c :: nat) in
     if (65 \<le> n \<and> n \<le> 90) \<or> (192 \<le> n \<and> n \<le> 222 \<and> n \<noteq> 215) then char_of (n + 32) else c)"

definition str_lower :: "string \<Rightarrow> string" where
  "str_lower s = map lower_char s"

fun str_join :: "string \<Rightarrow> string list \<Rightarrow> string" where
  "str_join sep [] = []"
| "str_join sep [s] = s"
| "str_join sep (s # t # ts) = s @ sep @ str_join sep (t # ts)"

section \<open>Regular expressions anchored at the end\<close>

text \<open>
  \<open>re.sub(P + "$", "", s)\<close> for a pattern \<open>P\<close> whose matches are non-empty and hold no newline:
  the leftmost match that ends where \<open>$\<close> does, at the end or before a last newline, is removed.
  \<open>p m\<close> says that the whole of \<open>m\<close> matches \<open>P\<close>.
\<close>

fun re_sub_end :: "(string \<Rightarrow> bool) \<Rightarrow> string \<Rightarrow> string" where
  "re_sub_end p [] = []"
| "re_sub_end p (c # cs) =
     (if p (c # cs) then []
      else if last (c # cs) = CHR 0x0A \<and> p (butlast (c # cs)) then [CHR 0x0A]
      else c # re_sub_end p cs)"

definition az_suffix :: "string \<Rightarrow> bool" where
  "az_suffix m = (m \<in> set [''_a'', ''_b'', ''_c''])"

lemma re_sub_end_match:
  assumes "p m" and "\<And>w. p w \<Longrightarrow> length w = length m" and "m \<noteq> []" and "last m \<noteq> CHR 0x0A"
  shows "re_sub_end p (s @ m) = s"
proof (induction s)
  case Nil
  with assms show ?case by (cases m) auto
next
  case (Cons c s)
  have "\<not> p (c # s @ m)" using assms(2) [of "c # s @ m"] by auto
  with Cons assms(3,4) show ?case by simp
qed

lemma re_sub_end_no_match:
  assumes "\<And>a m. s = a @ m \<Longrightarrow> \<not> p m" and "\<And>a m. s = a @ m @ [CHR 0x0A] \<Longrightarrow> \<not> p m"
  shows "re_sub_end p s = s"
  using assms
proof (induction s)
  case (Cons c cs)
  have "\<not> p (c # cs)" using Cons.prems(1) [of "[]"] by simp
  moreover have "\<not> (last (c # cs) = CHR 0x0A \<and> p (butlast (c # cs)))"
    using Cons.prems(2) [of "[]" "butlast (c # cs)"] by (metis append_Nil append_butlast_last_id list.distinct(1))
  moreover have "re_sub_end p cs = cs"
    using Cons.IH Cons.prems(1) [of "c # _"] Cons.prems(2) [of "c # _"] by simp
  ultimately show ?case by (auto simp del: last.simps butlast.simps)
qed simp

lemma az_suffix_match: "m \<in> set [''_a'', ''_b'', ''_c''] \<Longrightarrow> re_sub_end az_suffix (c @ m) = c"
  by (rule re_sub_end_match) (auto simp: az_suffix_def)

section \<open>Numbers, equality and truth\<close>

text \<open>A number as mantissa and scale: \<open>(m, k)\<close> is \<open>m / 2^k\<close>; a bool is the number 0 or 1.\<close>

fun py_num :: "pyval \<Rightarrow> (int \<times> nat) option" where
  "py_num (PBool b) = Some (if b then 1 else 0, 0)"
| "py_num (PInt i) = Some (i, 0)"
| "py_num (PFloat m k) = Some (m, k)"
| "py_num _ = None"

text \<open>\<open>a == b\<close>: numbers by value across \<open>bool\<close>, \<open>int\<close> and \<open>float\<close>, dicts without their order.\<close>

lemma size_in_PList: "x \<in> set xs \<Longrightarrow> size x < size (PList xs)"
  by (induction xs) auto

lemma size_in_PDict: "(k, v) \<in> set d \<Longrightarrow> size v < size (PDict d)"
  by (induction d) auto

function py_eq :: "pyval \<Rightarrow> pyval \<Rightarrow> bool" where
  "py_eq a b =
     (case (py_num a, py_num b) of
        (Some (m, k), Some (n, l)) \<Rightarrow> m * 2 ^ l = n * 2 ^ k
      | _ \<Rightarrow>
        (case (a, b) of
           (PList xs, PList ys) \<Rightarrow> list_all2 py_eq xs ys
         | (PDict d, PDict e) \<Rightarrow>
             length d = length e \<and>
             list_all (\<lambda>(key, v). case map_of e key of None \<Rightarrow> False | Some w \<Rightarrow> py_eq v w) d
         | _ \<Rightarrow> a = b))"
  by pat_completeness auto
termination
  by (relation "measure (\<lambda>(a, b). size a)") (auto dest: size_in_PList size_in_PDict)

declare py_eq.simps [simp del]

lemma py_eq_PStr [simp]: "py_eq (PStr s) b = (b = PStr s)"
  by (subst py_eq.simps, cases b) auto

lemma py_eq_PStr_right [simp]: "py_eq a (PStr s) = (a = PStr s)"
  by (subst py_eq.simps, cases a) auto

lemma py_eq_PNone [simp]: "py_eq PNone b = (b = PNone)"
  by (subst py_eq.simps, cases b) auto

lemma py_eq_PNone_right [simp]: "py_eq a PNone = (a = PNone)"
  by (subst py_eq.simps, cases a) auto

lemma py_eq_num:
  "py_num a = Some (m, k) \<Longrightarrow> py_eq a b = (\<exists>n l. py_num b = Some (n, l) \<and> m * 2 ^ l = n * 2 ^ k)"
  by (subst py_eq.simps, cases b, simp_all, (cases a, simp_all)+)

lemma py_eq_PInt [simp]: "py_eq (PInt i) (PInt j) = (i = j)"
  by (simp add: py_eq_num)

lemma py_eq_PBool [simp]: "py_eq (PBool a) (PBool b) = (a = b)"
  by (simp add: py_eq_num)

text \<open>\<open>a < b\<close> for numbers and for two datetimes of the same kind; other operands raise.\<close>

definition type_name :: "pyval \<Rightarrow> string" where
  "type_name v = (case v of PNone \<Rightarrow> ''NoneType'' | PBool _ \<Rightarrow> ''bool'' | PInt _ \<Rightarrow> ''int''
     | PFloat _ _ \<Rightarrow> ''float'' | PStr _ \<Rightarrow> ''str'' | PDate _ _ \<Rightarrow> ''datetime.datetime''
     | PList _ \<Rightarrow> ''list'' | PDict _ \<Rightarrow> ''dict'')"

definition py_num_lt :: "pyval \<Rightarrow> pyval \<Rightarrow> bool res" where
  "py_num_lt a b =
     (case (py_num a, py_num b) of
        (Some (m, k), Some (n, l)) \<Rightarrow> Inr (m * 2 ^ l < n * 2 ^ k)
      | _ \<Rightarrow> Inl (type_error (quoted ''<'' @ '' not supported between instances of '' @ quoted (type_name a) @ '' and '' @ quoted (type_name b))))"

lemma py_num_lt_int [simp]: "py_num_lt (PInt i) (PInt j) = Inr (i < j)"
  by (simp add: py_num_lt_def)

definition py_date_lt :: "pyval \<Rightarrow> pyval \<Rightarrow> bool res" where
  "py_date_lt a b =
     (case (a, b) of
        (PDate x s, PDate y t) \<Rightarrow>
          if x = y then Inr (s < t)
          else Inl (type_error ''can't compare offset-naive and offset-aware datetimes'')
      | _ \<Rightarrow> Inl (type_error (quoted ''<'' @ '' not supported between instances of '' @ quoted (type_name a) @ '' and '' @ quoted (type_name b))))"

text \<open>\<open>a + 1\<close>, and the truth value of an object.\<close>

definition py_add_one :: "pyval \<Rightarrow> pyval res" where
  "py_add_one v =
     (case v of
        PInt i \<Rightarrow> Inr (PInt (i + 1))
      | PBool b \<Rightarrow> Inr (PInt (if b then 2 else 1))
      | PFloat m k \<Rightarrow> Inr (PFloat (m + 2 ^ k) k)
      | _ \<Rightarrow> Inl (type_error (''unsupported operand type(s) for +: '' @ quoted (type_name v) @ '' and '' @ quoted ''int'')))"

fun py_truth :: "pyval \<Rightarrow> bool" where
  "py_truth PNone = False"
| "py_truth (PBool b) = b"
| "py_truth (PInt i) = (i \<noteq> 0)"
| "py_truth (PFloat m k) = (m \<noteq> 0)"
| "py_truth (PStr s) = (s \<noteq> [])"
| "py_truth (PDate _ _) = True"
| "py_truth (PList xs) = (xs \<noteq> [])"
| "py_truth (PDict d) = (d \<noteq> [])"

section \<open>Access to containers\<close>

text \<open>\<open>obj[key]\<close> for a string key, \<open>obj[i]\<close> for an integer.\<close>

definition py_item :: "pyval \<Rightarrow> string \<Rightarrow> pyval res" where
  "py_item obj key =
     (case obj of
        PDict d \<Rightarrow> (case map_of d key of Some v \<Rightarrow> Inr v | None \<Rightarrow> Inl (Exn KeyError (Some (PStr key))))
      | PList _ \<Rightarrow> Inl (type_error ''list indices must be integers or slices, not str'')
      | PStr _ \<Rightarrow> Inl (type_error (''string indices must be integers, not '' @ quoted ''str''))
      | _ \<Rightarrow> Inl (type_error (quoted (type_name obj) @ '' object is not subscriptable'')))"

lemma py_item_PDict:
  "py_item (PDict d) key = (case map_of d key of Some v \<Rightarrow> Inr v | None \<Rightarrow> Inl (Exn KeyError (Some (PStr key))))"
  by (simp add: py_item_def)

definition list_index :: "'a list \<Rightarrow> int \<Rightarrow> 'a res" where
  "list_index xs i =
     (let from_end = nat (int (length xs) + i)
      in if i \<ge> int (length xs) \<or> i < - int (length xs)
         then Inl (Exn IndexError (Some (PStr ''list index out of range'')))
         else Inr (xs ! (if i < 0 then from_end else nat i)))"

lemma list_index_zero:
  "list_index xs 0 = (case xs of [] \<Rightarrow> Inl (Exn IndexError (Some (PStr ''list index out of range''))) | x # _ \<Rightarrow> Inr x)"
  by (cases xs) (auto simp: list_index_def Let_def)

definition py_index :: "pyval \<Rightarrow> int \<Rightarrow> pyval res" where
  "py_index obj i =
     (case obj of
        PList xs \<Rightarrow> list_index xs i
      | PStr s \<Rightarrow>
          (case list_index s i of
             Inr c \<Rightarrow> Inr (PStr [c])
           | Inl _ \<Rightarrow> Inl (Exn IndexError (Some (PStr ''string index out of range''))))
      | PDict _ \<Rightarrow> Inl (Exn KeyError (Some (PInt i)))
      | _ \<Rightarrow> Inl (type_error (quoted (type_name obj) @ '' object is not subscriptable'')))"

text \<open>\<open>obj.get(key, default)\<close>, \<open>key in obj\<close>, \<open>obj[key] = v\<close>, iteration and \<open>len\<close>.\<close>

definition py_get :: "pyval \<Rightarrow> string \<Rightarrow> pyval \<Rightarrow> pyval res" where
  "py_get obj key dflt =
     (case obj of
        PDict d \<Rightarrow> Inr (case map_of d key of Some v \<Rightarrow> v | None \<Rightarrow> dflt)
      | _ \<Rightarrow> Inl (Exn AttributeError (Some (PStr (quoted (type_name obj) @ '' object has no attribute '' @ quoted ''get'')))))"

definition py_in :: "string \<Rightarrow> pyval \<Rightarrow> bool res" where
  "py_in key obj =
     (case obj of
        PDict d \<Rightarrow> Inr (map_of d key \<noteq> None)
      | PList xs \<Rightarrow> Inr (PStr key \<in> set xs)
      | PStr s \<Rightarrow> Inr (str_contains key s)
      | _ \<Rightarrow> Inl (type_error (''argument of type '' @ quoted (type_name obj) @ '' is not iterable'')))"

definition py_set_item :: "pyval \<Rightarrow> string \<Rightarrow> pyval \<Rightarrow> pyval res" where
  "py_set_item obj key v =
     (case obj of
        PDict d \<Rightarrow> Inr (PDict (AList.update key v d))
      | PList _ \<Rightarrow> Inl (type_error ''list indices must be integers or slices, not str'')
      | _ \<Rightarrow> Inl (type_error (quoted (type_name obj) @ '' object does not support item assignment'')))"

definition py_iter :: "pyval \<Rightarrow> pyval list res" where
  "py_iter obj =
     (case obj of
        PList xs \<Rightarrow> Inr xs
      | PDict d \<Rightarrow> Inr (map (PStr \<circ> fst) d)
      | PStr s \<Rightarrow> Inr (map (\<lambda>c. PStr [c]) s)
      | _ \<Rightarrow> Inl (type_error (quoted (type_name obj) @ '' object is not iterable'')))"

definition py_len :: "pyval \<Rightarrow> int res" where
  "py_len obj =
     (case obj of
        PList xs \<Rightarrow> Inr (int (length xs))
      | PDict d \<Rightarrow> Inr (int (length d))
      | PStr s \<Rightarrow> Inr (int (length s))
      | _ \<Rightarrow> Inl (type_error (''object of type '' @ quoted (type_name obj) @ '' has no len()'')))"

definition is_dict :: "pyval \<Rightarrow> bool" where
  "is_dict v = (case v of PDict _ \<Rightarrow> True | _ \<Rightarrow> False)"

lemma py_iter_PList [simp]: "py_iter (PList xs) = Inr xs"
  by (simp add: py_iter_def)

lemma py_len_PList [simp]: "py_len (PList xs) = Inr (int (length xs))"
  by (simp add: py_len_def)

lemma py_set_item_PDict [simp]: "py_set_item (PDict d) key v = Inr (PDict (AList.update key v d))"
  by (simp add: py_set_item_def)

lemma py_get_PDict [simp]:
  "py_get (PDict d) key dflt = Inr (case map_of d key of Some v \<Rightarrow> v | None \<Rightarrow> dflt)"
  by (simp add: py_get_def)

lemma py_in_PDict [simp]: "py_in key (PDict d) = Inr (map_of d key \<noteq> None)"
  by (simp add: py_in_def)

lemma py_set_item_Inr:
  "py_set_item obj key v = Inr obj' \<Longrightarrow> \<exists>d. obj = PDict d \<and> obj' = PDict (AList.update key v d)"
  by (auto simp: py_set_item_def split: pyval.splits)

lemma py_item_set_item:
  "py_set_item obj key v = Inr obj' \<Longrightarrow> py_item obj' key' = (if key' = key then Inr v else py_item obj key')"
  by (auto dest!: py_set_item_Inr simp: py_item_PDict update_conv')

lemma py_item_Inr_iff: "py_item obj key = Inr v \<longleftrightarrow> (\<exists>d. obj = PDict d \<and> map_of d key = Some v)"
  by (cases obj) (auto simp: py_item_def split: option.splits)

text \<open>
  \<open>{f x for x in xs}\<close>: the elements that are kept, in insertion order; of equal elements the
  first. A list or a dict cannot be an element.
\<close>

definition hashable :: "pyval \<Rightarrow> bool" where
  "hashable v = (case v of PList _ \<Rightarrow> False | PDict _ \<Rightarrow> False | _ \<Rightarrow> True)"

definition set_add :: "pyval list \<Rightarrow> pyval \<Rightarrow> pyval list" where
  "set_add acc x = (if list_ex (\<lambda>y. py_eq y x) acc then acc else acc @ [x])"

fun py_set_from :: "pyval list \<Rightarrow> pyval list \<Rightarrow> pyval list res" where
  "py_set_from acc [] = Inr acc"
| "py_set_from acc (x # xs) =
     (if hashable x then py_set_from (set_add acc x) xs
      else Inl (type_error (''unhashable type: '' @ quoted (type_name x))))"

definition py_set :: "pyval list \<Rightarrow> pyval list res" where
  "py_set xs = py_set_from [] xs"

lemma py_set_from_length: "py_set_from acc xs = Inr ys \<Longrightarrow> length acc \<le> length ys"
proof (induction acc xs rule: py_set_from.induct)
  case (2 acc x xs)
  then have "length (set_add acc x) \<le> length ys" by (auto split: if_splits)
  then show ?case by (auto simp: set_add_def split: if_splits)
qed simp

lemma py_set_from_single:
  "py_set_from [y] xs = Inr [z] \<longleftrightarrow> z = y \<and> (\<forall>x \<in> set xs. hashable x \<and> py_eq y x)"
proof (induction xs)
  case (Cons x xs)
  show ?case
  proof (cases "py_eq y x")
    case True
    with Cons.IH show ?thesis by (auto simp: set_add_def)
  next
    case False
    then have "py_set_from [y] (x # xs) \<noteq> Inr [z]"
      using py_set_from_length [of "[y, x]" xs "[z]"] by (auto simp: set_add_def)
    with False show ?thesis by auto
  qed
qed auto

lemma py_set_single_iff:
  "py_set xs = Inr [z] \<longleftrightarrow>
     (\<exists>rest. xs = z # rest \<and> hashable z \<and> (\<forall>x \<in> set rest. hashable x \<and> py_eq z x))"
  by (cases xs) (auto simp: py_set_def set_add_def py_set_from_single)

lemma py_set_Nil [simp]: "py_set [] = Inr []"
  by (simp add: py_set_def)

lemma py_set_Inr_Nil: "py_set xs = Inr [] \<longleftrightarrow> xs = []"
  using py_set_from_length [of "[hd xs]" "tl xs" "[]"]
  by (cases xs) (auto simp: py_set_def set_add_def)

lemma py_set_from_hashable:
  "\<forall>x \<in> set xs. hashable x \<Longrightarrow> \<exists>ys. py_set_from acc xs = Inr ys"
  by (induction xs arbitrary: acc) auto

text \<open>A value used where the code needs a \<open>str\<close>: \<open>sep.join\<close>, \<open>startswith\<close>, \<open>split\<close>, \<open>lower\<close>.\<close>

definition need_str :: "pyval \<Rightarrow> exn \<Rightarrow> string res" where
  "need_str v e = (case v of PStr s \<Rightarrow> Inr s | _ \<Rightarrow> Inl e)"

lemma need_str_PStr [simp]: "need_str (PStr s) e = Inr s"
  by (simp add: need_str_def)

lemma need_str_Inr_iff: "need_str v e = Inr s \<longleftrightarrow> v = PStr s"
  by (auto simp: need_str_def split: pyval.splits)

definition no_attribute :: "pyval \<Rightarrow> string \<Rightarrow> exn" where
  "no_attribute v name =
     Exn AttributeError (Some (PStr (quoted (type_name v) @ '' object has no attribute '' @ quoted name)))"

section \<open>Formatting\<close>

text \<open>
  \<open>repr\<close> and \<open>str\<close>. A float prints its exact decimal expansion, which is Python's text for the
  floats whose shortest form is exact; no datetime is formatted by the code.
\<close>

definition hex_digit :: "nat \<Rightarrow> char" where
  "hex_digit n = char_of (if n < 10 then 48 + n else 87 + n)"

definition repr_char :: "char \<Rightarrow> char \<Rightarrow> string" where
  "repr_char quote c =
     (let n = (of_char c :: nat) in
      if c = quote \<or> n = 92 then [CHR 0x5C, c]
      else if n = 9 then [CHR 0x5C, CHR ''t'']
      else if n = 10 then [CHR 0x5C, CHR ''n'']
      else if n = 13 then [CHR 0x5C, CHR ''r'']
      else if n < 32 \<or> (127 \<le> n \<and> n \<le> 160) \<or> n = 173
        then [CHR 0x5C, CHR ''x'', hex_digit (n div 16), hex_digit (n mod 16)]
      else [c])"

definition repr_str :: "string \<Rightarrow> string" where
  "repr_str s =
     (let quote = (if CHR 0x27 \<in> set s \<and> CHR 0x22 \<notin> set s then CHR 0x22 else CHR 0x27)
      in quote # concat (map (repr_char quote) s) @ [quote])"

fun frac_digits :: "nat \<Rightarrow> nat \<Rightarrow> nat \<Rightarrow> string" where
  "frac_digits 0 r k = []"
| "frac_digits (Suc fuel) r k =
     (let d = (10 * r) div 2 ^ k; r' = (10 * r) mod 2 ^ k
      in char_of (48 + d) # (if r' = 0 then [] else frac_digits fuel r' k))"

definition float_str :: "int \<Rightarrow> nat \<Rightarrow> string" where
  "float_str m k =
     (let a = nat \<bar>m\<bar>
      in (if m < 0 then ''-'' else []) @ nat_str (a div 2 ^ k) @ ''.'' @ frac_digits (Suc k) (a mod 2 ^ k) k)"

fun py_repr :: "pyval \<Rightarrow> string" where
  "py_repr PNone = ''None''"
| "py_repr (PBool b) = (if b then ''True'' else ''False'')"
| "py_repr (PInt i) = int_str i"
| "py_repr (PFloat m k) = float_str m k"
| "py_repr (PStr s) = repr_str s"
| "py_repr (PDate aware t) = ''datetime('' @ int_str t @ '')''"
| "py_repr (PList xs) = ''['' @ str_join '', '' (map py_repr xs) @ '']''"
| "py_repr (PDict d) = ''{'' @ str_join '', '' (map (\<lambda>(k, v). repr_str k @ '': '' @ py_repr v) d) @ ''}''"

definition py_str :: "pyval \<Rightarrow> string" where
  "py_str v = (case v of PStr s \<Rightarrow> s | _ \<Rightarrow> py_repr v)"

lemma py_str_PStr [simp]: "py_str (PStr s) = s"
  by (simp add: py_str_def)

text \<open>\<open>str(e)\<close> and \<open>repr(e)\<close> of an exception: a \<open>KeyError\<close> prints the repr of its key.\<close>

definition exn_str :: "exn \<Rightarrow> string" where
  "exn_str e =
     (case exn_arg e of
        None \<Rightarrow> []
      | Some a \<Rightarrow> if exn_cls e = KeyError then py_repr a else py_str a)"

definition exn_repr :: "exn \<Rightarrow> string" where
  "exn_repr e =
     exn_class_name (exn_cls e) @ ''('' @ (case exn_arg e of None \<Rightarrow> [] | Some a \<Rightarrow> py_repr a) @ '')''"

definition py_exception :: "string \<Rightarrow> exn" where
  "py_exception msg = Exn PyException (Some (PStr msg))"

end
