(* ===== verification/LambdaIO.thy ===== *)
theory LambdaIO
  imports PyBase
begin

text \<open>
  The prelude of the development, second part: the effects of the Lambdas.

  A Lambda acts on the world only through the AWS, MongoDB and Consul clients, the clock and the
  process environment, none of which is code of the repository. They are one parameter, an
  \<open>env\<close>: \<open>reply E h c\<close> is what call \<open>c\<close> returns or raises after the calls \<open>h\<close>, and \<open>environ E\<close>
  are the environment variables. Since the reply may depend on the whole history, every
  sequence of answers is the sequence of some \<open>env\<close>. A state is a record that extends \<open>world\<close>,
  the log of the calls made so far, so that the order of the calls is part of what a
  computation returns.

  An \<open>('s, 'a) io\<close> takes the state to a result (an exception or a value) and the new state; the
  state survives an exception. \<open>wp m Q R s\<close> says that \<open>m\<close> run in \<open>s\<close> ends in \<open>Q\<close> when it
  returns and in \<open>R\<close> when it raises, and has an equation for every way to build an \<open>io\<close>, so
  that \<open>simp add: wp_simps\<close> runs a Lambda symbolically. \<open>footprint m S\<close> bounds the calls that
  \<open>m\<close> can make by the set \<open>S\<close>.
\<close>

section \<open>Calls, environments and states\<close>

datatype call =
    DescribeLaunchTemplates string
  | DescribeLaunchTemplateVersions pyval string
  | DescribeInstancesByName "string list"
  | DescribeInstancesById pyval
  | DescribeInstancesByIp "pyval list"
  | FilterInstances pyval
  | InstanceTerminate pyval
  | TerminateInstances pyval
  | MongoClient pyval
  | ReplSetGetStatus pyval
  | ReplSetGetConfig pyval
  | ReplSetReconfig pyval pyval
  | ReplSetStepDown pyval int
  | DynamoPutItem string pyval
  | DescribeAutoScalingGroups
  | SearchAutoScalingGroups string
  | DescribeTags pyval
  | DescribeScalingActivities pyval int
  | ExecutePolicy pyval string
  | StartExecution string string pyval
  | SendMessage string pyval string
  | SsmGetParameter string
  | WriteTempFile pyval
  | LoadVerifyLocations string
  | UrlOpen string
  | LocalTimeStamp
  | ReadClock
  | ReadTime
  | SsmSendCommand pyval
  | SlackNotification pyval
  | Sleep int

record env =
  reply :: "call list \<Rightarrow> call \<Rightarrow> pyval res"
  environ :: "string \<Rightarrow> string option"

record world =
  calls :: "call list"

definition fresh_world :: world where
  "fresh_world = \<lparr>calls = []\<rparr>"

type_synonym ('s, 'a) io = "'s \<Rightarrow> 'a res \<times> 's"

section \<open>Computations\<close>

definition io_return :: "'a \<Rightarrow> ('s, 'a) io" where
  "io_return x = (\<lambda>s. (Inr x, s))"

definition io_raise :: "exn \<Rightarrow> ('s, 'a) io" where
  "io_raise e = (\<lambda>s. (Inl e, s))"

definition io_res :: "'a res \<Rightarrow> ('s, 'a) io" where
  "io_res r = (\<lambda>s. (r, s))"

definition io_bind :: "('s, 'a) io \<Rightarrow> ('a \<Rightarrow> ('s, 'b) io) \<Rightarrow> ('s, 'b) io" where
  "io_bind m f = (\<lambda>s. case m s of (Inl e, t) \<Rightarrow> (Inl e, t) | (Inr x, t) \<Rightarrow> f x t)"

definition io_then :: "('s, 'a) io \<Rightarrow> ('s, 'b) io \<Rightarrow> ('s, 'b) io" where
  "io_then m k = io_bind m (\<lambda>_. k)"

text \<open>\<open>try: m except Exception as e: h e\<close>, and the same for one class of exceptions.\<close>

definition io_catch :: "('s, 'a) io \<Rightarrow> (exn \<Rightarrow> ('s, 'a) io) \<Rightarrow> ('s, 'a) io" where
  "io_catch m h = (\<lambda>s. case m s of (Inl e, t) \<Rightarrow> h e t | (Inr x, t) \<Rightarrow> (Inr x, t))"

definition io_catch_class :: "exn_class \<Rightarrow> ('s, 'a) io \<Rightarrow> (exn \<Rightarrow> ('s, 'a) io) \<Rightarrow> ('s, 'a) io" where
  "io_catch_class c m h = io_catch m (\<lambda>e. if exn_cls e = c then h e else io_raise e)"

fun io_map :: "('a \<Rightarrow> ('s, 'b) io) \<Rightarrow> 'a list \<Rightarrow> ('s, 'b list) io" where
  "io_map f [] = io_return []"
| "io_map f (x # xs) = io_bind (f x) (\<lambda>y. io_bind (io_map f xs) (\<lambda>ys. io_return (y # ys)))"

definition log_call :: "call \<Rightarrow> ('z world_scheme, unit) io" where
  "log_call c = (\<lambda>s. (Inr (), s\<lparr>calls := calls s @ [c]\<rparr>))"

definition request :: "env \<Rightarrow> call \<Rightarrow> ('z world_scheme, pyval) io" where
  "request E c = (\<lambda>s. (reply E (calls s) c, s\<lparr>calls := calls s @ [c]\<rparr>))"

definition io_sleep :: "int \<Rightarrow> ('z world_scheme, unit) io" where
  "io_sleep n = log_call (Sleep n)"

section \<open>Weakest preconditions\<close>

named_theorems wp_simps

definition wp :: "('s, 'a) io \<Rightarrow> ('a \<Rightarrow> 's \<Rightarrow> bool) \<Rightarrow> (exn \<Rightarrow> 's \<Rightarrow> bool) \<Rightarrow> 's \<Rightarrow> bool" where
  "wp m Q R s = (case m s of (Inl e, t) \<Rightarrow> R e t | (Inr x, t) \<Rightarrow> Q x t)"

lemma wp_return [wp_simps]: "wp (io_return x) Q R s = Q x s"
  by (simp add: wp_def io_return_def)

lemma wp_raise [wp_simps]: "wp (io_raise e) Q R s = R e s"
  by (simp add: wp_def io_raise_def)

lemma wp_res [wp_simps]: "wp (io_res r) Q R s = (case r of Inl e \<Rightarrow> R e s | Inr x \<Rightarrow> Q x s)"
  by (cases r) (simp_all add: wp_def io_res_def)

lemma wp_bind [wp_simps]: "wp (io_bind m f) Q R s = wp m (\<lambda>x. wp (f x) Q R) R s"
  by (auto simp: wp_def io_bind_def split: prod.splits sum.splits)

lemma wp_then [wp_simps]: "wp (io_then m k) Q R s = wp m (\<lambda>_. wp k Q R) R s"
  by (simp add: io_then_def wp_bind)

lemma wp_catch [wp_simps]: "wp (io_catch m h) Q R s = wp m Q (\<lambda>e. wp (h e) Q R) s"
  by (auto simp: wp_def io_catch_def split: prod.splits sum.splits)

lemma wp_catch_class [wp_simps]:
  "wp (io_catch_class c m h) Q R s = wp m Q (\<lambda>e t. if exn_cls e = c then wp (h e) Q R t else R e t) s"
  by (auto simp: wp_def io_catch_class_def io_catch_def io_raise_def split: prod.splits sum.splits)

lemma wp_log_call [wp_simps]: "wp (log_call c) Q R s = Q () (s\<lparr>calls := calls s @ [c]\<rparr>)"
  by (simp add: wp_def log_call_def)

lemma wp_request [wp_simps]:
  "wp (request E c) Q R s =
     (case reply E (calls s) c of
        Inl e \<Rightarrow> R e (s\<lparr>calls := calls s @ [c]\<rparr>)
      | Inr v \<Rightarrow> Q v (s\<lparr>calls := calls s @ [c]\<rparr>))"
  by (auto simp: wp_def request_def split: sum.splits)

lemma wp_sleep [wp_simps]: "wp (io_sleep n) Q R s = Q () (s\<lparr>calls := calls s @ [Sleep n]\<rparr>)"
  by (simp add: io_sleep_def wp_log_call)

lemma wp_if [wp_simps]: "wp (if b then m else k) Q R s = (if b then wp m Q R s else wp k Q R s)"
  by simp

lemma wp_case_option [wp_simps]:
  "wp (case x of None \<Rightarrow> m | Some y \<Rightarrow> f y) Q R s = (case x of None \<Rightarrow> wp m Q R s | Some y \<Rightarrow> wp (f y) Q R s)"
  by (simp split: option.splits)

lemma wp_mono:
  "wp m Q R s \<Longrightarrow> (\<And>x t. Q x t \<Longrightarrow> Q' x t) \<Longrightarrow> (\<And>e t. R e t \<Longrightarrow> R' e t) \<Longrightarrow> wp m Q' R' s"
  by (auto simp: wp_def split: prod.splits sum.splits)

lemma wp_conj: "wp m Q R s \<Longrightarrow> wp m Q' R' s \<Longrightarrow> wp m (\<lambda>x t. Q x t \<and> Q' x t) (\<lambda>e t. R e t \<and> R' e t) s"
  by (auto simp: wp_def split: prod.splits sum.splits)

lemma wp_top: "wp m (\<lambda>_ _. True) (\<lambda>_ _. True) s"
  by (simp add: wp_def split: prod.splits sum.splits)

lemma wp_bind_any: "(\<And>x t. wp (f x) Q (\<lambda>_ _. True) t) \<Longrightarrow> wp (io_bind m f) Q (\<lambda>_ _. True) s"
  unfolding wp_bind by (rule wp_mono [OF wp_top]) simp_all

lemma wp_catch_any:
  "(\<And>t. wp m Q (\<lambda>_ _. True) t) \<Longrightarrow> (\<And>e t. wp (h e) Q (\<lambda>_ _. True) t) \<Longrightarrow>
   wp (io_catch_class c m h) Q (\<lambda>_ _. True) s"
  unfolding wp_catch_class by (rule wp_mono [of m Q "\<lambda>_ _. True"]) simp_all

lemma wp_Inr: "wp m Q R s \<Longrightarrow> m s = (Inr x, t) \<Longrightarrow> Q x t"
  by (simp add: wp_def)

lemma wp_Inl: "wp m Q R s \<Longrightarrow> m s = (Inl e, t) \<Longrightarrow> R e t"
  by (simp add: wp_def)

lemma wpI:
  "(\<And>x t. m s = (Inr x, t) \<Longrightarrow> Q x t) \<Longrightarrow> (\<And>e t. m s = (Inl e, t) \<Longrightarrow> R e t) \<Longrightarrow> wp m Q R s"
  by (auto simp: wp_def split: prod.splits sum.splits)

text \<open>Running a computation: the equations that evaluate one on a concrete state.\<close>

lemmas io_eval = io_return_def io_raise_def io_res_def io_bind_def io_then_def io_catch_def
  io_catch_class_def log_call_def request_def io_sleep_def

section \<open>Footprints\<close>

named_theorems footprint_intros

definition extends :: "call set \<Rightarrow> 'z world_scheme \<Rightarrow> 'z world_scheme \<Rightarrow> bool" where
  "extends S s t = (\<exists>cs. calls t = calls s @ cs \<and> set cs \<subseteq> S)"

definition footprint :: "('z world_scheme, 'a) io \<Rightarrow> call set \<Rightarrow> bool" where
  "footprint m S = (\<forall>s. wp m (\<lambda>_. extends S s) (\<lambda>_. extends S s) s)"

lemma extends_refl [simp, intro]: "extends S s s"
  by (simp add: extends_def)

lemma extends_trans: "extends S s t \<Longrightarrow> extends S t u \<Longrightarrow> extends S s u"
  by (fastforce simp: extends_def)

lemma extends_mono: "extends S s t \<Longrightarrow> S \<subseteq> T \<Longrightarrow> extends T s t"
  by (auto simp: extends_def)

lemma extends_call: "c \<in> S \<Longrightarrow> extends S s (s\<lparr>calls := calls s @ [c]\<rparr>)"
  by (simp add: extends_def)

lemma footprintD: "footprint m S \<Longrightarrow> extends S s (snd (m s))"
proof -
  assume "footprint m S"
  then have "wp m (\<lambda>_. extends S s) (\<lambda>_. extends S s) s" by (simp add: footprint_def)
  then show ?thesis by (cases "m s") (auto simp: wp_def split: sum.splits)
qed

lemma footprintI: "(\<And>s. extends S s (snd (m s))) \<Longrightarrow> footprint m S"
  by (auto simp: footprint_def wp_def split: prod.splits sum.splits) (metis snd_conv)+

lemma footprint_mono: "footprint m S \<Longrightarrow> S \<subseteq> T \<Longrightarrow> footprint m T"
  by (auto intro!: footprintI dest: footprintD intro: extends_mono)

lemma footprint_wp: "footprint m S \<Longrightarrow> wp m (\<lambda>_. extends S s) (\<lambda>_. extends S s) s"
  by (simp add: footprint_def)

lemma footprint_return [footprint_intros]: "footprint (io_return x) S"
  by (simp add: footprint_def wp_simps)

lemma footprint_raise [footprint_intros]: "footprint (io_raise e) S"
  by (simp add: footprint_def wp_simps)

lemma footprint_res [footprint_intros]: "footprint (io_res r) S"
  by (simp add: footprint_def wp_simps split: sum.splits)

lemma footprint_bind [footprint_intros]:
  assumes "footprint m S" and "\<And>x. footprint (f x) S"
  shows "footprint (io_bind m f) S"
proof (rule footprintI)
  fix s :: "'a world_scheme"
  show "extends S s (snd (io_bind m f s))"
    using footprintD [OF assms(1), of s] footprintD [OF assms(2)]
    by (auto simp: io_bind_def split: prod.splits sum.splits) (metis extends_trans snd_conv)
qed

lemma footprint_then [footprint_intros]:
  "footprint m S \<Longrightarrow> footprint k S \<Longrightarrow> footprint (io_then m k) S"
  by (simp add: io_then_def footprint_bind)

lemma footprint_catch [footprint_intros]:
  assumes "footprint m S" and "\<And>e. footprint (h e) S"
  shows "footprint (io_catch m h) S"
proof (rule footprintI)
  fix s :: "'a world_scheme"
  show "extends S s (snd (io_catch m h s))"
    using footprintD [OF assms(1), of s] footprintD [OF assms(2)]
    by (auto simp: io_catch_def split: prod.splits sum.splits) (metis extends_trans snd_conv)
qed

lemma footprint_catch_class [footprint_intros]:
  "footprint m S \<Longrightarrow> (\<And>e. footprint (h e) S) \<Longrightarrow> footprint (io_catch_class c m h) S"
  by (auto simp: io_catch_class_def intro!: footprint_catch footprint_raise)

lemma footprint_log_call [footprint_intros]: "c \<in> S \<Longrightarrow> footprint (log_call c) S"
  by (simp add: footprint_def wp_simps extends_call)

lemma footprint_request [footprint_intros]: "c \<in> S \<Longrightarrow> footprint (request E c) S"
  by (simp add: footprint_def wp_simps extends_call split: sum.splits)

lemma footprint_sleep [footprint_intros]: "Sleep n \<in> S \<Longrightarrow> footprint (io_sleep n) S"
  by (simp add: footprint_def wp_simps extends_call)

lemma footprint_if [footprint_intros]:
  "(b \<Longrightarrow> footprint m S) \<Longrightarrow> (\<not> b \<Longrightarrow> footprint k S) \<Longrightarrow> footprint (if b then m else k) S"
  by simp

lemma footprint_case_option [footprint_intros]:
  "(x = None \<Longrightarrow> footprint m S) \<Longrightarrow> (\<And>y. x = Some y \<Longrightarrow> footprint (f y) S) \<Longrightarrow>
   footprint (case x of None \<Rightarrow> m | Some y \<Rightarrow> f y) S"
  by (simp split: option.splits)

lemma footprint_map [footprint_intros]:
  "(\<And>x. x \<in> set xs \<Longrightarrow> footprint (f x) S) \<Longrightarrow> footprint (io_map f xs) S"
  by (induction xs) (auto intro!: footprint_intros)

lemma footprint_calls:
  "footprint m S \<Longrightarrow> m s = (r, t) \<Longrightarrow> \<exists>cs. calls t = calls s @ cs \<and> set cs \<subseteq> S"
  using footprintD [of m S s] by (simp add: extends_def)

section \<open>Terminations and sleeps in a log\<close>

fun terminated_by :: "call \<Rightarrow> pyval list" where
  "terminated_by (InstanceTerminate v) = [v]"
| "terminated_by (TerminateInstances v) = [v]"
| "terminated_by _ = []"

definition terminations :: "call list \<Rightarrow> pyval list" where
  "terminations cs = concat (map terminated_by cs)"

fun slept_by :: "call \<Rightarrow> int" where
  "slept_by (Sleep n) = n"
| "slept_by _ = 0"

definition slept :: "call list \<Rightarrow> int" where
  "slept cs = sum_list (map slept_by cs)"

lemma terminations_append [simp]: "terminations (a @ b) = terminations a @ terminations b"
  by (simp add: terminations_def)

lemma terminations_simps [simp]: "terminations [] = []" "terminations (c # cs) = terminated_by c @ terminations cs"
  by (simp_all add: terminations_def)

lemma slept_append [simp]: "slept (a @ b) = slept a + slept b"
  by (simp add: slept_def)

lemma slept_simps [simp]: "slept [] = 0" "slept (c # cs) = slept_by c + slept cs"
  by (simp_all add: slept_def)

lemma terminations_Sleep [simp]: "terminations (map Sleep ds) = []"
  by (induction ds) auto

lemma terminations_none: "set cs \<subseteq> {c. terminated_by c = []} \<Longrightarrow> terminations cs = []"
  by (induction cs) auto

text \<open>The calls that terminate nothing; a computation bounded by them leaves the instances alone.\<close>

definition harmless :: "call set" where
  "harmless = {c. terminated_by c = []}"

lemma extends_harmless: "extends harmless s t \<Longrightarrow> terminations (calls t) = terminations (calls s)"
  by (auto simp: extends_def harmless_def terminations_none)

end
