(* ===== verification/AutorecycleSqs.thy ===== *)
theory AutorecycleSqs
  imports LambdaIO
begin

text \<open>
  The Lambda that asks for the recycling of a component, \<open>autorecycle/autorecycle_lambda.py\<close>:
  one SQS message to the component's queue, and the notification that reports it. The lemmas say
  that it never raises once the event has its three keys, and exactly when it reports success.
\<close>

section \<open>The notification\<close>

text \<open>\<open>os.getenv(name)\<close>\<close>

definition os_getenv :: "env \<Rightarrow> string \<Rightarrow> pyval" where
  "os_getenv E name = (case environ E name of None \<Rightarrow> PNone | Some v \<Rightarrow> PStr v)"

definition sqs_output :: "env \<Rightarrow> pyval \<Rightarrow> bool \<Rightarrow> pyval \<Rightarrow> pyval" where
  "sqs_output E component success channel =
     (let outcome = (if success then ''Auto-recycling was successfully initiated'' else ''Auto-recycling has failed'');
          status = (if success then ''success'' else ''failure'');
          channel' = (if success then channel else PStr ''team-infra-alerts'');
          message_content = PDict
            [(''text'', PStr outcome),
             (''color'', PStr (if status = ''success'' then ''good'' else ''danger'')),
             (''fields'', PList
               [PDict [(''title'', PStr ''Component Name''), (''value'', PStr (''recycle-'' @ py_str component)),
                       (''short'', PBool True)],
                PDict [(''title'', PStr ''Environment''), (''value'', os_getenv E ''environment''),
                       (''short'', PBool True)]])]
      in PDict
        [(''username'', PStr ''AutoRecycling''), (''channels'', channel'), (''emoji'', PStr '':robot_face:''),
         (''text'', PStr (''*'' @ py_str component @ ''*'')), (''status'', PStr status), (''component'', component),
         (''message_content'', message_content)])"

section \<open>Sending the message\<close>

definition SQS_URL :: string where
  "SQS_URL = ''https://sqs.eu-west-2.amazonaws.com''"

definition recycle_queue :: "pyval \<Rightarrow> pyval \<Rightarrow> string" where
  "recycle_queue account_id component = SQS_URL @ ''/'' @ py_str account_id @ ''/recycle-'' @ py_str component"

definition recycle_message :: "pyval \<Rightarrow> pyval \<Rightarrow> call" where
  "recycle_message component account_id =
     SendMessage (recycle_queue account_id component)
       (PDict [(''component'', PDict [(''DataType'', PStr ''String''), (''StringValue'', component)]),
               (''account_id'', PDict [(''DataType'', PStr ''String''), (''StringValue'', account_id)])])
       (''Recycle '' @ py_str component)"

text \<open>
  The two \<open>except\<close> clauses, for \<open>ClientError\<close> and for any other exception, differ only in what
  they print, so one handler models both.
\<close>

definition send_to_sqs :: "env \<Rightarrow> pyval \<Rightarrow> pyval \<Rightarrow> pyval \<Rightarrow> ('z world_scheme, pyval) io" where
  "send_to_sqs E component account_id channel =
     io_catch
       (io_bind (request E (recycle_message component account_id)) (\<lambda>response.
        io_bind (io_res (py_in ''MessageId'' response)) (\<lambda>sent.
        if sent
        then io_then (io_res (py_item response ''MessageId'')) (io_return (sqs_output E component True channel))
        else io_return (sqs_output E component False channel))))
       (\<lambda>_. io_return (sqs_output E component False channel))"

definition sqs_lambda_handler :: "env \<Rightarrow> pyval \<Rightarrow> ('z world_scheme, pyval) io" where
  "sqs_lambda_handler E event =
     io_bind (io_res (py_item event ''component'')) (\<lambda>component.
     io_bind (io_res (py_item event ''account_id'')) (\<lambda>account_id.
     io_bind (io_res (py_item event ''success_channel'')) (\<lambda>channel.
     send_to_sqs E component account_id channel)))"

section \<open>What it reports\<close>

text \<open>The reply names the message it accepted: a response that is a dict with a \<open>MessageId\<close>.\<close>

definition accepted :: "pyval res \<Rightarrow> bool" where
  "accepted r = (case r of Inr (PDict d) \<Rightarrow> map_of d ''MessageId'' \<noteq> None | _ \<Rightarrow> False)"

lemma send_to_sqs_run:
  "send_to_sqs E component account_id channel s =
     (Inr (sqs_output E component (accepted (reply E (calls s) (recycle_message component account_id))) channel),
      s\<lparr>calls := calls s @ [recycle_message component account_id]\<rparr>)"
proof -
  let ?r = "reply E (calls s) (recycle_message component account_id)"
  have "accepted ?r = (\<exists>v. ?r = Inr v \<and> py_in ''MessageId'' v = Inr True \<and> (\<exists>x. py_item v ''MessageId'' = Inr x))"
    by (cases ?r) (auto simp: accepted_def py_in_def py_item_def split: pyval.splits option.splits)
  then show ?thesis
    by (auto simp: send_to_sqs_def io_eval split: sum.splits)
qed

text \<open>
  C40. For an event with its three keys the Lambda never raises and sends exactly one message, to
  the component's queue of the account. It reports success, on the channel of the event, exactly
  when the reply accepts the message; any other reply or error is reported as a failure on
  the infrastructure team's channel.
\<close>

theorem sqs_handler_reports:
  assumes "map_of d ''component'' = Some component" and "map_of d ''account_id'' = Some account_id"
    and "map_of d ''success_channel'' = Some channel"
  shows "\<exists>doc. sqs_lambda_handler E (PDict d) s =
      (Inr (PDict doc), s\<lparr>calls := calls s @ [recycle_message component account_id]\<rparr>) \<and>
    map_of doc ''component'' = Some component \<and>
    (if accepted (reply E (calls s) (recycle_message component account_id))
     then map_of doc ''status'' = Some (PStr ''success'') \<and> map_of doc ''channels'' = Some channel
     else map_of doc ''status'' = Some (PStr ''failure'') \<and> map_of doc ''channels'' = Some (PStr ''team-infra-alerts''))"
proof -
  have "sqs_lambda_handler E (PDict d) s = send_to_sqs E component account_id channel s"
    by (simp add: sqs_lambda_handler_def py_item_PDict assms io_bind_def io_res_def)
  then show ?thesis by (simp add: send_to_sqs_run sqs_output_def Let_def)
qed

definition sample_request :: "(string \<times> pyval) list" where
  "sample_request = [(''component'', PStr ''api''), (''account_id'', PStr ''1''), (''success_channel'', PStr ''team'')]"

lemma sqs_handler_reports_witness:
  "\<exists>doc. fst (sqs_lambda_handler \<lparr>reply = \<lambda>_ _. Inl (Exn ClientError None), environ = \<lambda>_. None\<rparr>
       (PDict sample_request) fresh_world) = Inr (PDict doc) \<and> map_of doc ''status'' = Some (PStr ''failure'')"
  using sqs_handler_reports [of sample_request "PStr ''api''" "PStr ''1''" "PStr ''team''"
      "\<lparr>reply = \<lambda>_ _. Inl (Exn ClientError None), environ = \<lambda>_. None\<rparr>" fresh_world]
  by (auto simp: sample_request_def accepted_def)

end
