(* ===== verification/ConsulCert.thy ===== *)
theory ConsulCert
  imports AutorecycleSqs
begin

text \<open>
  What the two Lambdas that talk to Consul share, each with its own copy of the code
  (\<open>check_consul_health/main.py\<close>, \<open>get_consul_nodes/main.py\<close>): the cached CA certificate, the
  address of the cluster, and reading a URL.

  A Lambda's module outlives an invocation, so the path cached in \<open>ca_certificate\<close> is a field of
  the state. The locale \<open>tls_provider\<close> is what a handler may rely on: making a context leaves the
  instances alone, and a certificate is fetched only while none is cached.
\<close>

section \<open>The certificate\<close>

record consul_world = world +
  cert_cache :: "string option"

definition fresh_consul :: consul_world where
  "fresh_consul = \<lparr>calls = [], cert_cache = None\<rparr>"

definition cached_path :: "('z consul_world_scheme, string option) io" where
  "cached_path = (\<lambda>s. (Inr (cert_cache s), s))"

definition cache_path :: "string \<Rightarrow> ('z consul_world_scheme, unit) io" where
  "cache_path p = (\<lambda>s. (Inr (), s\<lparr>cert_cache := Some p\<rparr>))"

text \<open>\<open>os.environ.get("CONSUL_TLS_CERT_PARAMETER_ARN")\<close>, when the module is loaded.\<close>

definition cert_parameter_arn :: "env \<Rightarrow> string option" where
  "cert_parameter_arn E = environ E ''CONSUL_TLS_CERT_PARAMETER_ARN''"

definition truthy :: "string option \<Rightarrow> bool" where
  "truthy s = (s \<noteq> None \<and> s \<noteq> Some [])"

definition retrieve_cert :: "env \<Rightarrow> ('z consul_world_scheme, unit) io" where
  "retrieve_cert E =
     (if \<not> truthy (cert_parameter_arn E) then io_return ()
      else
        io_catch
          (io_bind (request E (SsmGetParameter (the (cert_parameter_arn E)))) (\<lambda>response.
           io_bind (io_res (res_bind (py_item response ''Parameter'') (\<lambda>p. py_item p ''Value''))) (\<lambda>cert_content.
           io_then (io_res (need_str cert_content
               (type_error (''write() argument must be str, not '' @ type_name cert_content))))
           (io_bind (request E (WriteTempFile cert_content)) (\<lambda>f.
            io_bind (io_res (need_str f (no_attribute f ''name''))) cache_path)))))
          (\<lambda>e. io_raise e))"

definition cert_path :: "env \<Rightarrow> ('z consul_world_scheme, string option) io" where
  "cert_path E =
     io_bind cached_path (\<lambda>p.
     io_then (if p = None \<and> truthy (cert_parameter_arn E) then retrieve_cert E else io_return ())
       cached_path)"

definition get_ssl_context :: "env \<Rightarrow> ('z consul_world_scheme, unit) io" where
  "get_ssl_context E =
     io_bind (cert_path E) (\<lambda>p.
     if truthy p
     then
       io_bind (cert_path E) (\<lambda>q.
       io_then (request E (LoadVerifyLocations (the q))) (io_return ()))
     else io_return ())"

section \<open>The cluster\<close>

definition get_consul_host :: "env \<Rightarrow> pyval \<Rightarrow> string res" where
  "get_consul_host E event =
     (let environment = os_getenv E ''environment''
      in res_bind (py_get event ''cluster'' environment) (\<lambda>cluster.
         Inr (''https://consul-'' @ py_str cluster @ ''.'' @ py_str environment @ ''.mdtp:8501'')))"

text \<open>The address for an event that is a dict.\<close>

definition consul_address :: "env \<Rightarrow> (string \<times> pyval) list \<Rightarrow> string" where
  "consul_address E ev =
     ''https://consul-'' @ py_str (case map_of ev ''cluster'' of None \<Rightarrow> os_getenv E ''environment'' | Some c \<Rightarrow> c) @
     ''.'' @ py_str (os_getenv E ''environment'') @ ''.mdtp:8501''"

lemma get_consul_host_PDict: "get_consul_host E (PDict ev) = Inr (consul_address E ev)"
  by (simp add: get_consul_host_def consul_address_def Let_def)

text \<open>Opening a URL and reading its body: one call, whose reply is the decoded text.\<close>

definition read_url :: "env \<Rightarrow> string \<Rightarrow> ('z world_scheme, string) io" where
  "read_url E url =
     io_bind (request E (UrlOpen url)) (\<lambda>body.
     io_res (need_str body (no_attribute body ''decode'')))"

text \<open>\<open>text.strip().strip(quote)\<close> of the double quote.\<close>

definition unquote :: "string \<Rightarrow> string" where
  "unquote txt = str_strip (\<lambda>c. c = CHR 0x22) (str_strip is_space txt)"

section \<open>What making a context does\<close>

definition tls_calls :: "env \<Rightarrow> call set" where
  "tls_calls E = {SsmGetParameter (the (cert_parameter_arn E))} \<union> range WriteTempFile \<union> range LoadVerifyLocations"

text \<open>
  The certificate is needed in \<open>s\<close>: one is configured and none is cached.
\<close>

definition cert_needed :: "env \<Rightarrow> 'z consul_world_scheme \<Rightarrow> bool" where
  "cert_needed E s = (cert_cache s = None \<and> truthy (cert_parameter_arn E))"

definition fetches :: "call list \<Rightarrow> call list" where
  "fetches cs = filter (\<lambda>c. case c of SsmGetParameter _ \<Rightarrow> True | _ \<Rightarrow> False) cs"

lemma fetches_append [simp]: "fetches (a @ b) = fetches a @ fetches b"
  by (simp add: fetches_def)

lemma fetches_none: "set cs \<subseteq> {c. fetches [c] = []} \<Longrightarrow> fetches cs = []"
  by (induction cs) (auto simp: fetches_def split: if_splits)

lemma fetches_simps [simp]:
  "fetches [] = []" "fetches (SsmGetParameter a # cs) = SsmGetParameter a # fetches cs"
  "fetches (WriteTempFile v # cs) = fetches cs" "fetches (LoadVerifyLocations p # cs) = fetches cs"
  "fetches (UrlOpen u # cs) = fetches cs" "fetches (DescribeInstancesByIp ips # cs) = fetches cs"
  by (simp_all add: fetches_def)

text \<open>From the state \<open>s\<close> to the state \<open>t\<close>, \<open>new\<close> was logged, and the certificate fetched if it was needed.\<close>

definition tls_step :: "env \<Rightarrow> 'z consul_world_scheme \<Rightarrow> 'z consul_world_scheme \<Rightarrow> bool" where
  "tls_step E s t =
     (\<exists>new. calls t = calls s @ new \<and> set new \<subseteq> tls_calls E \<and>
        fetches new = (if cert_needed E s then [SsmGetParameter (the (cert_parameter_arn E))] else []))"

lemma retrieve_cert_wp:
  assumes "cert_needed E s"
  shows "wp (retrieve_cert E)
    (\<lambda>_ t. tls_step E s t \<and> cert_cache t \<noteq> None) (\<lambda>_ t. tls_step E s t \<and> cert_cache t = None) s"
  using assms
  by (auto simp: retrieve_cert_def cert_needed_def wp_simps cache_path_def wp_def [of "\<lambda>s. (Inr (), _ s)"]
      tls_step_def tls_calls_def split: sum.splits)

lemma cert_path_run:
  "cert_path E s = (if cert_needed E s then io_then (retrieve_cert E) cached_path s else (Inr (cert_cache s), s))"
  by (simp add: cert_path_def cert_needed_def cached_path_def io_bind_def io_then_def io_return_def)

lemma cert_cached: "cert_cache t \<noteq> None \<Longrightarrow> \<not> cert_needed E t"
  by (simp add: cert_needed_def)

lemma cert_path_wp:
  "wp (cert_path E)
    (\<lambda>p t. p = cert_cache t \<and> \<not> cert_needed E t \<and> (if cert_needed E s then tls_step E s t else t = s))
    (\<lambda>_ t. cert_needed E s \<and> cert_cache t = None \<and> tls_step E s t) s"
proof (cases "cert_needed E s")
  case True
  have "wp (io_then (retrieve_cert E) cached_path)
      (\<lambda>p t. p = cert_cache t \<and> \<not> cert_needed E t \<and> (if cert_needed E s then tls_step E s t else t = s))
      (\<lambda>_ t. cert_needed E s \<and> cert_cache t = None \<and> tls_step E s t) s"
    unfolding wp_then
    by (rule wp_mono [OF retrieve_cert_wp [OF True]]) (simp_all add: wp_def cached_path_def True cert_cached)
  with True show ?thesis by (simp add: wp_def cert_path_run)
next
  case False
  then show ?thesis by (simp add: wp_def cert_path_run)
qed

lemma get_ssl_context_wp:
  "wp (get_ssl_context E) (\<lambda>_ t. tls_step E s t \<and> \<not> cert_needed E t)
    (\<lambda>_ t. tls_step E s t \<and> (cert_needed E t \<longrightarrow> cert_needed E s)) s"
  unfolding get_ssl_context_def wp_bind
proof (rule wp_mono [OF cert_path_wp])
  fix p and t :: "'a consul_world_scheme"
  assume p: "p = cert_cache t \<and> \<not> cert_needed E t \<and> (if cert_needed E s then tls_step E s t else t = s)"
  have here: "tls_step E s t"
    using p by (cases "cert_needed E s") (auto simp: tls_step_def)
  have loads: "tls_step E s (t\<lparr>calls := calls t @ [LoadVerifyLocations q]\<rparr>)" for q
    using here by (auto simp: tls_step_def tls_calls_def)
  have kept: "\<not> cert_needed E (t\<lparr>calls := cs\<rparr>)" for cs
    using p by (simp add: cert_needed_def)
  have again: "cert_path E t = (Inr (cert_cache t), t)"
    using p by (simp add: cert_path_run)
  show "wp (if truthy p
       then io_bind (cert_path E) (\<lambda>q. io_then (request E (LoadVerifyLocations (the q))) (io_return ()))
       else io_return ())
      (\<lambda>_ t. tls_step E s t \<and> \<not> cert_needed E t) (\<lambda>_ t. tls_step E s t \<and> (cert_needed E t \<longrightarrow> cert_needed E s)) t"
    using p here loads kept
    by (simp add: wp_def again io_bind_def io_then_def request_def io_return_def split: sum.splits)
qed simp

lemma cached_context:
  assumes "cert_cache s = Some p"
  shows "get_ssl_context E s = (if p = [] then (Inr (), s) else io_then (request E (LoadVerifyLocations p)) (io_return ()) s)"
  using assms by (simp add: get_ssl_context_def io_bind_def cert_path_run cert_needed_def truthy_def io_return_def)

lemma context_keeps:
  "wp (get_ssl_context E) (\<lambda>_ t. \<forall>p. cert_cache s = Some p \<longrightarrow> cert_cache t = Some p)
    (\<lambda>_ t. \<forall>p. cert_cache s = Some p \<longrightarrow> cert_cache t = Some p) s"
  by (cases "cert_cache s")
    (auto simp: wp_def cached_context io_then_def io_bind_def io_return_def request_def split: sum.splits)

text \<open>What an invocation may do to the certificate: fetch it once when it is needed, and never replace a cached one.\<close>

definition cert_step :: "env \<Rightarrow> 'z consul_world_scheme \<Rightarrow> 'z consul_world_scheme \<Rightarrow> bool" where
  "cert_step E s t =
     ((\<exists>new. calls t = calls s @ new \<and> length (fetches new) \<le> 1 \<and> (\<not> cert_needed E s \<longrightarrow> fetches new = [])) \<and>
      (\<forall>p. cert_cache s = Some p \<longrightarrow> cert_cache t = Some p))"

section \<open>The interface of the handlers\<close>

text \<open>
  What a handler relies on when it makes its context: the calls it makes are those of the
  certificate, once it returned the certificate is not needed any more, and a cached path is kept.
\<close>

locale tls_provider =
  fixes E :: env and ctx :: "('z consul_world_scheme, unit) io"
  assumes ctx_tls: "wp ctx (\<lambda>_ t. tls_step E s t \<and> \<not> cert_needed E t)
    (\<lambda>_ t. tls_step E s t \<and> (cert_needed E t \<longrightarrow> cert_needed E s)) s"
    and ctx_keeps: "wp ctx (\<lambda>_ t. \<forall>p. cert_cache s = Some p \<longrightarrow> cert_cache t = Some p)
      (\<lambda>_ t. \<forall>p. cert_cache s = Some p \<longrightarrow> cert_cache t = Some p) s"
begin

lemma ctx_step: "wp ctx (\<lambda>_ t. cert_step E s t \<and> \<not> cert_needed E t) (\<lambda>_ t. cert_step E s t) s"
  by (rule wp_mono [OF wp_conj [OF ctx_tls ctx_keeps]]) (auto simp: cert_step_def tls_step_def)

end

interpretation consul_tls: tls_provider E "get_ssl_context E" for E
  by unfold_locales (rule get_ssl_context_wp context_keeps)+

end
