(* ===== verification/Json.thy ===== *)
theory Json
  imports PyBase
begin

text \<open>
  The module \<open>json\<close> of Python's standard library, as the Lambdas use it: \<open>dumps\<close> with its default
  separators, and \<open>loads\<close> with the messages of its errors. Left out are code points above 255,
  which have no \<open>char\<close>, and the values \<open>NaN\<close> and \<open>Infinity\<close>, which have no \<open>pyval\<close>: reading one is the
  stop \<open>Beyond\<close>; the negative zero, which reads as \<open>0.0\<close>; and the limit of the recursion depth.
  The lemmas show that the fuel of the parser is always enough, and that \<open>loads\<close> inverts \<open>dumps\<close>.
\<close>

section \<open>\<open>dumps\<close>\<close>

definition json_char :: "char \<Rightarrow> string" where
  "json_char c =
     (let n = (of_char c :: nat) in
      if c = CHR 0x22 \<or> c = CHR 0x5C then [CHR 0x5C, c]
      else if c = CHR 0x08 then [CHR 0x5C, CHR ''b'']
      else if c = CHR 0x09 then [CHR 0x5C, CHR ''t'']
      else if c = CHR 0x0A then [CHR 0x5C, CHR ''n'']
      else if c = CHR 0x0C then [CHR 0x5C, CHR ''f'']
      else if c = CHR 0x0D then [CHR 0x5C, CHR ''r'']
      else if n < 32 \<or> n > 126
        then [CHR 0x5C, CHR ''u'', CHR ''0'', CHR ''0'', hex_digit (n div 16), hex_digit (n mod 16)]
      else [c])"

definition json_string :: "string \<Rightarrow> string" where
  "json_string s = CHR 0x22 # concat (map json_char s) @ [CHR 0x22]"

text \<open>\<open>json_text\<close> of a datetime is never asked for: \<open>dumps\<close> raises for it.\<close>

fun json_text :: "pyval \<Rightarrow> string" where
  "json_text PNone = ''null''"
| "json_text (PBool b) = (if b then ''true'' else ''false'')"
| "json_text (PInt i) = int_str i"
| "json_text (PFloat m k) = float_str m k"
| "json_text (PStr s) = json_string s"
| "json_text (PDate aware t) = []"
| "json_text (PList xs) = ''['' @ str_join '', '' (map json_text xs) @ '']''"
| "json_text (PDict d) = ''{'' @ str_join '', '' (map (\<lambda>(k, v). json_string k @ '': '' @ json_text v) d) @ ''}''"

fun json_able :: "pyval \<Rightarrow> bool" where
  "json_able (PDate a t) = False"
| "json_able (PList xs) = list_all json_able xs"
| "json_able (PDict d) = list_all (\<lambda>(k, v). json_able v) d"
| "json_able v = True"

definition json_dumps :: "pyval \<Rightarrow> pyval res" where
  "json_dumps v =
     (if json_able v then Inr (PStr (json_text v)) else Inl (type_error ''Object of type datetime is not JSON serializable''))"

section \<open>\<open>loads\<close>\<close>

text \<open>Where reading stops: a message and the rest of the text at the error.\<close>

datatype json_stop = Stop string string | Beyond | NoFuel

type_synonym 'a reading = "json_stop + 'a \<times> string"

definition then_read :: "'a reading \<Rightarrow> ('a \<Rightarrow> string \<Rightarrow> 'b reading) \<Rightarrow> 'b reading" where
  "then_read m f = (case m of Inl e \<Rightarrow> Inl e | Inr (x, r) \<Rightarrow> f x r)"

lemma then_read_simps [simp]: "then_read (Inl e) f = Inl e" "then_read (Inr (x, r)) f = f x r"
  by (simp_all add: then_read_def)

definition json_space :: "char \<Rightarrow> bool" where
  "json_space c = (c \<in> {CHR 0x20, CHR 0x09, CHR 0x0A, CHR 0x0D})"

definition skip_space :: "string \<Rightarrow> string" where
  "skip_space s = dropWhile json_space s"

subsection \<open>Strings\<close>

definition unescape :: "char \<Rightarrow> char option" where
  "unescape c =
     (if c = CHR 0x22 \<or> c = CHR 0x5C \<or> c = CHR ''/'' then Some c
      else if c = CHR ''b'' then Some (CHR 0x08)
      else if c = CHR ''f'' then Some (CHR 0x0C)
      else if c = CHR ''n'' then Some (CHR 0x0A)
      else if c = CHR ''r'' then Some (CHR 0x0D)
      else if c = CHR ''t'' then Some (CHR 0x09)
      else None)"

definition hex_value :: "char \<Rightarrow> nat option" where
  "hex_value c =
     (let n = (of_char c :: nat) in
      if 48 \<le> n \<and> n \<le> 57 then Some (n - 48)
      else if 65 \<le> n \<and> n \<le> 70 then Some (n - 55)
      else if 97 \<le> n \<and> n \<le> 102 then Some (n - 87)
      else None)"

text \<open>The four digits of a code point; the text may not end with them.\<close>

definition bad_unicode :: string where
  "bad_unicode = ''Invalid '' @ [CHR 0x5C] @ ''uXXXX escape''"

definition bad_escape :: string where
  "bad_escape = ''Invalid '' @ [CHR 0x5C] @ ''escape''"

definition read_unicode :: "string \<Rightarrow> char reading" where
  "read_unicode s =
     (case s of
        a # b # c # d # e # r \<Rightarrow>
          (case (hex_value a, hex_value b, hex_value c, hex_value d) of
             (Some w, Some x, Some y, Some z) \<Rightarrow>
               let n = 4096 * w + 256 * x + 16 * y + z
               in if n < 256 then Inr (char_of n, e # r) else Inl Beyond
           | _ \<Rightarrow> Inl (Stop bad_unicode (CHR ''u'' # s)))
      | _ \<Rightarrow> Inl (Stop bad_unicode s))"

fun read_chars :: "nat \<Rightarrow> string \<Rightarrow> string \<Rightarrow> string \<Rightarrow> string reading" where
  "read_chars 0 opening acc s = Inl NoFuel"
| "read_chars (Suc n) opening acc s =
     (case s of
        [] \<Rightarrow> Inl (Stop ''Unterminated string starting at'' opening)
      | c # cs \<Rightarrow>
          if c = CHR 0x22 then Inr (acc, cs)
          else if c = CHR 0x5C then
            (case cs of
               [] \<Rightarrow> Inl (Stop ''Unterminated string starting at'' opening)
             | e # ds \<Rightarrow>
                 if e = CHR ''u'' then then_read (read_unicode ds) (\<lambda>x r. read_chars n opening (acc @ [x]) r)
                 else
                   (case unescape e of
                      None \<Rightarrow> Inl (Stop bad_escape s)
                    | Some x \<Rightarrow> read_chars n opening (acc @ [x]) ds))
          else if (of_char c :: nat) < 32 then Inl (Stop ''Invalid control character at'' s)
          else read_chars n opening (acc @ [c]) cs)"

text \<open>A string whose opening quote is the head of \<open>s\<close>.\<close>

definition read_string :: "string \<Rightarrow> string reading" where
  "read_string s = read_chars (length s) s [] (tl s)"

subsection \<open>Numbers\<close>

definition is_digit :: "char \<Rightarrow> bool" where
  "is_digit c = (48 \<le> (of_char c :: nat) \<and> (of_char c :: nat) \<le> 57)"

definition digit_value :: "char \<Rightarrow> nat" where
  "digit_value c = of_char c - 48"

definition digits_value :: "string \<Rightarrow> nat" where
  "digits_value ds = foldl (\<lambda>n c. 10 * n + digit_value c) 0 ds"

text \<open>The double nearest to \<open>p / q\<close>, ties to even; \<open>None\<close> when it is infinite.\<close>

fun bit_size :: "nat \<Rightarrow> nat" where
  "bit_size n = (if n = 0 then 0 else Suc (bit_size (n div 2)))"

declare bit_size.simps [simp del]

definition round_half_even :: "nat \<Rightarrow> nat \<Rightarrow> nat" where
  "round_half_even p q =
     (let d = p div q; r = p mod q in if 2 * r < q \<or> 2 * r = q \<and> even d then d else d + 1)"

definition scaled_by :: "int \<Rightarrow> nat \<Rightarrow> nat \<Rightarrow> nat \<times> nat" where
  "scaled_by e p q = (if e \<ge> 0 then (p * 2 ^ nat e, q) else (p, q * 2 ^ nat (- e)))"

definition nearest_double :: "nat \<Rightarrow> nat \<Rightarrow> (int \<times> nat) option" where
  "nearest_double p q =
     (if p = 0 then Some (0, 0)
      else
        let e0 = 53 - (int (bit_size p) - int (bit_size q));
            (p0, q0) = scaled_by e0 p q;
            e = min (if p0 \<ge> 2 ^ 53 * q0 then e0 - 1 else e0) 1074;
            (p1, q1) = scaled_by e p q;
            m = round_half_even p1 q1
        in if e \<ge> 0 then Some (int m, nat e)
           else if m * 2 ^ nat (- e) < 2 ^ 1024 then Some (int (m * 2 ^ nat (- e)), 0)
           else None)"

definition decimal_value :: "bool \<Rightarrow> string \<Rightarrow> string \<Rightarrow> int \<Rightarrow> pyval option" where
  "decimal_value negative ip frac ex =
     (let d = digits_value (ip @ frac); x = ex - int (length frac)
      in map_option (\<lambda>(m, k). PFloat (if negative then - m else m) k)
           (if x \<ge> 0 then nearest_double (d * 10 ^ nat x) 1 else nearest_double d (10 ^ nat (- x))))"

text \<open>A fraction needs a digit after the point, an exponent one at its end; else they are left unread.\<close>

definition read_fraction :: "string \<Rightarrow> string \<times> string" where
  "read_fraction s =
     (case s of
        [] \<Rightarrow> ([], [])
      | c # cs \<Rightarrow>
          if c = CHR ''.'' \<and> takeWhile is_digit cs \<noteq> [] then (takeWhile is_digit cs, dropWhile is_digit cs) else ([], s))"

definition read_exponent :: "string \<Rightarrow> int option \<times> string" where
  "read_exponent s =
     (case s of
        [] \<Rightarrow> (None, [])
      | c # cs \<Rightarrow>
          let (sign, ds) = (case cs of
              [] \<Rightarrow> (1, [])
            | d # ds \<Rightarrow> if d = CHR ''+'' then (1, ds) else if d = CHR ''-'' then (- 1, ds) else (1, cs))
          in if (c = CHR ''e'' \<or> c = CHR ''E'') \<and> takeWhile is_digit ds \<noteq> []
             then (Some (sign * int (digits_value (takeWhile is_digit ds))), dropWhile is_digit ds)
             else (None, s))"

definition number_value :: "bool \<Rightarrow> string \<Rightarrow> string \<Rightarrow> int option \<Rightarrow> string \<Rightarrow> pyval reading" where
  "number_value negative ip frac ex r =
     (if frac = [] \<and> ex = None
      then Inr (PInt (if negative then - int (digits_value ip) else int (digits_value ip)), r)
      else
        (case decimal_value negative ip frac (case ex of None \<Rightarrow> 0 | Some x \<Rightarrow> x) of
           None \<Rightarrow> Inl Beyond
         | Some v \<Rightarrow> Inr (v, r)))"

definition read_number :: "string \<Rightarrow> pyval reading" where
  "read_number s =
     (let negative = (s \<noteq> [] \<and> hd s = CHR ''-''); t = (if negative then tl s else s)
      in case t of
           [] \<Rightarrow> Inl (Stop ''Expecting value'' s)
         | c # cs \<Rightarrow>
             if \<not> is_digit c then Inl (Stop ''Expecting value'' s)
             else
               let ip = (if c = CHR ''0'' then [c] else takeWhile is_digit t);
                   (frac, r) = read_fraction (drop (length ip) t);
                   (ex, r') = read_exponent r
               in number_value negative ip frac ex r')"

subsection \<open>Values\<close>

definition literals :: "(string \<times> pyval option) list" where
  "literals = [(''null'', Some PNone), (''true'', Some (PBool True)), (''false'', Some (PBool False)),
     (''NaN'', None), (''Infinity'', None), (''-Infinity'', None)]"

definition read_scalar :: "string \<Rightarrow> pyval reading" where
  "read_scalar s =
     (if s \<noteq> [] \<and> hd s = CHR 0x22 then then_read (read_string s) (\<lambda>t r. Inr (PStr t, r))
      else
        (case find (\<lambda>(w, v). prefix w s) literals of
           Some (w, Some v) \<Rightarrow> Inr (v, drop (length w) s)
         | Some (w, None) \<Rightarrow> Inl Beyond
         | None \<Rightarrow> read_number s))"

text \<open>
  The elements of a list after \<open>[\<close>, and the members of a dict after \<open>{\<close>; a key that comes again
  replaces the value. The fuel counts the calls.
\<close>

fun read_value :: "nat \<Rightarrow> string \<Rightarrow> pyval reading"
  and read_elements :: "nat \<Rightarrow> pyval list \<Rightarrow> string \<Rightarrow> pyval reading"
  and read_members :: "nat \<Rightarrow> (string \<times> pyval) list \<Rightarrow> string \<Rightarrow> pyval reading" where
  "read_value 0 s = Inl NoFuel"
| "read_value (Suc n) s =
     (if s \<noteq> [] \<and> hd s = CHR ''['' then
        (let r = skip_space (tl s)
         in if r \<noteq> [] \<and> hd r = CHR '']'' then Inr (PList [], tl r) else read_elements n [] r)
      else if s \<noteq> [] \<and> hd s = CHR ''{'' then
        (let r = skip_space (tl s)
         in if r \<noteq> [] \<and> hd r = CHR ''}'' then Inr (PDict [], tl r) else read_members n [] r)
      else read_scalar s)"
| "read_elements 0 acc s = Inl NoFuel"
| "read_elements (Suc n) acc s =
     then_read (read_value n s) (\<lambda>v r0.
     let r = skip_space r0
     in if r \<noteq> [] \<and> hd r = CHR '']'' then Inr (PList (acc @ [v]), tl r)
        else if r \<noteq> [] \<and> hd r = CHR '','' then read_elements n (acc @ [v]) (skip_space (tl r))
        else Inl (Stop (''Expecting '' @ quoted '','' @ '' delimiter'') r))"
| "read_members 0 acc s = Inl NoFuel"
| "read_members (Suc n) acc s =
     (if s = [] \<or> hd s \<noteq> CHR 0x22 then Inl (Stop ''Expecting property name enclosed in double quotes'' s)
      else
        then_read (read_string s) (\<lambda>k r0.
        let r1 = skip_space r0
        in if r1 = [] \<or> hd r1 \<noteq> CHR '':'' then Inl (Stop (''Expecting '' @ quoted '':'' @ '' delimiter'') r1)
           else
             then_read (read_value n (skip_space (tl r1))) (\<lambda>v r2.
             let r = skip_space r2; acc' = AList.update k v acc
             in if r \<noteq> [] \<and> hd r = CHR ''}'' then Inr (PDict acc', tl r)
                else if r \<noteq> [] \<and> hd r = CHR '','' then read_members n acc' (skip_space (tl r))
                else Inl (Stop (''Expecting '' @ quoted '','' @ '' delimiter'') r))))"

text \<open>The message of a \<open>JSONDecodeError\<close>: the position of the rest in the document.\<close>

definition json_error :: "string \<Rightarrow> string \<Rightarrow> string \<Rightarrow> exn" where
  "json_error msg doc rest =
     (let seen = take (length doc - length rest) doc;
          line = length (filter (\<lambda>c. c = CHR 0x0A) seen) + 1;
          col = length (takeWhile (\<lambda>c. c \<noteq> CHR 0x0A) (rev seen)) + 1
      in Exn (LibraryError ''JSONDecodeError'') (Some (PStr
           (msg @ '': line '' @ nat_str line @ '' column '' @ nat_str col @ '' (char '' @ nat_str (length seen) @ '')''))))"

definition reading_fuel :: "string \<Rightarrow> nat" where
  "reading_fuel s = 2 * length s + 1"

definition json_loads :: "string \<Rightarrow> pyval res" where
  "json_loads doc =
     (let s = skip_space doc
      in case read_value (reading_fuel s) s of
           Inl (Stop msg rest) \<Rightarrow> Inl (json_error msg doc rest)
         | Inl _ \<Rightarrow> Inl (Exn (LibraryError ''Beyond'') None)
         | Inr (v, r) \<Rightarrow>
             let rest = skip_space r
             in if rest = [] then Inr v else Inl (json_error ''Extra data'' doc rest))"

section \<open>The fuel is enough\<close>

text \<open>Reading a value takes at least one character off the text, so the nesting and the length bound the calls.\<close>

lemma skip_space_length: "length (skip_space s) \<le> length s"
  by (simp add: skip_space_def length_dropWhile_le)

lemma skip_space_tl: "s \<noteq> [] \<Longrightarrow> length (skip_space (tl s)) < length s"
  using skip_space_length [of "tl s"] by (cases s) auto

lemma tl_skip_space: "length (tl (skip_space s)) \<le> length s"
  using skip_space_length [of s] by simp

lemma read_unicode_rest: "read_unicode s = Inr (x, r) \<Longrightarrow> length r < length s"
  by (auto simp: read_unicode_def Let_def split: list.splits option.splits if_splits)

lemma read_unicode_fuel: "read_unicode s \<noteq> Inl NoFuel"
  by (auto simp: read_unicode_def Let_def split: list.splits option.splits if_splits)

lemma then_read_Inr_iff: "then_read m f = Inr y \<longleftrightarrow> (\<exists>x r. m = Inr (x, r) \<and> f x r = Inr y)"
  by (auto simp: then_read_def split: sum.splits)

lemma then_read_Inl_iff: "then_read m f = Inl e \<longleftrightarrow> m = Inl e \<or> (\<exists>x r. m = Inr (x, r) \<and> f x r = Inl e)"
  by (auto simp: then_read_def split: sum.splits)

lemmas then_read_iffs = then_read_Inr_iff then_read_Inl_iff

lemma read_chars_rest: "read_chars n b acc s = Inr (x, r) \<Longrightarrow> length r < length s"
proof (induction n b acc s rule: read_chars.induct)
  case (2 n b acc s)
  then show ?case
    by (fastforce simp: then_read_iffs dest!: read_unicode_rest split: list.splits option.splits if_splits)
qed simp

lemma read_chars_fuel: "length s < n \<Longrightarrow> read_chars n b acc s \<noteq> Inl NoFuel"
proof (induction n b acc s rule: read_chars.induct)
  case (2 n b acc s)
  then show ?case
    by (fastforce simp: then_read_iffs read_unicode_fuel dest!: read_unicode_rest split: list.splits option.splits if_splits)
qed simp

lemma read_string_rest: "s \<noteq> [] \<Longrightarrow> read_string s = Inr (x, r) \<Longrightarrow> length r < length s"
  by (cases s) (auto simp: read_string_def simp del: read_chars.simps dest!: read_chars_rest)

lemma read_string_fuel: "s \<noteq> [] \<Longrightarrow> read_string s \<noteq> Inl NoFuel"
  by (cases s) (auto simp: read_string_def read_chars_fuel simp del: read_chars.simps)

lemma read_fraction_rest: "read_fraction s = (f, r) \<Longrightarrow> length r \<le> length s"
  by (auto simp: read_fraction_def split: list.splits if_splits intro: le_SucI length_dropWhile_le)

lemma read_exponent_rest: "read_exponent s = (x, r) \<Longrightarrow> length r \<le> length s"
  by (auto simp: read_exponent_def Let_def split: list.splits if_splits intro: le_SucI length_dropWhile_le)

lemma number_value_rest: "number_value g ip f x r = Inr (v, r') \<Longrightarrow> r' = r"
  by (simp add: number_value_def split: if_splits option.splits)

lemma number_value_fuel: "number_value g ip f x r \<noteq> Inl NoFuel"
  by (simp add: number_value_def split: option.split)

lemma read_number_rest:
  assumes "read_number s = Inr (v, r)"
  shows "length r < length s"
proof -
  obtain t where t: "t = (if s \<noteq> [] \<and> hd s = CHR ''-'' then tl s else s)" by blast
  obtain c cs where cs: "t = c # cs" and digit: "is_digit c"
    using assms by (auto simp: read_number_def Let_def t [symmetric] split: list.splits if_splits)
  obtain ip where ip: "ip = (if c = CHR ''0'' then [c] else takeWhile is_digit t)" by blast
  obtain frac r1 where frac: "read_fraction (drop (length ip) t) = (frac, r1)" by fastforce
  obtain ex r2 where ex: "read_exponent r1 = (ex, r2)" by fastforce
  have "length r = length r2" using assms frac ex digit
    by (auto simp: read_number_def Let_def cs ip t [symmetric] dest!: number_value_rest split: if_splits)
  moreover have "length r2 \<le> length t - length ip"
    using read_fraction_rest [OF frac] read_exponent_rest [OF ex] by simp
  moreover have "0 < length ip" using ip cs digit by simp
  moreover have "0 < length t" using cs by simp
  moreover have "length t \<le> length s" using t by simp
  ultimately show ?thesis by linarith
qed

lemma read_number_fuel: "read_number s \<noteq> Inl NoFuel"
  by (simp add: read_number_def Let_def number_value_fuel split: list.split prod.split)

lemma read_literal_rest:
  assumes "find (\<lambda>(w, v). prefix w s) literals = Some (w, v)"
  shows "length (drop (length w) s) < length s"
proof -
  have "(w, v) \<in> set literals" and "prefix w s" using assms by (auto simp: find_Some_iff, metis nth_mem)
  then show ?thesis by (auto simp: literals_def dest!: prefix_length_le)
qed

lemma read_scalar_rest: "read_scalar s = Inr (v, r) \<Longrightarrow> length r < length s"
  by (auto simp: read_scalar_def then_read_iffs
      dest: read_string_rest read_number_rest read_literal_rest split: if_splits option.splits)

lemma read_scalar_fuel: "read_scalar s \<noteq> Inl NoFuel"
  by (auto simp: read_scalar_def then_read_iffs read_string_fuel read_number_fuel split: option.splits)

lemma read_rest:
  "read_value n s = Inr (v, r) \<Longrightarrow> length r < length s"
  "read_elements n xs s = Inr (v, r) \<Longrightarrow> length r < length s"
  "read_members n d s = Inr (v, r) \<Longrightarrow> length r < length s"
proof (induction n s and n xs s and n d s arbitrary: v r and v r and v r
    rule: read_value_read_elements_read_members.induct)
  case (2 n s)
  then show ?case
    using skip_space_tl [of s] by (fastforce simp: Let_def dest: read_scalar_rest split: if_splits)
next
  case (4 n xs s)
  obtain x r0 where x: "read_value n s = Inr (x, r0)"
    using 4(3) by (auto simp: then_read_iffs)
  have r0: "length r0 < length s" using 4(1) x by blast
  show ?case
  proof (cases "skip_space r0 \<noteq> [] \<and> hd (skip_space r0) = CHR '']''")
    case True
    then show ?thesis using 4(3) x r0 tl_skip_space [of r0] by (auto simp: Let_def)
  next
    case False
    then have comma: "skip_space r0 \<noteq> [] \<and> hd (skip_space r0) = CHR '',''"
      and "read_elements n (xs @ [x]) (skip_space (tl (skip_space r0))) = Inr (v, r)"
      using 4(3) x by (auto simp: Let_def split: if_splits)
    then have "length r < length (skip_space (tl (skip_space r0)))" using 4(2) False by blast
    then show ?thesis
      using r0 skip_space_length [of r0] skip_space_tl [of "skip_space r0"] comma by simp
  qed
next
  case (6 n d s)
  obtain k r0 where k: "read_string s = Inr (k, r0)" and s: "s \<noteq> []" "hd s = CHR 0x22"
    using 6(3) by (auto simp: then_read_iffs split: if_splits)
  obtain r1 where r1: "r1 = skip_space r0" by blast
  obtain x r2 where x: "read_value n (skip_space (tl r1)) = Inr (x, r2)"
    and colon: "r1 \<noteq> []" "hd r1 = CHR '':''"
    using 6(3) k s by (auto simp: then_read_iffs Let_def r1 split: if_splits)
  have "length r2 < length (skip_space (tl r1))" using 6(1) x s k r1 colon by blast
  then have r2: "length r2 < length s"
    using skip_space_tl [OF colon(1)] skip_space_length [of r0] read_string_rest [OF s(1) k] r1 by simp
  show ?case
  proof (cases "skip_space r2 \<noteq> [] \<and> hd (skip_space r2) = CHR ''}''")
    case True
    then show ?thesis using 6(3) k s x colon r2 tl_skip_space [of r2] by (auto simp: Let_def r1)
  next
    case False
    then have comma: "skip_space r2 \<noteq> [] \<and> hd (skip_space r2) = CHR '',''"
      and "read_members n (AList.update k x d) (skip_space (tl (skip_space r2))) = Inr (v, r)"
      using 6(3) k s x colon by (auto simp: Let_def r1 split: if_splits)
    then have "length r < length (skip_space (tl (skip_space r2)))"
      using 6(2) False s k r1 colon x by blast
    then show ?thesis
      using r2 skip_space_length [of r2] skip_space_tl [of "skip_space r2"] comma by simp
  qed
qed simp_all

lemma read_fuel:
  "2 * length s + 1 \<le> n \<Longrightarrow> read_value n s \<noteq> Inl NoFuel"
  "2 * length s + 2 \<le> n \<Longrightarrow> read_elements n xs s \<noteq> Inl NoFuel"
  "2 * length s + 2 \<le> n \<Longrightarrow> read_members n d s \<noteq> Inl NoFuel"
proof (induction n s and n xs s and n d s rule: read_value_read_elements_read_members.induct)
  case (2 n s)
  have "2 * length (skip_space (tl s)) + 2 \<le> n" if "s \<noteq> []"
    using skip_space_tl [OF that] 2(3) by simp
  then show ?case
    using 2(1,2) by (auto simp: Let_def read_scalar_fuel)
next
  case (4 n xs s)
  have more: "2 * length (skip_space (tl (skip_space r0))) + 2 \<le> n"
    if "read_value n s = Inr (x, r0)" "skip_space r0 \<noteq> []" for x r0
    using read_rest(1) [OF that(1)] skip_space_length [of r0] skip_space_tl [OF that(2)] 4(3) by simp
  have "read_value n s \<noteq> Inl NoFuel" using 4 by simp
  moreover have "read_elements n (xs @ [x]) (skip_space (tl (skip_space r0))) \<noteq> Inl NoFuel"
    if "read_value n s = Inr (x, r0)" "skip_space r0 \<noteq> []" "hd (skip_space r0) = CHR '',''" for x r0
    using 4(2) [OF refl] that more [OF that(1,2)] by simp
  ultimately show ?case by (auto simp: Let_def then_read_iffs)
next
  case (6 n d s)
  have fuel: "read_value n (skip_space (tl (skip_space r0))) \<noteq> Inl NoFuel"
    if "read_string s = Inr (k, r0)" "s \<noteq> []" "hd s = CHR 0x22" "skip_space r0 \<noteq> []" "hd (skip_space r0) = CHR '':''"
    for k r0
    using read_string_rest [OF that(2,1)] skip_space_length [of r0] skip_space_tl [OF that(4)] 6(3) that
      6(1) [OF _ refl] by simp
  have "read_members n (AList.update k x d) (skip_space (tl (skip_space r2))) \<noteq> Inl NoFuel"
    if k: "read_string s = Inr (k, r0)" "s \<noteq> []" "hd s = CHR 0x22" "skip_space r0 \<noteq> []" "hd (skip_space r0) = CHR '':''"
      and x: "read_value n (skip_space (tl (skip_space r0))) = Inr (x, r2)" "skip_space r2 \<noteq> []" "hd (skip_space r2) = CHR '',''"
    for k r0 x r2
  proof -
    have "2 * length (skip_space (tl (skip_space r2))) + 2 \<le> n"
      using read_rest(1) [OF x(1)] skip_space_length [of r2] skip_space_tl [OF x(2)]
        read_string_rest [OF k(2,1)] skip_space_length [of r0] skip_space_tl [OF k(4)] 6(3) by simp
    then show ?thesis using 6(2) [OF _ refl _ refl refl] k x by simp
  qed
  with fuel show ?case by (auto simp: Let_def then_read_iffs read_string_fuel)
qed simp_all

lemma reading_fuel_enough: "read_value (reading_fuel s) s \<noteq> Inl NoFuel"
  by (rule read_fuel(1)) (simp add: reading_fuel_def)

section \<open>Round trip\<close>

text \<open>The values that \<open>dumps\<close> writes and \<open>loads\<close> reads back: no datetime, no float, and the keys of a dict distinct.\<close>

fun plain :: "pyval \<Rightarrow> bool" where
  "plain (PFloat m k) = False"
| "plain (PDate a t) = False"
| "plain (PList xs) = list_all plain xs"
| "plain (PDict d) = (distinct (map fst d) \<and> list_all (\<lambda>(k, v). plain v) d)"
| "plain v = True"

lemma plain_json_able: "plain v \<Longrightarrow> json_able v"
  by (induction v rule: plain.induct) (auto simp: list_all_iff)

subsection \<open>Strings\<close>

lemma hex_value_digit: "n < 16 \<Longrightarrow> hex_value (hex_digit n) = Some n"
  by (simp add: hex_value_def hex_digit_def)

lemma read_unicode_code:
  assumes "n < 256" and "t \<noteq> []"
  shows "read_unicode (CHR ''0'' # CHR ''0'' # hex_digit (n div 16) # hex_digit (n mod 16) # t) = Inr (char_of n, t)"
proof -
  have zero: "hex_value (CHR ''0'') = Some 0" by (simp add: hex_value_def)
  have "n div 16 < 16" using assms(1) by simp
  then have "hex_value (hex_digit (n div 16)) = Some (n div 16)" by (rule hex_value_digit)
  moreover have "hex_value (hex_digit (n mod 16)) = Some (n mod 16)" by (rule hex_value_digit) simp
  moreover obtain e r where "t = e # r" using assms(2) by (cases t) auto
  ultimately show ?thesis using assms(1) zero by (simp add: read_unicode_def Let_def)
qed

lemma read_json_char:
  "t \<noteq> [] \<Longrightarrow> read_chars (Suc n) b acc (json_char c @ t) = read_chars n b (acc @ [c]) t"
  by (auto simp: json_char_def Let_def unescape_def read_unicode_code)

lemma read_json_chars:
  "read_chars n b acc (concat (map json_char s) @ CHR 0x22 # r) \<in> {Inl NoFuel, Inr (acc @ s, r)}"
proof (induction s arbitrary: n acc)
  case Nil
  show ?case by (cases n) simp_all
next
  case (Cons c s)
  from Cons [of "n - 1" "acc @ [c]"] show ?case
    by (cases n) (simp_all add: read_json_char del: read_chars.simps(2))
qed

lemma read_json_string: "read_string (json_string s @ r) = Inr (s, r)"
  using read_string_fuel [of "json_string s @ r"]
    read_json_chars [of "length (json_string s @ r)" "json_string s @ r" "[]" s r]
  by (simp add: read_string_def json_string_def)

subsection \<open>Numbers\<close>

lemma digit_char: "n < 10 \<Longrightarrow> is_digit (char_of (48 + n)) \<and> digit_value (char_of (48 + n)) = n \<and> (char_of (48 + n) = CHR ''0'' \<longleftrightarrow> n = 0)"
  by (auto simp: is_digit_def digit_value_def char_of_eq_iff take_bit_eq_mod)

lemma nat_str_small: "n < 10 \<Longrightarrow> nat_str n = [char_of (48 + n)]"
  by (subst nat_str.simps) simp

lemma nat_str_snoc: "\<not> n < 10 \<Longrightarrow> nat_str n = nat_str (n div 10) @ [char_of (48 + n mod 10)]"
  by (subst nat_str.simps) simp

lemma nat_str_Nil: "nat_str n \<noteq> []"
  by (cases "n < 10") (simp_all add: nat_str_small nat_str_snoc)

lemma nat_str_digits: "list_all is_digit (nat_str n)"
proof (induction n rule: nat_str.induct)
  case (1 n)
  then show ?case by (cases "n < 10") (simp_all add: nat_str_small nat_str_snoc digit_char)
qed

lemma digits_value_snoc: "digits_value (ds @ [d]) = 10 * digits_value ds + digit_value d"
  by (simp add: digits_value_def)

lemma digits_value_nat_str: "digits_value (nat_str n) = n"
proof (induction n rule: nat_str.induct)
  case (1 n)
  have "digits_value [c] = digit_value c" for c by (simp add: digits_value_def)
  with 1 show ?case
    by (cases "n < 10") (simp_all add: nat_str_small nat_str_snoc digits_value_snoc digit_char)
qed

lemma nat_str_zero: "hd (nat_str n) = CHR ''0'' \<longleftrightarrow> n = 0"
proof (induction n rule: nat_str.induct)
  case (1 n)
  show ?case
  proof (cases "n < 10")
    case True
    then show ?thesis by (simp add: nat_str_small digit_char)
  next
    case False
    then have "n div 10 \<noteq> 0" "n \<noteq> 0" by auto
    then show ?thesis using 1 False by (simp add: nat_str_snoc nat_str_Nil)
  qed
qed

text \<open>What follows a value in the text of \<open>dumps\<close>: nothing, a comma or a closing bracket.\<close>

definition closes :: "string \<Rightarrow> bool" where
  "closes r = (r = [] \<or> hd r \<in> set '',]}'')"

lemma digits_end:
  "closes r \<Longrightarrow> takeWhile is_digit (nat_str n @ r) = nat_str n"
  "closes r \<Longrightarrow> dropWhile is_digit (nat_str n @ r) = r"
proof -
  assume r: "closes r"
  have no: "takeWhile is_digit r = []" "dropWhile is_digit r = r"
    using r by (cases r; auto simp: closes_def is_digit_def)+
  have all: "\<And>c. c \<in> set (nat_str n) \<Longrightarrow> is_digit c" using nat_str_digits by (auto simp: list_all_iff)
  show "takeWhile is_digit (nat_str n @ r) = nat_str n" by (simp add: takeWhile_append2 all no)
  show "dropWhile is_digit (nat_str n @ r) = r" by (simp add: dropWhile_append2 all no)
qed

lemma read_fraction_closes: "closes r \<Longrightarrow> read_fraction r = ([], r)"
  by (cases r) (auto simp: read_fraction_def closes_def)

lemma read_exponent_closes: "closes r \<Longrightarrow> read_exponent r = (None, r)"
  by (cases r) (auto simp: read_exponent_def closes_def Let_def split: list.split)

lemma read_digits:
  assumes "closes r"
  shows "read_number (nat_str n @ r) = Inr (PInt (int n), r)"
    and "read_number (CHR ''-'' # nat_str n @ r) = Inr (PInt (- int n), r)"
proof -
  obtain c cs where c: "nat_str n = c # cs" using nat_str_Nil by (cases "nat_str n") auto
  have digit: "is_digit c" using nat_str_digits [of n] c by simp
  have "takeWhile is_digit (cs @ r) = cs" using digits_end(1) [OF assms, of n] c digit by simp
  moreover have "cs = []" if "c = CHR ''0''"
    using that nat_str_zero [of n] c nat_str_small [of 0] by simp
  moreover have "c \<noteq> CHR ''-''" using digit by (auto simp: is_digit_def)
  moreover have "digits_value (c # cs) = n" using digits_value_nat_str [of n] c by simp
  ultimately show "read_number (nat_str n @ r) = Inr (PInt (int n), r)"
    and "read_number (CHR ''-'' # nat_str n @ r) = Inr (PInt (- int n), r)"
    using digit
    by (auto simp: read_number_def Let_def c read_fraction_closes [OF assms]
        read_exponent_closes [OF assms] number_value_def)
qed

lemma read_json_int: "closes r \<Longrightarrow> read_number (int_str i @ r) = Inr (PInt i, r)"
  by (simp add: int_str_def read_digits)

text \<open>The head of a text tells the branch of the parser.\<close>

definition heads_number :: "string \<Rightarrow> bool" where
  "heads_number s = (s \<noteq> [] \<and> (is_digit (hd s) \<or> hd s = CHR ''-'' \<and> tl s \<noteq> [] \<and> is_digit (hd (tl s))))"

lemma int_str_heads: "heads_number (int_str i @ r)"
proof -
  have "nat_str n \<noteq> [] \<and> is_digit (hd (nat_str n))" for n
    using nat_str_digits [of n] nat_str_Nil [of n] by (cases "nat_str n") auto
  then show ?thesis by (simp add: heads_number_def int_str_def)
qed

lemma heads_number_literal: "heads_number s \<Longrightarrow> find (\<lambda>(w, v). prefix w s) literals = None"
proof -
  assume s: "heads_number s"
  have "\<not> prefix w s" if "(w, v) \<in> set literals" for w v
  proof -
    have "\<exists>a b ws. w = a # b # ws \<and> \<not> is_digit a \<and> \<not> is_digit b"
      using that by (auto simp: literals_def is_digit_def)
    then show ?thesis using s by (auto simp: heads_number_def prefix_def)
  qed
  then show ?thesis by (auto simp: find_None_iff)
qed

lemma read_value_int: "closes r \<Longrightarrow> read_value n (int_str i @ r) \<in> {Inl NoFuel, Inr (PInt i, r)}"
proof (cases n)
  case (Suc m)
  assume r: "closes r"
  have "hd (int_str i @ r) \<noteq> CHR ''['' \<and> hd (int_str i @ r) \<noteq> CHR ''{'' \<and> hd (int_str i @ r) \<noteq> CHR 0x22"
    using int_str_heads [of i r] by (auto simp: heads_number_def is_digit_def)
  then show ?thesis
    using Suc heads_number_literal [OF int_str_heads] read_json_int [OF r] by (simp add: read_scalar_def)
qed simp

lemma read_value_literal:
  "(w, Some v) \<in> set literals \<Longrightarrow> read_value n (w @ r) \<in> {Inl NoFuel, Inr (v, r)}"
proof (cases n)
  case (Suc m)
  assume w: "(w, Some v) \<in> set literals"
  then have "find (\<lambda>(w, v). prefix w (w' @ r)) literals = Some (w', Some v)" if "w' = w" for w'
    using that by (auto simp: literals_def)
  moreover have "w \<noteq> []" "hd w \<noteq> CHR ''[''" "hd w \<noteq> CHR ''{''" "hd w \<noteq> CHR 0x22" using w by (auto simp: literals_def)
  ultimately show ?thesis using Suc by (simp add: read_scalar_def)
qed simp

lemma read_value_string: "read_value n (json_string s @ r) \<in> {Inl NoFuel, Inr (PStr s, r)}"
proof (cases n)
  case (Suc m)
  have "hd (json_string s @ r) = CHR 0x22" "json_string s @ r \<noteq> []" by (simp_all add: json_string_def)
  then show ?thesis using Suc read_json_string [of s r] by (simp add: read_scalar_def)
qed simp

subsection \<open>Values\<close>

text \<open>The text of a value starts with no white space and no closing bracket.\<close>

definition opens :: "string \<Rightarrow> bool" where
  "opens s = (s \<noteq> [] \<and> \<not> json_space (hd s) \<and> hd s \<notin> set '']}'')"

lemma opens_append: "opens s \<Longrightarrow> opens (s @ r)"
  by (auto simp: opens_def)

lemma skip_opens: "opens s \<Longrightarrow> skip_space s = s"
  by (cases s) (auto simp: opens_def skip_space_def)

lemma skip_closes: "closes s \<Longrightarrow> skip_space s = s"
  by (cases s) (auto simp: closes_def skip_space_def json_space_def)

lemma json_string_opens: "opens (json_string s)"
  by (simp add: json_string_def opens_def json_space_def)

lemma int_str_opens: "opens (int_str i)"
  using int_str_heads [of i "[]"] by (auto simp: heads_number_def opens_def json_space_def is_digit_def)

lemma json_text_opens: "plain v \<Longrightarrow> opens (json_text v)"
proof (cases v)
  case (PBool b)
  then show ?thesis by (cases b) (simp_all add: opens_def json_space_def)
qed (simp_all add: json_string_opens int_str_opens, simp_all add: opens_def json_space_def)

lemma str_join_Cons:
  "str_join sep (s # ss) @ r = s @ (if ss = [] then r else sep @ str_join sep ss @ r)"
  by (cases ss) simp_all

lemma skip_blank: "skip_space (CHR '' '' # s) = skip_space s"
  by (simp add: skip_space_def json_space_def)

lemma update_append_new: "k \<notin> fst ` set d \<Longrightarrow> AList.update k v d = d @ [(k, v)]"
  by (induction d) auto

text \<open>Two results of a reader, of which the fuel lemma excludes the first.\<close>

definition reads :: "'a reading \<Rightarrow> 'a \<Rightarrow> string \<Rightarrow> bool" where
  "reads m x r = (m = Inl NoFuel \<or> m = Inr (x, r))"

lemma reads_then: "reads m x r \<Longrightarrow> (m = Inr (x, r) \<Longrightarrow> reads (f x r) y r') \<Longrightarrow> reads (then_read m f) y r'"
  by (auto simp: reads_def)

definition read_back :: "pyval \<Rightarrow> bool" where
  "read_back v = (\<forall>n r. closes r \<longrightarrow> reads (read_value n (json_text v @ r)) v r)"

lemma read_elements_back:
  assumes "xs \<noteq> []" and "\<forall>x \<in> set xs. plain x \<and> read_back x"
  shows "reads (read_elements n acc (str_join '', '' (map json_text xs) @ '']'' @ r)) (PList (acc @ xs)) r"
  using assms
proof (induction xs arbitrary: n acc)
  case (Cons x xs)
  show ?case
  proof (cases n)
    case (Suc m)
    let ?tail = "str_join '', '' (map json_text xs) @ '']'' @ r"
    let ?rest = "if xs = [] then '']'' @ r else '', '' @ ?tail"
    have rest: "closes ?rest" by (simp add: closes_def)
    then have x: "reads (read_value m (json_text x @ ?rest)) x ?rest"
      using Cons.prems by (simp add: read_back_def)
    have tail: "opens ?tail" if "xs \<noteq> []"
      using that Cons.prems json_text_opens by (cases xs) (auto simp: str_join_Cons opens_append)
    have "reads (read_elements m (acc @ [x]) ?tail) (PList (acc @ x # xs)) r" if "xs \<noteq> []"
      using Cons.IH [OF that, of m "acc @ [x]"] Cons.prems by simp
    then show ?thesis
      unfolding Suc read_elements.simps list.map str_join_Cons map_is_Nil_conv
      by (intro reads_then [OF x], unfold Let_def skip_closes [OF rest])
        (auto simp: reads_def skip_blank skip_opens [OF tail, simplified])
  qed (simp add: reads_def)
qed simp

lemma read_member_step:
  assumes "opens s"
  shows "read_members (Suc n) acc (json_string k @ '': '' @ s) =
    then_read (read_value n s) (\<lambda>v r2.
      let r = skip_space r2; acc' = AList.update k v acc
      in if r \<noteq> [] \<and> hd r = CHR ''}'' then Inr (PDict acc', tl r)
         else if r \<noteq> [] \<and> hd r = CHR '','' then read_members n acc' (skip_space (tl r))
         else Inl (Stop (''Expecting '' @ quoted '','' @ '' delimiter'') r))"
proof -
  have key: "json_string k @ r \<noteq> []" "hd (json_string k @ r) = CHR 0x22" for r
    by (simp_all add: json_string_def)
  have colon: "skip_space ('': '' @ s) = '': '' @ s" by (simp add: skip_space_def json_space_def)
  have "skip_space (tl ('': '' @ s)) = s" using assms by (simp add: skip_blank skip_opens)
  then show ?thesis
    unfolding read_members.simps key read_json_string then_read_simps colon Let_def by simp
qed

lemma read_members_back:
  assumes "d \<noteq> []" and "\<forall>(k, v) \<in> set d. plain v \<and> read_back v" and "distinct (map fst (acc @ d))"
  shows "reads (read_members n acc
     (str_join '', '' (map (\<lambda>(k, v). json_string k @ '': '' @ json_text v) d) @ ''}'' @ r)) (PDict (acc @ d)) r"
  using assms
proof (induction d arbitrary: n acc)
  case (Cons e d)
  obtain k v where e: "e = (k, v)" by (cases e)
  show ?case
  proof (cases n)
    case (Suc m)
    let ?tail = "str_join '', '' (map (\<lambda>(k, v). json_string k @ '': '' @ json_text v) d) @ ''}'' @ r"
    let ?rest = "if d = [] then ''}'' @ r else '', '' @ ?tail"
    have rest: "closes ?rest" by (simp add: closes_def)
    then have v: "reads (read_value m (json_text v @ ?rest)) v ?rest"
      using Cons.prems(2) by (simp add: read_back_def e)
    have tail: "opens ?tail" if "d \<noteq> []"
      using that json_string_opens by (cases d) (auto simp: str_join_Cons opens_append)
    have add: "AList.update k v acc = acc @ [(k, v)]"
      using Cons.prems(3) e by (auto intro!: update_append_new)
    have "reads (read_members m (acc @ [(k, v)]) ?tail) (PDict (acc @ e # d)) r" if "d \<noteq> []"
      using Cons.IH [OF that, of "acc @ [(k, v)]" m] Cons.prems e by simp
    moreover have value_opens: "opens (json_text v @ ?rest)"
      using Cons.prems(2) e by (intro opens_append json_text_opens) simp
    ultimately show ?thesis
      unfolding Suc e list.map str_join_Cons map_is_Nil_conv prod.case append_assoc read_member_step [OF value_opens]
      by (intro reads_then [OF v], unfold Let_def skip_closes [OF rest] add)
        (auto simp: reads_def skip_blank skip_opens [OF tail, simplified])
  qed (simp add: reads_def)
qed simp


lemma read_back_bool: "read_back (PBool b)"
  using read_value_literal [of "if b then ''true'' else ''false''" "PBool b"]
  by (auto simp: read_back_def reads_def literals_def)

lemma plain_read_back: "plain v \<Longrightarrow> read_back v"
proof (induction v rule: plain.induct)
  case (3 xs)
  have "reads (read_value n (json_text (PList xs) @ r)) (PList xs) r" if "closes r" for n r
  proof (cases "n = 0 \<or> xs = []")
    case True
    then show ?thesis by (cases n) (auto simp: reads_def skip_space_def json_space_def)
  next
    case False
    let ?tail = "str_join '', '' (map json_text xs) @ '']'' @ r"
    have "\<forall>x \<in> set xs. plain x \<and> read_back x" using 3 by (simp add: list_all_iff)
    moreover from this have "opens ?tail"
      using False json_text_opens by (cases xs) (auto simp: str_join_Cons opens_append)
    ultimately show ?thesis
      using False read_elements_back [of xs "n - 1" "[]" r]
      by (cases n) (auto simp: skip_opens [of ?tail, simplified] opens_def)
  qed
  then show ?case by (simp add: read_back_def)
next
  case (4 d)
  have "reads (read_value n (json_text (PDict d) @ r)) (PDict d) r" if "closes r" for n r
  proof (cases "n = 0 \<or> d = []")
    case True
    then show ?thesis by (cases n) (auto simp: reads_def skip_space_def json_space_def)
  next
    case False
    let ?tail = "str_join '', '' (map (\<lambda>(k, v). json_string k @ '': '' @ json_text v) d) @ ''}'' @ r"
    have "\<forall>(k, v) \<in> set d. plain v \<and> read_back v" using 4 by (fastforce simp: list_all_iff)
    moreover have "opens ?tail"
      using False json_string_opens by (cases d) (auto simp: str_join_Cons opens_append)
    ultimately show ?thesis
      using False read_members_back [of d "[]" "n - 1" r] 4(2)
      by (cases n) (auto simp: skip_opens [of ?tail, simplified] opens_def)
  qed
  then show ?case by (simp add: read_back_def)
qed (use read_value_literal [of "''null''" PNone] read_back_bool read_value_int read_value_string in
  \<open>auto simp: read_back_def reads_def literals_def\<close>)

lemma loads_text: "plain v \<Longrightarrow> json_loads (json_text v) = Inr v"
proof -
  assume plain: "plain v"
  then have "reads (read_value (reading_fuel (json_text v)) (json_text v @ [])) v []"
    using plain_read_back by (simp add: read_back_def closes_def)
  then have "read_value (reading_fuel (json_text v)) (json_text v) = Inr (v, [])"
    using reading_fuel_enough by (simp add: reads_def)
  then show ?thesis
    using skip_opens [OF json_text_opens [OF plain]] by (simp add: json_loads_def skip_space_def)
qed

text \<open>
  \<open>json.loads\<close> inverts \<open>json.dumps\<close>: a value without floats and datetimes whose dicts have
  distinct keys is written without an error, and reading the text gives the value back.
\<close>

lemma dumps_loads: "plain v \<Longrightarrow> json_dumps v = Inr (PStr (json_text v)) \<and> json_loads (json_text v) = Inr v"
  using plain_json_able loads_text by (simp add: json_dumps_def)

end
