(* ===== verification/ConsulHealth.thy ===== *)
theory ConsulHealth
  imports ConsulCert Json
begin

text \<open>
  The health check of the Consul cluster, \<open>check_consul_health/main.py\<close>: a leader and the expected
  number of peers, or an exception.
\<close>

section \<open>The handler\<close>

definition health_checks :: "env \<Rightarrow> string \<Rightarrow> pyval \<Rightarrow> ('z world_scheme, pyval) io" where
  "health_checks E consul_host expected_peers =
     io_bind (read_url E (consul_host @ ''/v1/status/leader'')) (\<lambda>leader_body.
     let leader = unquote leader_body
     in if leader = [] then io_raise (py_exception ''No leader found'')
        else
          io_bind (read_url E (consul_host @ ''/v1/status/peers'')) (\<lambda>peers_body.
          io_bind (io_res (json_loads peers_body)) (\<lambda>peers.
          io_bind (io_res (py_len peers)) (\<lambda>n.
          if \<not> py_eq (PInt n) expected_peers
          then io_raise (py_exception (int_str n @ '' peers found, expected '' @ py_str expected_peers))
          else
            io_return (PDict
              [(''statusCode'', PInt 200),
               (''body'', PStr (''Cluster healthy with leader '' @ leader @ '' and '' @ int_str n @ '' peers''))])))))"

definition health_lambda_handler ::
    "env \<Rightarrow> pyval \<Rightarrow> ('z consul_world_scheme, pyval) io" where
  "health_lambda_handler E event =
     io_bind (io_res (get_consul_host E event)) (\<lambda>consul_host.
     io_bind (io_res (py_get event ''expectedPeers'' (PInt 5))) (\<lambda>expected_peers.
     io_then (get_ssl_context E)
       (io_catch (health_checks E consul_host expected_peers)
         (\<lambda>e. io_raise (py_exception (''Cluster health check failed: '' @ exn_str e))))))"

section \<open>What it accepts\<close>

definition health_calls :: "string \<Rightarrow> call set" where
  "health_calls host = {UrlOpen (host @ ''/v1/status/leader''), UrlOpen (host @ ''/v1/status/peers'')}"

text \<open>
  The cluster as it answers from the log \<open>h\<close> on: a leader, and as many peers as expected.
\<close>

definition cluster_healthy ::
    "env \<Rightarrow> string \<Rightarrow> pyval \<Rightarrow> call list \<Rightarrow> bool" where
  "cluster_healthy E host expected_peers h =
     (\<exists>leader body peers n. reply E h (UrlOpen (host @ ''/v1/status/leader'')) = Inr (PStr leader) \<and> unquote leader \<noteq> [] \<and>
        reply E (h @ [UrlOpen (host @ ''/v1/status/leader'')]) (UrlOpen (host @ ''/v1/status/peers'')) = Inr (PStr body) \<and>
        json_loads body = Inr peers \<and> py_len peers = Inr n \<and> py_eq (PInt n) expected_peers)"

lemma read_url_wp:
  "wp (read_url E url)
    (\<lambda>body t. reply E (calls s) (UrlOpen url) = Inr (PStr body) \<and> t = s\<lparr>calls := calls s @ [UrlOpen url]\<rparr>)
    (\<lambda>_ t. (\<nexists>body. reply E (calls s) (UrlOpen url) = Inr (PStr body)) \<and> t = s\<lparr>calls := calls s @ [UrlOpen url]\<rparr>) s"
  by (auto simp: read_url_def wp_simps need_str_def split: sum.splits pyval.splits)

lemma health_checks_wp:
  "wp (health_checks E host expected_peers)
    (\<lambda>r t. cluster_healthy E host expected_peers (calls s) \<and> py_item r ''statusCode'' = Inr (PInt 200) \<and>
       extends (health_calls host) s t)
    (\<lambda>_ t. \<not> cluster_healthy E host expected_peers (calls s) \<and> extends (health_calls host) s t) s"
proof -
  let ?L = "UrlOpen (host @ ''/v1/status/leader'')" and ?P = "UrlOpen (host @ ''/v1/status/peers'')"
  have ext: "extends (health_calls host) s (s\<lparr>calls := calls s @ [?L]\<rparr>)"
    "extends (health_calls host) s (s\<lparr>calls := calls s @ [?L, ?P]\<rparr>)"
    by (simp_all add: extends_def health_calls_def)
  show ?thesis
    unfolding health_checks_def read_url_def
    by (auto simp: wp_simps Let_def need_str_def cluster_healthy_def ext py_item_PDict
        split: sum.splits pyval.splits)
qed

text \<open>
  C30. Once its context is made, the check of an event that is a dict succeeds, with status 200,
  exactly when the cluster names a leader and lists as many peers as the event expects (5 unless
  it says otherwise). Any other answer raises, and the check only reads two URLs of the cluster.
\<close>

theorem health_check_iff:
  "case get_ssl_context E s of
     (Inl e, u) \<Rightarrow> health_lambda_handler E (PDict ev) s = (Inl e, u)
   | (Inr _, u) \<Rightarrow>
       let host = consul_address E ev;
           expected = (case map_of ev ''expectedPeers'' of None \<Rightarrow> PInt 5 | Some v \<Rightarrow> v)
       in case health_lambda_handler E (PDict ev) s of
            (Inr r, t) \<Rightarrow> cluster_healthy E host expected (calls u) \<and>
              py_item r ''statusCode'' = Inr (PInt 200) \<and> extends (health_calls host) u t
          | (Inl e, t) \<Rightarrow> \<not> cluster_healthy E host expected (calls u) \<and>
              (\<exists>msg. e = py_exception (''Cluster health check failed: '' @ msg)) \<and> extends (health_calls host) u t"
proof -
  let ?host = "consul_address E ev"
  let ?expected = "case map_of ev ''expectedPeers'' of None \<Rightarrow> PInt 5 | Some v \<Rightarrow> v"
  let ?checks = "io_catch (health_checks E ?host ?expected)
      (\<lambda>e. io_raise (py_exception (''Cluster health check failed: '' @ exn_str e)))"
  have run: "health_lambda_handler E (PDict ev) s = io_then (get_ssl_context E) ?checks s"
    by (simp add: health_lambda_handler_def get_consul_host_PDict io_bind_def io_res_def)
  have checks: "wp ?checks
      (\<lambda>r t. cluster_healthy E ?host ?expected (calls u) \<and>
        py_item r ''statusCode'' = Inr (PInt 200) \<and> extends (health_calls ?host) u t)
      (\<lambda>e t. \<not> cluster_healthy E ?host ?expected (calls u) \<and>
        (\<exists>msg. e = py_exception (''Cluster health check failed: '' @ msg)) \<and> extends (health_calls ?host) u t) u" for u :: "'a consul_world_scheme"
    unfolding wp_catch
    by (rule wp_mono [OF health_checks_wp]) (auto simp only: wp_raise)
  obtain r u where ctx: "get_ssl_context E s = (r, u)" by fastforce
  show ?thesis
  proof (cases r)
    case (Inl e)
    with ctx show ?thesis by (simp add: run io_then_def io_bind_def)
  next
    case (Inr x)
    obtain r' t where "?checks u = (r', t)" by fastforce
    with checks [of u] ctx Inr show ?thesis
      by (cases r') (simp_all add: run io_then_def io_bind_def wp_def Let_def)
  qed
qed

section \<open>The certificate over the invocations\<close>

lemma health_checks_cache:
  fixes s :: "'z consul_world_scheme"
  shows "wp (health_checks E host expected_peers) (\<lambda>_ t. cert_cache t = cert_cache s) (\<lambda>_ t. cert_cache t = cert_cache s) s"
  by (auto simp: health_checks_def read_url_def wp_simps Let_def split: sum.splits)

lemma fetches_health:
  assumes "extends (health_calls host) s t"
  shows "fetches (calls t) = fetches (calls s)"
proof -
  from assms obtain cs where t: "calls t = calls s @ cs" and cs: "set cs \<subseteq> health_calls host" by (auto simp: extends_def)
  have "health_calls host \<subseteq> {c. fetches [c] = []}" by (simp add: health_calls_def)
  with cs have "fetches cs = []" by (intro fetches_none) (rule order_trans)
  with t show ?thesis by simp
qed

lemma checks_step:
  assumes "cert_step E s u"
  shows "wp (io_catch (health_checks E host n) (\<lambda>e. io_raise (f e)))
    (\<lambda>_ t. cert_step E s t \<and> cert_cache t = cert_cache u) (\<lambda>_ t. cert_step E s t) u"
  unfolding wp_catch
proof (rule wp_mono [OF wp_conj [OF health_checks_wp health_checks_cache]])
  have later: "cert_step E s w" if "extends (health_calls host) u w" "cert_cache w = cert_cache u" for w
  proof -
    from that(1) obtain cs where cs: "calls w = calls u @ cs" by (auto simp: extends_def)
    with fetches_health [OF that(1)] have "fetches cs = []" by simp
    with assms cs that(2) show ?thesis by (auto simp: cert_step_def)
  qed
  {
    fix x and w :: "'a consul_world_scheme"
    assume "(cluster_healthy E host n (calls u) \<and> py_item x ''statusCode'' = Inr (PInt 200) \<and>
        extends (health_calls host) u w) \<and> cert_cache w = cert_cache u"
    with later show "cert_step E s w \<and> cert_cache w = cert_cache u" by blast
  next
    fix e and w :: "'a consul_world_scheme"
    assume "(\<not> cluster_healthy E host n (calls u) \<and> extends (health_calls host) u w) \<and> cert_cache w = cert_cache u"
    with later show "wp (io_raise (f e)) (\<lambda>_ t. cert_step E s t \<and> cert_cache t = cert_cache u) (\<lambda>_ t. cert_step E s t) w"
      by (simp add: wp_raise)
  }
qed

lemma health_step:
  "wp (health_lambda_handler E event) (\<lambda>_ t. cert_step E s t \<and> \<not> cert_needed E t) (\<lambda>_ t. cert_step E s t) s"
proof -
  have stay: "cert_step E s s" by (auto simp: cert_step_def)
  have rest: "wp (io_then (get_ssl_context E) (io_catch (health_checks E host n) (\<lambda>e. io_raise (f e))))
      (\<lambda>_ t. cert_step E s t \<and> \<not> cert_needed E t) (\<lambda>_ t. cert_step E s t) s" for host n f
    unfolding wp_then
  proof (rule wp_mono [OF consul_tls.ctx_step])
    fix x and u :: "'a consul_world_scheme"
    assume u: "cert_step E s u \<and> \<not> cert_needed E u"
    from u have "cert_step E s u" ..
    from checks_step [OF this] show "wp (io_catch (health_checks E host n) (\<lambda>e. io_raise (f e)))
        (\<lambda>_ t. cert_step E s t \<and> \<not> cert_needed E t) (\<lambda>_ t. cert_step E s t) u"
      by (rule wp_mono) (use u in \<open>auto simp: cert_needed_def\<close>)
  qed
  show ?thesis
    unfolding health_lambda_handler_def wp_bind wp_res
    by (auto split: sum.splits intro: rest stay)
qed

text \<open>The invocations of a container, one after another, on the events \<open>evs\<close>.\<close>

fun invocations :: "env \<Rightarrow> pyval list \<Rightarrow> 'z consul_world_scheme \<Rightarrow> 'z consul_world_scheme" where
  "invocations E [] s = s"
| "invocations E (ev # evs) s = invocations E evs (snd (health_lambda_handler E ev s))"

lemma invocation_step: "cert_step E s (snd (health_lambda_handler E ev s))"
  using health_step [of E ev s] by (auto simp: wp_def split: prod.splits sum.splits)

lemma cert_step_needed: "cert_step E s t \<Longrightarrow> \<not> cert_needed E s \<Longrightarrow> \<not> cert_needed E t"
  by (auto simp: cert_step_def cert_needed_def)

lemma invocations_certs:
  "\<exists>new. calls (invocations E evs s) = calls s @ new \<and> (\<forall>p. cert_cache s = Some p \<longrightarrow> cert_cache (invocations E evs s) = Some p) \<and>
     (if cert_needed E s then length (fetches new) \<le> length evs else fetches new = [])"
proof (induction evs arbitrary: s)
  case (Cons ev evs)
  let ?u = "snd (health_lambda_handler E ev s)"
  from invocation_step [of E s ev] obtain one where one: "calls ?u = calls s @ one" "length (fetches one) \<le> 1"
    "\<not> cert_needed E s \<longrightarrow> fetches one = []" "\<forall>p. cert_cache s = Some p \<longrightarrow> cert_cache ?u = Some p"
    by (auto simp: cert_step_def)
  from Cons.IH [of ?u] obtain new where new: "calls (invocations E evs ?u) = calls ?u @ new"
    "\<forall>p. cert_cache ?u = Some p \<longrightarrow> cert_cache (invocations E evs ?u) = Some p"
    "if cert_needed E ?u then length (fetches new) \<le> length evs else fetches new = []" by blast
  from cert_step_needed [OF invocation_step, of E s ev] one new show ?case
    by (intro exI [of _ "one @ new"]) (auto split: if_splits)
qed simp

text \<open>
  C38. Over the invocations of the health check in a container, whatever their events and outcomes: each fetches the
  certificate at most once, and none fetches it after one that has left it cached; the cached path is never replaced.
  An invocation that returns needs no certificate any more. A fetch is repeated only by an invocation
  that found nothing cached.
\<close>

theorem cert_fetched_once:
  assumes "u = invocations E earlier fresh_consul" and "t = invocations E later u"
  shows "length (fetches (calls u)) \<le> length earlier \<and>
    (\<exists>new. calls t = calls u @ new \<and> (if cert_needed E u then length (fetches new) \<le> length later else fetches new = [])) \<and>
    (\<forall>p. cert_cache u = Some p \<longrightarrow> cert_cache t = Some p) \<and>
    (\<forall>ev r w. health_lambda_handler E ev u = (Inr r, w) \<longrightarrow> \<not> cert_needed E w)"
proof (intro conjI allI impI)
  show "length (fetches (calls u)) \<le> length earlier"
    using invocations_certs [of E earlier fresh_consul] assms(1) by (auto simp: fresh_consul_def split: if_splits)
  show "\<exists>new. calls t = calls u @ new \<and> (if cert_needed E u then length (fetches new) \<le> length later else fetches new = [])"
    using invocations_certs [of E later u] assms(2) by blast
  show "cert_cache t = Some p" if "cert_cache u = Some p" for p
    using invocations_certs [of E later u] assms(2) that by blast
  show "\<not> cert_needed E w" if "health_lambda_handler E ev u = (Inr r, w)" for ev r w
    using wp_Inr [OF health_step that] by simp
qed

definition sample_consul :: env where
  "sample_consul = \<lparr>reply = (\<lambda>h c. case c of
       SsmGetParameter _ \<Rightarrow> Inr (PDict [(''Parameter'', PDict [(''Value'', PStr ''PEM'')])])
     | WriteTempFile _ \<Rightarrow> Inr (PStr ''ca.pem'')
     | _ \<Rightarrow> Inr PNone),
     environ = map_of [(''environment'', ''prod''), (''CONSUL_TLS_CERT_PARAMETER_ARN'', ''arn'')]\<rparr>"

lemma cert_fetched_once_witness:
  "fetches (calls (invocations sample_consul [PDict []] fresh_consul)) = [SsmGetParameter ''arn''] \<and>
   cert_cache (invocations sample_consul [PDict [], PDict []] fresh_consul) = Some ''ca.pem'' \<and>
   fetches (calls (invocations sample_consul [PDict [], PDict []] fresh_consul)) = [SsmGetParameter ''arn'']"
proof -
  let ?u = "invocations sample_consul [PDict []] fresh_consul"
  have ctx: "get_ssl_context sample_consul fresh_consul =
      (Inr (), \<lparr>calls = [SsmGetParameter ''arn'', WriteTempFile (PStr ''PEM''), LoadVerifyLocations ''ca.pem''], cert_cache = Some ''ca.pem''\<rparr>)"
    by (simp add: get_ssl_context_def cert_path_def cached_path_def cache_path_def retrieve_cert_def io_eval truthy_def
        cert_parameter_arn_def sample_consul_def fresh_consul_def py_item_PDict)
  have u: "cert_cache ?u = Some ''ca.pem''" "fetches (calls ?u) = [SsmGetParameter ''arn'']"
    by (simp_all add: health_lambda_handler_def get_consul_host_PDict io_bind_def io_then_def io_res_def ctx)
      (simp_all add: health_checks_def read_url_def io_eval io_catch_def sample_consul_def need_str_def)
  then have "\<not> cert_needed sample_consul ?u" by (simp add: cert_needed_def)
  with cert_fetched_once [OF refl refl, of sample_consul "[PDict []]" "[PDict []]"] u show ?thesis by auto
qed

end
