(* ===== verification/Asg.thy ===== *)
theory Asg
  imports LambdaIO
begin

text \<open>
  What the Lambdas that look at Auto Scaling Groups share: reading all pages of the groups, the
  order and the differences of the times in their activities, and typed groups with the JSON
  that shows them.
\<close>

section \<open>Pages of groups\<close>

text \<open>
  The reply of \<open>DescribeAutoScalingGroups\<close> is the list of the paginator's pages;
  \<open>auto_scaling_groups += page["AutoScalingGroups"]\<close> appends each.
\<close>

definition all_groups :: "pyval \<Rightarrow> pyval list res" where
  "all_groups pages =
     res_bind (py_iter pages) (\<lambda>ps.
     res_bind (res_map (\<lambda>page. res_bind (py_item page ''AutoScalingGroups'') py_iter) ps) (\<lambda>groups.
     Inr (concat groups)))"

section \<open>Times\<close>

text \<open>\<open>a < b\<close> for the values that are sorted, and \<open>sorted\<close> as a stable insertion sort.\<close>

fun str_lt :: "string \<Rightarrow> string \<Rightarrow> bool" where
  "str_lt s [] = False"
| "str_lt [] (d # ds) = True"
| "str_lt (c # cs) (d # ds) =
     ((of_char c :: nat) < of_char d \<or> c = d \<and> str_lt cs ds)"

definition py_lt :: "pyval \<Rightarrow> pyval \<Rightarrow> bool res" where
  "py_lt a b =
     (case (a, b) of
        (PStr s, PStr t) \<Rightarrow> Inr (str_lt s t)
      | (PDate _ _, PDate _ _) \<Rightarrow> py_date_lt a b
      | _ \<Rightarrow> py_num_lt a b)"

fun py_insort :: "pyval \<Rightarrow> pyval list \<Rightarrow> pyval list res" where
  "py_insort x [] = Inr [x]"
| "py_insort x (y # ys) =
     res_bind (py_lt x y) (\<lambda>less.
     if less then Inr (x # y # ys)
     else res_bind (py_insort x ys) (\<lambda>zs. Inr (y # zs)))"

fun py_sorted_from :: "pyval list \<Rightarrow> pyval list \<Rightarrow> pyval list res" where
  "py_sorted_from acc [] = Inr acc"
| "py_sorted_from acc (x # xs) = res_bind (py_insort x acc) (\<lambda>acc'. py_sorted_from acc' xs)"

definition py_sorted :: "pyval list \<Rightarrow> pyval list res" where
  "py_sorted xs = py_sorted_from [] xs"

text \<open>\<open>a - b\<close> of two datetimes, in microseconds.\<close>

definition py_date_diff :: "pyval \<Rightarrow> pyval \<Rightarrow> int res" where
  "py_date_diff a b =
     (case (a, b) of
        (PDate x s, PDate y t) \<Rightarrow>
          if x = y then Inr (s - t)
          else Inl (type_error ''can't subtract offset-naive and offset-aware datetimes'')
      | _ \<Rightarrow> Inl (type_error (''unsupported operand type(s) for -: '' @ quoted (type_name a) @ '' and '' @ quoted (type_name b))))"

text \<open>\<open>x in obj\<close> for an \<open>x\<close> that need not be a string.\<close>

definition py_contains :: "pyval \<Rightarrow> pyval \<Rightarrow> bool res" where
  "py_contains x obj =
     (case x of
        PStr s \<Rightarrow> py_in s obj
      | _ \<Rightarrow>
        (case obj of
           PList ys \<Rightarrow> Inr (list_ex (py_eq x) ys)
         | PDict _ \<Rightarrow> if hashable x then Inr False else Inl (type_error (''unhashable type: '' @ quoted (type_name x)))
         | PStr _ \<Rightarrow> Inl (type_error (quoted ''in <string>'' @ '' requires string as left operand, not '' @ type_name x))
         | _ \<Rightarrow> Inl (type_error (''argument of type '' @ quoted (type_name obj) @ '' is not iterable''))))"

section \<open>Sorted times\<close>

text \<open>The times of one zone, in microseconds, as the library returns them.\<close>

definition utc :: "int \<Rightarrow> pyval" where
  "utc t = PDate True t"

lemma utc_lt [simp]: "py_lt (utc s) (utc t) = Inr (s < t)"
  by (simp add: utc_def py_lt_def py_date_lt_def)

lemma utc_diff [simp]: "py_date_diff (utc s) (utc t) = Inr (s - t)"
  by (simp add: utc_def py_date_diff_def)

lemma py_insort_utc: "py_insort (utc t) (map utc ts) = Inr (map utc (takeWhile (\<lambda>u. u \<le> t) ts @ t # dropWhile (\<lambda>u. u \<le> t) ts))"
  by (induction ts) auto

lemma insort_sorted:
  "sorted ts \<Longrightarrow> sorted (takeWhile (\<lambda>u. u \<le> t) ts @ t # dropWhile (\<lambda>u. u \<le> (t::int)) ts)"
proof (induction ts)
  case (Cons u ts)
  show ?case
  proof (cases "u \<le> t")
    case True
    have "set (takeWhile (\<lambda>u. u \<le> t) ts @ t # dropWhile (\<lambda>u. u \<le> t) ts) = insert t (set ts)"
      by (metis Un_insert_right list.set(2) set_append takeWhile_dropWhile_id)
    with Cons True show ?thesis by (auto simp del: set_append)
  next
    case False
    with Cons.prems show ?thesis by auto
  qed
qed simp

lemma py_sorted_from_utc:
  "sorted acc \<Longrightarrow> \<exists>ts. py_sorted_from (map utc acc) (map utc xs) = Inr (map utc ts) \<and> sorted ts \<and> set ts = set acc \<union> set xs"
proof (induction xs arbitrary: acc)
  case (Cons x xs)
  let ?acc = "takeWhile (\<lambda>u. u \<le> x) acc @ x # dropWhile (\<lambda>u. u \<le> x) acc"
  have set: "set ?acc = insert x (set acc)"
    by (metis Un_insert_right list.set(2) set_append takeWhile_dropWhile_id)
  from Cons.IH [OF insort_sorted [OF Cons.prems, of x]] set show ?case
    by (simp only: list.map py_sorted_from.simps py_insort_utc res_bind_Inr) auto
qed auto

lemma py_sorted_utc:
  "\<exists>ts. py_sorted (map utc xs) = Inr (map utc ts) \<and> sorted ts \<and> set ts = set xs"
  using py_sorted_from_utc [of "[]" xs] by (simp add: py_sorted_def)

lemma sorted_last_Max: "sorted ts \<Longrightarrow> ts \<noteq> [] \<Longrightarrow> last ts = Max (set (ts :: int list))"
  by (induction ts) (auto simp: max_def dest: order_trans split: if_splits)

end
