(* ===== verification/ConsulNodes.thy ===== *)
theory ConsulNodes
  imports ConsulCert Json Asg
begin

text \<open>
  The list of the Consul cluster's nodes, \<open>get_consul_nodes/main.py\<close>: the members of the control
  plane with the leader last, and the instance of each.
\<close>

section \<open>The certificate, once more\<close>

text \<open>
  The module has its own copy of the certificate's and the host's code, and its own cache in the
  containers of its Lambda. The copies do what the originals of \<open>ConsulCert\<close> do.
\<close>

definition nodes_retrieve_cert :: "env \<Rightarrow> ('z consul_world_scheme, unit) io" where
  "nodes_retrieve_cert E =
     (if \<not> truthy (cert_parameter_arn E) then io_return ()
      else
        io_catch
          (io_bind (request E (SsmGetParameter (the (cert_parameter_arn E)))) (\<lambda>response.
           io_bind (io_res (py_item response ''Parameter'')) (\<lambda>parameter.
           io_bind (io_res (py_item parameter ''Value'')) (\<lambda>cert_content.
           io_then (io_res (need_str cert_content (type_error (''write() argument must be str, not '' @ type_name cert_content))))
           (io_bind (request E (WriteTempFile cert_content)) (\<lambda>f.
            io_bind (io_res (need_str f (no_attribute f ''name''))) cache_path))))))
          io_raise)"

definition nodes_cert_path :: "env \<Rightarrow> ('z consul_world_scheme, string option) io" where
  "nodes_cert_path E =
     io_bind cached_path (\<lambda>p.
     io_then (if p = None \<and> truthy (cert_parameter_arn E) then nodes_retrieve_cert E else io_return ())
       cached_path)"

definition nodes_ssl_context :: "env \<Rightarrow> ('z consul_world_scheme, unit) io" where
  "nodes_ssl_context E =
     io_bind (nodes_cert_path E) (\<lambda>p.
     if truthy p
     then
       io_bind (nodes_cert_path E) (\<lambda>q.
       io_then (request E (LoadVerifyLocations (the q))) (io_return ()))
     else io_return ())"

definition nodes_consul_host :: "env \<Rightarrow> pyval \<Rightarrow> string res" where
  "nodes_consul_host E event =
     (let environment = os_getenv E ''environment''
      in res_bind (py_get event ''cluster'' environment) (\<lambda>cluster.
         Inr (''https://consul-'' @ py_str cluster @ ''.'' @ py_str environment @ ''.mdtp:8501'')))"

lemma bind_res_bind: "io_bind (io_res (res_bind m f)) g = io_bind (io_res m) (\<lambda>x. io_bind (io_res (f x)) g)"
  by (cases m) (simp_all add: io_bind_def io_res_def fun_eq_iff)

lemma nodes_retrieve_copy: "nodes_retrieve_cert E = retrieve_cert E"
  by (simp add: nodes_retrieve_cert_def retrieve_cert_def bind_res_bind)

lemma nodes_cert_path_copy: "nodes_cert_path E = cert_path E"
  unfolding nodes_cert_path_def cert_path_def nodes_retrieve_copy by (rule refl)

lemma nodes_copies:
  "nodes_ssl_context E = get_ssl_context E" "nodes_consul_host E = get_consul_host E"
  unfolding nodes_ssl_context_def get_ssl_context_def nodes_cert_path_copy nodes_consul_host_def get_consul_host_def by (rule refl)+

section \<open>The handler\<close>

text \<open>\<open>sorted(members, key=lambda m: m["Addr"] == leader)\<close>: a stable sort by a bool.\<close>

definition leader_last :: "string \<Rightarrow> pyval list \<Rightarrow> pyval list res" where
  "leader_last leader members =
     res_bind (res_map (\<lambda>m. res_bind (py_item m ''Addr'') (\<lambda>a. Inr (py_eq a (PStr leader), m))) members) (\<lambda>keyed.
     Inr (map snd (filter (Not \<circ> fst) keyed) @ map snd (filter fst keyed)))"

text \<open>\<open>instance_map\<close>: a dict whose keys are addresses, as an association list up to \<open>==\<close>.\<close>

fun map_get :: "pyval \<Rightarrow> (pyval \<times> pyval) list \<Rightarrow> pyval option" where
  "map_get k [] = None"
| "map_get k ((x, v) # rest) = (if py_eq x k then Some v else map_get k rest)"

fun map_put :: "pyval \<Rightarrow> pyval \<Rightarrow> (pyval \<times> pyval) list \<Rightarrow> (pyval \<times> pyval) list" where
  "map_put k v [] = [(k, v)]"
| "map_put k v ((x, w) # rest) = (if py_eq x k then (x, v) # rest else (x, w) # map_put k v rest)"

definition need_hashable :: "pyval \<Rightarrow> unit res" where
  "need_hashable v = (if hashable v then Inr () else Inl (type_error (''unhashable type: '' @ quoted (type_name v))))"

fun map_interfaces :: "pyval list \<Rightarrow> pyval \<Rightarrow> pyval list \<Rightarrow> (pyval \<times> pyval) list \<Rightarrow> (pyval \<times> pyval) list res" where
  "map_interfaces ip_list inst [] instance_map = Inr instance_map"
| "map_interfaces ip_list inst (iface # rest) instance_map =
     res_bind (py_get iface ''PrivateIpAddress'' PNone) (\<lambda>ip.
     res_bind
       (if list_ex (py_eq ip) ip_list
        then res_bind (py_item inst ''InstanceId'') (\<lambda>iid.
          res_bind (need_hashable ip) (\<lambda>_. Inr (map_put ip iid instance_map)))
        else Inr instance_map)
       (map_interfaces ip_list inst rest))"

fun map_instances :: "pyval list \<Rightarrow> pyval list \<Rightarrow> (pyval \<times> pyval) list \<Rightarrow> (pyval \<times> pyval) list res" where
  "map_instances ip_list [] instance_map = Inr instance_map"
| "map_instances ip_list (inst # rest) instance_map =
     res_bind (py_get inst ''NetworkInterfaces'' (PList [])) (\<lambda>v.
     res_bind (py_iter v) (\<lambda>ifaces.
     res_bind (map_interfaces ip_list inst ifaces instance_map) (map_instances ip_list rest)))"

fun map_reservations :: "pyval list \<Rightarrow> pyval list \<Rightarrow> (pyval \<times> pyval) list \<Rightarrow> (pyval \<times> pyval) list res" where
  "map_reservations ip_list [] instance_map = Inr instance_map"
| "map_reservations ip_list (reservation # rest) instance_map =
     res_bind (py_item reservation ''Instances'') (\<lambda>v.
     res_bind (py_iter v) (\<lambda>instances.
     res_bind (map_instances ip_list instances instance_map) (map_reservations ip_list rest)))"

definition instance_list :: "pyval list \<Rightarrow> (pyval \<times> pyval) list \<Rightarrow> pyval list res" where
  "instance_list ip_list instance_map =
     res_comp (\<lambda>ip. res_bind (need_hashable ip) (\<lambda>_. Inr (map_get ip instance_map \<noteq> None)))
       (\<lambda>ip. Inr (PDict [(''ip'', ip), (''instanceId'', the (map_get ip instance_map))])) ip_list"

definition find_nodes :: "env \<Rightarrow> string \<Rightarrow> ('z world_scheme, pyval) io" where
  "find_nodes E consul_host =
     io_bind (read_url E (consul_host @ ''/v1/status/leader'')) (\<lambda>leader_body.
     let leader = split_head '':'' (unquote leader_body)
     in
       io_bind (read_url E (consul_host @ ''/v1/agent/members'')) (\<lambda>members_body.
       io_bind (io_res (json_loads members_body)) (\<lambda>v.
       io_bind (io_res (py_iter v)) (\<lambda>members.
       io_bind (io_res (leader_last leader members)) (\<lambda>sorted_members.
       io_bind (io_res (res_map (\<lambda>m. py_item m ''Addr'') sorted_members)) (\<lambda>ip_list.
       io_bind
         (if ip_list \<noteq> []
          then
            io_bind (request E (DescribeInstancesByIp ip_list)) (\<lambda>response.
            io_res (res_bind (py_item response ''Reservations'') (\<lambda>rs.
              res_bind (py_iter rs) (\<lambda>reservations. map_reservations ip_list reservations []))))
          else io_return []) (\<lambda>instance_map.
       io_bind (io_res (instance_list ip_list instance_map)) (\<lambda>nodes.
       io_return (PDict [(''instanceList'', PList nodes)]))))))))) "

definition nodes_lambda_handler ::
    "env \<Rightarrow> pyval \<Rightarrow> ('z consul_world_scheme, pyval) io" where
  "nodes_lambda_handler E event =
     io_bind (io_res (nodes_consul_host E event)) (\<lambda>consul_host.
     io_then (nodes_ssl_context E)
       (io_catch (find_nodes E consul_host)
         (\<lambda>e. io_raise (py_exception (''Get Consul Nodes Failed: '' @ exn_str e)))))"

section \<open>The list it returns\<close>

text \<open>
  A member of the cluster at an address, an interface with one, and an EC2 instance with its id
  and the addresses of its interfaces; each a dict that may have more entries.
\<close>

definition member_at :: "pyval \<Rightarrow> string \<Rightarrow> bool" where
  "member_at m a = (py_item m ''Addr'' = Inr (PStr a))"

definition iface_at :: "pyval \<Rightarrow> string \<Rightarrow> bool" where
  "iface_at i a = (py_get i ''PrivateIpAddress'' PNone = Inr (PStr a))"

definition host_at :: "pyval \<Rightarrow> string \<times> string list \<Rightarrow> bool" where
  "host_at v h =
     (py_item v ''InstanceId'' = Inr (PStr (fst h)) \<and>
      (\<exists>ifs. py_get v ''NetworkInterfaces'' (PList []) = Inr (PList ifs) \<and> list_all2 iface_at ifs (snd h)))"

definition reservation_at :: "pyval \<Rightarrow> (string \<times> string list) list \<Rightarrow> bool" where
  "reservation_at v hs = (\<exists>vs. py_item v ''Instances'' = Inr (PList vs) \<and> list_all2 host_at vs hs)"

text \<open>The last instance with an address, in the order of the response.\<close>

fun host_of :: "(string \<times> string list) list \<Rightarrow> string \<Rightarrow> string option" where
  "host_of [] a = None"
| "host_of (h # hs) a =
     (case host_of hs a of Some i \<Rightarrow> Some i | None \<Rightarrow> if a \<in> set (snd h) then Some (fst h) else None)"

definition node_json :: "string \<times> string \<Rightarrow> pyval" where
  "node_json n = PDict [(''ip'', PStr (fst n)), (''instanceId'', PStr (snd n))]"

lemma list_all2_filters:
  "list_all2 R xs ys \<Longrightarrow> (\<And>x y. R x y \<Longrightarrow> p x = q y) \<Longrightarrow> list_all2 R (filter p xs) (filter q ys)"
  by (induction rule: list_all2_induct) auto

lemma leader_last_at:
  assumes "list_all2 member_at ms as"
  shows "\<exists>ms'. leader_last leader ms = Inr ms' \<and>
    list_all2 member_at ms' (filter (\<lambda>a. a \<noteq> leader) as @ filter (\<lambda>a. a = leader) as)"
proof -
  let ?p = "\<lambda>m. py_item m ''Addr'' = Inr (PStr leader)"
  have "res_map (\<lambda>m. res_bind (py_item m ''Addr'') (\<lambda>a. Inr (py_eq a (PStr leader), m))) ms = Inr (map (\<lambda>m. (?p m, m)) ms)"
    using assms by (induction rule: list_all2_induct) (auto simp: member_at_def)
  then have "leader_last leader ms = Inr (filter (\<lambda>m. \<not> ?p m) ms @ filter ?p ms)"
    by (simp add: leader_last_def filter_map o_def)
  moreover have "list_all2 member_at (filter (\<lambda>m. \<not> ?p m) ms @ filter ?p ms)
      (filter (\<lambda>a. a \<noteq> leader) as @ filter (\<lambda>a. a = leader) as)"
    by (intro list_all2_appendI list_all2_filters [OF assms]) (auto simp: member_at_def)
  ultimately show ?thesis by blast
qed

definition lookup :: "(pyval \<times> pyval) list \<Rightarrow> string \<Rightarrow> pyval option" where
  "lookup m a = map_get (PStr a) m"

lemma map_get_put: "map_get (PStr a) (map_put (PStr b) v m) = (if a = b then Some v else map_get (PStr a) m)"
  by (induction m) auto

lemma map_interfaces_at:
  assumes "list_all2 iface_at ifs as" and v: "py_item v ''InstanceId'' = Inr (PStr iid)"
  shows "\<exists>m'. map_interfaces (map PStr ips) v ifs m = Inr m' \<and>
     (\<forall>a. lookup m' a = (if a \<in> set as \<and> a \<in> set ips then Some (PStr iid) else lookup m a))"
  using assms(1)
proof (induction arbitrary: m rule: list_all2_induct)
  case (Cons i ifs b as)
  have in_list: "list_ex (py_eq (PStr b)) (map PStr ips) = (b \<in> set ips)" by (induction ips) auto
  let ?m = "if b \<in> set ips then map_put (PStr b) (PStr iid) m else m"
  from Cons.IH [of ?m] obtain m' where
    "map_interfaces (map PStr ips) v ifs ?m = Inr m'"
    "\<forall>a. lookup m' a = (if a \<in> set as \<and> a \<in> set ips then Some (PStr iid) else lookup ?m a)" by blast
  then show ?case
    using Cons.hyps(1) v
    by (intro exI [of _ m']) (auto simp: in_list iface_at_def need_hashable_def hashable_def lookup_def map_get_put)
qed simp

lemma map_instances_at:
  assumes "list_all2 host_at vs hs"
  shows "\<exists>m'. map_instances (map PStr ips) vs m = Inr m' \<and>
     (\<forall>a. a \<in> set ips \<longrightarrow> lookup m' a = (case host_of hs a of Some i \<Rightarrow> Some (PStr i) | None \<Rightarrow> lookup m a))"
  using assms
proof (induction arbitrary: m rule: list_all2_induct)
  case (Cons v vs h hs)
  from Cons.hyps(1) obtain ifs where v: "py_item v ''InstanceId'' = Inr (PStr (fst h))"
    and ifs: "py_get v ''NetworkInterfaces'' (PList []) = Inr (PList ifs)" "list_all2 iface_at ifs (snd h)"
    by (auto simp: host_at_def)
  from map_interfaces_at [OF ifs(2) v, of ips m] obtain m1 where
    1: "map_interfaces (map PStr ips) v ifs m = Inr m1"
    "\<forall>a. lookup m1 a = (if a \<in> set (snd h) \<and> a \<in> set ips then Some (PStr (fst h)) else lookup m a)" by blast
  from Cons.IH [of m1] obtain m' where 2: "map_instances (map PStr ips) vs m1 = Inr m'"
    "\<forall>a. a \<in> set ips \<longrightarrow> lookup m' a = (case host_of hs a of Some i \<Rightarrow> Some (PStr i) | None \<Rightarrow> lookup m1 a)" by blast
  with 1 show ?case
    by (intro exI [of _ m']) (auto simp: ifs(1) split: option.splits)
qed simp

lemma map_reservations_at:
  assumes "list_all2 reservation_at rvs rs"
  shows "\<exists>m'. map_reservations (map PStr ips) rvs m = Inr m' \<and>
     (\<forall>a. a \<in> set ips \<longrightarrow> lookup m' a = (case host_of (concat rs) a of Some i \<Rightarrow> Some (PStr i) | None \<Rightarrow> lookup m a))"
  using assms
proof (induction arbitrary: m rule: list_all2_induct)
  case (Cons v rvs r rs)
  from Cons.hyps(1) obtain vs where v: "py_item v ''Instances'' = Inr (PList vs)" "list_all2 host_at vs r"
    by (auto simp: reservation_at_def)
  from map_instances_at [OF v(2), of ips m] obtain m1 where 1: "map_instances (map PStr ips) vs m = Inr m1"
    "\<forall>a. a \<in> set ips \<longrightarrow> lookup m1 a = (case host_of r a of Some i \<Rightarrow> Some (PStr i) | None \<Rightarrow> lookup m a)" by blast
  from Cons.IH [of m1] obtain m' where
    2: "map_reservations (map PStr ips) rvs m1 = Inr m'"
    "\<forall>a. a \<in> set ips \<longrightarrow> lookup m' a = (case host_of (concat rs) a of Some i \<Rightarrow> Some (PStr i) | None \<Rightarrow> lookup m1 a)" by blast
  have "host_of (r @ hs) a = (case host_of hs a of Some i \<Rightarrow> Some i | None \<Rightarrow> host_of r a)" for a hs
    by (induction r) (auto split: option.splits)
  with 1 2 show ?case
    by (intro exI [of _ m']) (auto simp: v(1) split: option.splits)
qed simp

definition found_nodes :: "(string \<times> string list) list \<Rightarrow> string list \<Rightarrow> (string \<times> string) list" where
  "found_nodes hs ips = List.map_filter (\<lambda>a. map_option (Pair a) (host_of hs a)) ips"

lemma instance_list_json:
  assumes "\<forall>a. a \<in> set ips \<longrightarrow> lookup m a = map_option PStr (host_of hs a)"
  shows "instance_list (map PStr ips) m = Inr (map node_json (found_nodes hs ips))"
  using assms
proof (induction ips)
  case Nil
  show ?case by (simp add: instance_list_def found_nodes_def map_filter_simps)
next
  case (Cons a ips)
  from Cons.prems have a: "map_get (PStr a) m = map_option PStr (host_of hs a)" by (simp add: lookup_def)
  from Cons show ?case
    by (cases "host_of hs a")
      (simp_all add: instance_list_def found_nodes_def map_filter_simps need_hashable_def hashable_def a node_json_def)
qed

text \<open>The calls of a run that finds the nodes of members with the addresses \<open>ips\<close>.\<close>

definition node_calls :: "string \<Rightarrow> string list \<Rightarrow> call list" where
  "node_calls host ips =
     [UrlOpen (host @ ''/v1/status/leader''), UrlOpen (host @ ''/v1/agent/members''), DescribeInstancesByIp (map PStr ips)]"

text \<open>
  C20. The nodes are returned in the order of the members with the leader last: for members with the
  addresses \<open>as\<close> that Consul lists, the list is that of all of them but the leader, in their order,
  and then the leader, each with the instance that has its address; a member whose address no
  instance has is left out.
\<close>

theorem nodes_leader_last:
  assumes "nodes_ssl_context E s = (Inr (), u)"
    and "reply E (calls u) (UrlOpen (consul_address E ev @ ''/v1/status/leader'')) = Inr (PStr leader_body)"
    and "reply E (calls u @ [UrlOpen (consul_address E ev @ ''/v1/status/leader'')])
      (UrlOpen (consul_address E ev @ ''/v1/agent/members'')) = Inr (PStr members_body)"
    and "json_loads members_body = Inr (PList ms)" and "list_all2 member_at ms as" and "as \<noteq> []"
    and "leader = split_head '':'' (unquote leader_body)"
    and "ips = filter (\<lambda>a. a \<noteq> leader) as @ filter (\<lambda>a. a = leader) as"
    and "reply E (calls u @ [UrlOpen (consul_address E ev @ ''/v1/status/leader''), UrlOpen (consul_address E ev @ ''/v1/agent/members'')])
      (DescribeInstancesByIp (map PStr ips)) = Inr response"
    and "py_item response ''Reservations'' = Inr (PList rvs)" and "list_all2 reservation_at rvs rs"
  shows "nodes_lambda_handler E (PDict ev) s =
    (Inr (PDict [(''instanceList'', PList (map node_json
       (List.map_filter (\<lambda>a. map_option (Pair a) (host_of (concat rs) a)) ips)))]),
     u\<lparr>calls := calls u @ node_calls (consul_address E ev) ips\<rparr>)"
proof -
  have "set ips = set as" unfolding assms(8) by auto
  with assms(6) have ne: "map PStr ips \<noteq> []" by auto
  obtain ms' where ms': "leader_last leader ms = Inr ms'" "list_all2 member_at ms' ips"
    using leader_last_at [OF assms(5)] unfolding assms(8) by blast
  have addrs: "res_map (\<lambda>m. py_item m ''Addr'') ms' = Inr (map PStr ips)"
    using ms'(2) by (induction rule: list_all2_induct) (auto simp: member_at_def)
  obtain m where
    m: "map_reservations (map PStr ips) rvs [] = Inr m"
      "\<forall>a. a \<in> set ips \<longrightarrow> lookup m a = map_option PStr (host_of (concat rs) a)"
  proof -
    have "(case x of Some i \<Rightarrow> Some (PStr i) | None \<Rightarrow> lookup [] a) = map_option PStr x" for x a
      by (simp add: lookup_def split: option.splits)
    then show ?thesis using map_reservations_at [OF assms(11), of ips "[]"] that by auto
  qed
  have "find_nodes E (consul_address E ev) u =
      (Inr (PDict [(''instanceList'', PList (map node_json (found_nodes (concat rs) ips)))]),
       u\<lparr>calls := calls u @ node_calls (consul_address E ev) ips\<rparr>)"
    using ne assms(2-4,9,10) m(1) instance_list_json [OF m(2)]
    by (simp add: find_nodes_def read_url_def io_eval Let_def ms'(1) addrs assms(7) [symmetric] node_calls_def)
  with assms(1) [unfolded nodes_copies] show ?thesis
    by (simp add: nodes_lambda_handler_def nodes_copies get_consul_host_PDict io_bind_def io_then_def io_res_def io_catch_def found_nodes_def)
qed

section \<open>A cluster of two\<close>

definition sample_members :: pyval where
  "sample_members = PList [PDict [(''Name'', PStr ''consul-1''), (''Addr'', PStr ''10.0.0.1'')],
     PDict [(''Name'', PStr ''consul-2''), (''Addr'', PStr ''10.0.0.2'')]]"

definition sample_host :: "string \<Rightarrow> string \<Rightarrow> pyval" where
  "sample_host i a = PDict [(''InstanceId'', PStr i),
     (''NetworkInterfaces'', PList [PDict [(''PrivateIpAddress'', PStr a), (''Status'', PStr ''in-use'')]])]"

definition sample_nodes :: env where
  "sample_nodes = \<lparr>reply = (\<lambda>h c. case c of
       UrlOpen u \<Rightarrow> Inr (PStr (if h = [] then CHR 0x22 # ''10.0.0.1:8300'' @ [CHR 0x22] else json_text sample_members))
     | DescribeInstancesByIp _ \<Rightarrow> Inr (PDict [(''Reservations'', PList [PDict [(''Instances'',
          PList [sample_host ''i-leader'' ''10.0.0.1'', sample_host ''i-other'' ''10.0.0.2''])]])])
     | _ \<Rightarrow> Inr PNone),
     environ = map_of [(''environment'', ''prod'')]\<rparr>"

lemma nodes_leader_last_witness:
  "fst (nodes_lambda_handler sample_nodes (PDict []) fresh_consul) =
     Inr (PDict [(''instanceList'', PList (map node_json [(''10.0.0.2'', ''i-other''), (''10.0.0.1'', ''i-leader'')]))])"
proof -
  have ctx: "nodes_ssl_context sample_nodes fresh_consul = (Inr (), fresh_consul)"
    by (simp add: nodes_copies get_ssl_context_def cert_path_def cached_path_def io_eval truthy_def cert_parameter_arn_def
        sample_nodes_def fresh_consul_def)
  have leader: "''10.0.0.1'' = split_head '':'' (unquote (CHR 0x22 # ''10.0.0.1:8300'' @ [CHR 0x22]))"
    by (simp add: unquote_def str_strip_def is_space_def)
  have body: "json_loads (json_text sample_members) = Inr sample_members"
    by (rule loads_text) (simp add: sample_members_def)
  have host: "host_at (sample_host i a) (i, [a])" for i a
    by (simp add: host_at_def sample_host_def py_item_PDict iface_at_def)
  have order: "[''10.0.0.2'', ''10.0.0.1''] =
      filter (\<lambda>a. a \<noteq> ''10.0.0.1'') [''10.0.0.1'', ''10.0.0.2''] @ filter (\<lambda>a. a = ''10.0.0.1'') [''10.0.0.1'', ''10.0.0.2'']"
    by simp
  show ?thesis
    by (subst nodes_leader_last [OF ctx _ _ body [unfolded sample_members_def] _ _ leader order, of "[]" _ _
        "[[(''i-leader'', [''10.0.0.1'']), (''i-other'', [''10.0.0.2''])]]"])
      (auto simp: sample_nodes_def fresh_consul_def map_filter_simps member_at_def py_item_PDict reservation_at_def host
        sample_members_def)
qed

end
