(* ===== verification/ConsulTerminate.thy ===== *)
theory ConsulTerminate
  imports AutorecycleSqs
begin

text \<open>
  Ending one Consul node, \<open>terminate_consul_instance/main.py\<close>.
\<close>

definition terminate_lambda_handler :: "env \<Rightarrow> pyval \<Rightarrow> ('z world_scheme, pyval) io" where
  "terminate_lambda_handler E event =
     io_bind (io_res (py_get event ''instanceId'' PNone)) (\<lambda>iid.
     if \<not> py_truth iid
     then io_return (PDict [(''statusCode'', PInt 400),
       (''body'', PStr (''Missing '' @ quoted ''instanceId'' @ '' in input''))])
     else
       io_catch
         (io_bind (request E (TerminateInstances iid)) (\<lambda>response.
          io_return (PDict [(''statusCode'', PInt 200), (''body'', PStr (''Termination initiated for '' @ py_str iid)),
                            (''response'', response)])))
         (\<lambda>e. io_raise (py_exception (''Failed to terminate '' @ py_str iid @ '': '' @ exn_str e))))"

text \<open>
  An invocation ends at most the instance its event names: with an \<open>instanceId\<close> it sends one
  termination of it and answers 200 or raises with the instance named; without one it makes no
  call and answers 400.
\<close>

theorem terminate_one:
  "case map_of ev ''instanceId'' of
     Some iid \<Rightarrow>
       if py_truth iid
       then (case reply E (calls s) (TerminateInstances iid) of
           Inr response \<Rightarrow> \<exists>doc. terminate_lambda_handler E (PDict ev) s =
               (Inr (PDict doc), s\<lparr>calls := calls s @ [TerminateInstances iid]\<rparr>) \<and> map_of doc ''statusCode'' = Some (PInt 200)
         | Inl e \<Rightarrow> terminate_lambda_handler E (PDict ev) s =
             (Inl (py_exception (''Failed to terminate '' @ py_str iid @ '': '' @ exn_str e)),
              s\<lparr>calls := calls s @ [TerminateInstances iid]\<rparr>))
       else \<exists>doc. terminate_lambda_handler E (PDict ev) s = (Inr (PDict doc), s) \<and> map_of doc ''statusCode'' = Some (PInt 400)
   | None \<Rightarrow> \<exists>doc. terminate_lambda_handler E (PDict ev) s = (Inr (PDict doc), s) \<and> map_of doc ''statusCode'' = Some (PInt 400)"
  by (auto simp: terminate_lambda_handler_def io_eval split: option.splits sum.splits)

end
