(* ===== verification/ConsulMachine.thy ===== *)
theory ConsulMachine
  imports ConsulHealth ConsulNodes ConsulTerminate
begin

text \<open>
  The state machine \<open>recycle_consul_agents\<close> of \<open>terraform/consul_recycle_state_machine.tf\<close>, which
  recycles the nodes of a Consul cluster one at a time with the three Consul Lambdas. Its flow has
  no choice, so an execution is one \<open>io\<close>: what returns is a success, what raises a failure.

  The Slack Lambda and the command sent by SSM are calls of the environment. Every invocation of a
  Lambda runs in some container of it, and \<open>cache h\<close> is the certificate that the container at hand
  after the calls \<open>h\<close> has cached. The execution's input is an object with a string \<open>cluster\<close>. A
  document that is not an object, to which no result can be added, fails the first health check and its retries.

  The abstract specification \<open>rolling\<close> has the nodes that still run and the one that was asked to
  leave, if any; \<open>ConsulRolling\<close> shows that an execution follows it.
\<close>

section \<open>The states\<close>

record consul_variables =
  tf_channel :: string
  tf_error_channel :: string
  tf_acl_token_arn :: string

definition notification :: "string \<Rightarrow> string \<Rightarrow> string \<Rightarrow> string \<Rightarrow> pyval" where
  "notification txt channel color message =
     PDict [(''text'', PStr txt), (''channels'', PList [PStr channel]), (''color'', PStr color),
       (''message_content'', PDict [(''color'', PStr color), (''text'', PStr message)]),
       (''username'', PStr ''AutoRecycling'')]"

definition control_plane :: "string \<Rightarrow> string \<Rightarrow> string" where
  "control_plane cluster what = ''Auto-recycling of the Consul Control Plane '' @ cluster @ what"

definition notify :: "env \<Rightarrow> pyval \<Rightarrow> ('z world_scheme, pyval) io" where
  "notify E v = request E (SlackNotification v)"

text \<open>A Lambda invoked in a container, and a task with its retries and their growing intervals.\<close>

definition in_container ::
    "(call list \<Rightarrow> string option) \<Rightarrow> (consul_world, 'a) io \<Rightarrow> ('z world_scheme, 'a) io" where
  "in_container cache m =
     (\<lambda>s. case m \<lparr>calls = calls s, cert_cache = cache (calls s)\<rparr> of (r, t) \<Rightarrow> (r, s\<lparr>calls := calls t\<rparr>))"

fun retry :: "nat \<Rightarrow> int \<Rightarrow> ('z world_scheme, 'a) io \<Rightarrow> ('z world_scheme, 'a) io" where
  "retry 0 interval m = m"
| "retry (Suc n) interval m = io_catch m (\<lambda>_. io_then (io_sleep interval) (retry n (2 * interval) m))"

definition cluster_event :: "string \<Rightarrow> (string \<times> pyval) list \<Rightarrow> (string \<times> pyval) list" where
  "cluster_event cluster more_fields = (''cluster'', PStr cluster) # more_fields"

definition check_health ::
    "env \<Rightarrow> (call list \<Rightarrow> string option) \<Rightarrow> string \<Rightarrow> (string \<times> pyval) list \<Rightarrow> ('z world_scheme, pyval) io" where
  "check_health E cache cluster more_fields =
     in_container cache (health_lambda_handler E (PDict (cluster_event cluster more_fields)))"

definition leave_commands :: "consul_variables \<Rightarrow> string list" where
  "leave_commands V =
     [''echo '' @ quoted ''Checking Consul leader status...'',
      ''curl --cacert /etc/consul/tls/consul-agent-ca.pem -s https://localhost:8501/v1/status/leader || echo '' @
        quoted ''Consul not responding, not running or leaderless'',
      ''echo '' @ quoted ''Attempting graceful leave...'',
      ''curl --cacert /etc/consul/tls/consul-agent-ca.pem -X PUT https://localhost:8501/v1/agent/leave --header '' @
        [CHR 0x22] @ ''X-Consul-Token: $(aws ssm get-parameter --name '' @ quoted (tf_acl_token_arn V) @
        '' --with-decryption --output text --query '' @ quoted ''Parameter.Value'' @ '')'' @ [CHR 0x22] @
        '' || echo '' @ quoted ''Leave command failed'']"

definition graceful_leave :: "env \<Rightarrow> consul_variables \<Rightarrow> pyval \<Rightarrow> ('z world_scheme, pyval) io" where
  "graceful_leave E V iid =
     request E (SsmSendCommand (PDict
       [(''DocumentName'', PStr ''AWS-RunShellScript''), (''InstanceIds'', PList [iid]),
        (''Parameters'', PDict [(''commands'', PList (map PStr (leave_commands V)))])]))"

definition recycle_node ::
    "env \<Rightarrow> consul_variables \<Rightarrow> (call list \<Rightarrow> string option) \<Rightarrow> string \<Rightarrow> pyval \<Rightarrow> ('z world_scheme, pyval) io" where
  "recycle_node E V cache cluster item =
     io_then (io_res (py_item item ''ip''))
     (io_bind (io_res (py_item item ''instanceId'')) (\<lambda>iid.
      io_then (graceful_leave E V iid)
      (io_then (io_sleep 120)
      (io_then (retry 4 120 (check_health E cache cluster [(''expectedPeers'', PInt 4)]))
      (io_then (terminate_lambda_handler E (PDict [(''instanceId'', iid)]))
      (io_then (io_sleep 300)
      (retry 6 180 (check_health E cache cluster []))))))))"

definition need_object :: "pyval \<Rightarrow> unit res" where
  "need_object v = (if is_dict v then Inr () else Inl (Exn (LibraryError ''States.ResultPathMatchFailure'') None))"

definition need_list :: "pyval \<Rightarrow> pyval list res" where
  "need_list v = (case v of PList xs \<Rightarrow> Inr xs | _ \<Rightarrow> Inl (Exn (LibraryError ''States.Runtime'') None))"

text \<open>The state \<open>CheckClusterHealthInitial\<close>, which adds its result to the answer of the Slack Lambda.\<close>

definition initial_check ::
    "env \<Rightarrow> (call list \<Rightarrow> string option) \<Rightarrow> string \<Rightarrow> pyval \<Rightarrow> ('z world_scheme, unit) io" where
  "initial_check E cache cluster doc = io_then (check_health E cache cluster []) (io_res (need_object doc))"

definition main_flow ::
    "env \<Rightarrow> consul_variables \<Rightarrow> (call list \<Rightarrow> string option) \<Rightarrow> string \<Rightarrow> ('z world_scheme, unit) io" where
  "main_flow E V cache cluster =
     io_bind (notify E (notification ''Auto-recycling was successfully initiated'' (tf_channel V) ''good''
       (control_plane cluster '' was successfully initiated''))) (\<lambda>doc.
     io_then (retry 4 120 (initial_check E cache cluster doc))
     (io_bind (in_container cache (nodes_lambda_handler E (PDict (cluster_event cluster [])))) (\<lambda>nodes.
      io_bind (io_res (res_bind (py_item nodes ''instanceList'') need_list)) (\<lambda>items.
      io_then (io_map (recycle_node E V cache cluster) items)
      (io_then (notify E (notification ''Auto-recycling the consul cluster has completed'' (tf_channel V) ''good''
        (control_plane cluster '' was successfully completed'')))
      (io_return ()))))))"

definition recycle_consul ::
    "env \<Rightarrow> consul_variables \<Rightarrow> (call list \<Rightarrow> string option) \<Rightarrow> string \<Rightarrow> ('z world_scheme, unit) io" where
  "recycle_consul E V cache cluster =
     io_catch (main_flow E V cache cluster)
       (\<lambda>_. io_then (notify E (notification (control_plane cluster '' failed'') (tf_error_channel V) ''danger''
               ''Auto-recycling of the Consul Control Plane encountered an error and was aborted''))
             (io_raise (Exn (LibraryError ''AutoRecyclingFailed'') (Some (PStr ''Error encountered during Consul Recycle'')))))"

section \<open>What the nodes see of an execution\<close>

datatype node_event = Leave pyval | End pyval

fun node_event_of :: "call \<Rightarrow> node_event list" where
  "node_event_of (SsmSendCommand v) = (case py_item v ''InstanceIds'' of Inr (PList ids) \<Rightarrow> map Leave ids | _ \<Rightarrow> [])"
| "node_event_of (TerminateInstances v) = [End v]"
| "node_event_of (InstanceTerminate v) = [End v]"
| "node_event_of _ = []"

definition node_events :: "call list \<Rightarrow> node_event list" where
  "node_events cs = concat (map node_event_of cs)"

lemma node_events_simps [simp]:
  "node_events [] = []" "node_events (c # cs) = node_event_of c @ node_events cs"
  "node_events (a @ b) = node_events a @ node_events b"
  by (simp_all add: node_events_def)

text \<open>
  The specification: of the nodes \<open>todo\<close> the first is asked to leave, and no other is until it
  ended. A node without an id cannot be ended.
\<close>

inductive rolling :: "pyval list \<Rightarrow> pyval option \<Rightarrow> node_event list \<Rightarrow> pyval list \<Rightarrow> pyval option \<Rightarrow> bool" where
  rolling_stop: "rolling todo out [] todo out"
| rolling_leave: "rolling todo (Some v) es todo' out' \<Longrightarrow> rolling (v # todo) None (Leave v # es) todo' out'"
| rolling_end: "rolling todo None es todo' out' \<Longrightarrow> rolling todo (Some v) (End v # es) todo' out'"
| rolling_skip: "\<not> py_truth v \<Longrightarrow> rolling todo None es todo' out' \<Longrightarrow> rolling todo (Some v) es todo' out'"


text \<open>The events of one node, and of all.\<close>

definition node_run :: "pyval \<Rightarrow> node_event list" where
  "node_run v = Leave v # (if py_truth v then [End v] else [])"

lemma rolling_all: "rolling ids None (concat (map node_run ids)) [] None"
proof (induction ids)
  case Nil
  show ?case by (simp add: rolling_stop)
next
  case (Cons v ids)
  then have "rolling ids (Some v) ((if py_truth v then [End v] else []) @ concat (map node_run ids)) [] None"
    by (auto intro: rolling_end rolling_skip)
  then show ?case by (simp add: node_run_def [of v] rolling_leave split: if_splits)
qed

lemma rolling_prefix: "rolling todo out (es @ fs) todo' out' \<Longrightarrow> \<exists>todo' out'. rolling todo out es todo' out'"
proof (induction todo out "es @ fs" todo' out' arbitrary: es rule: rolling.induct)
  case (rolling_leave todo v es' todo' out')
  then show ?case by (cases es) (auto intro: rolling.intros)
next
  case (rolling_end todo v es' todo' out')
  then show ?case by (cases es) (auto intro: rolling.intros)
qed (auto intro: rolling.intros)

lemma rolling_node_runs: "prefix es (concat (map node_run ids)) \<Longrightarrow> \<exists>todo out. rolling ids None es todo out"
  using rolling_all [of ids] rolling_prefix by (metis prefixE)

end
