(* ===== verification/ConsulRolling.thy ===== *)
theory ConsulRolling
  imports ConsulMachine
begin

text \<open>
  An execution of \<open>recycle_consul_agents\<close> is a rolling recycle: it follows the specification \<open>rolling\<close>, asks
  a node to leave only while the cluster is complete, and terminates it only after a check found
  the cluster healthy without it. The locale \<open>cluster_reader\<close> is a Lambda that only looks, and
  \<open>node_recycler\<close> what recycles one node.
\<close>

section \<open>The pieces of an execution\<close>

text \<open>Calls that no node sees, and the computations bounded by them.\<close>

definition unseen :: "call set" where
  "unseen = {c. node_event_of c = [] \<and> terminated_by c = []}"

text \<open>What a Lambda does that only looks at the cluster: it does not wait either.\<close>

definition looking :: "call set" where
  "looking = {c. c \<in> unseen \<and> slept_by c = 0}"

lemma looking_unseen: "looking \<subseteq> unseen"
  by (auto simp: looking_def)

lemma node_events_unseen: "set cs \<subseteq> unseen \<Longrightarrow> node_events cs = []"
  by (induction cs) (auto simp: unseen_def)

lemma footprint_container:
  assumes "footprint m S"
  shows "footprint (in_container cache m) S"
proof (rule footprintI)
  fix s :: "'z world_scheme"
  show "extends S s (snd (in_container cache m s))"
    using footprintD [OF assms, of "\<lparr>calls = calls s, cert_cache = cache (calls s)\<rparr>"]
    by (auto simp: in_container_def extends_def split: prod.splits)
qed

lemma footprint_retry: "footprint m S \<Longrightarrow> range Sleep \<subseteq> S \<Longrightarrow> footprint (retry n d m) S"
  by (induction n d m rule: retry.induct) (auto intro!: footprint_intros)

lemma footprint_cert [footprint_intros]: "footprint cached_path S" "footprint (cache_path p) S"
  by (simp_all add: footprint_def cached_path_def cache_path_def wp_def extends_def)

lemma looking_members [simp]:
  "UrlOpen url \<in> looking" "SsmGetParameter name \<in> looking" "WriteTempFile v \<in> looking" "LoadVerifyLocations path \<in> looking"
  "DescribeInstancesByIp ips \<in> looking"
  by (simp_all add: looking_def unseen_def)

lemma footprint_context: "footprint (get_ssl_context E) looking"
  by (auto simp: get_ssl_context_def cert_path_def retrieve_cert_def intro!: footprint_intros)

lemma footprint_read_url: "footprint (read_url E url) looking"
  by (auto simp: read_url_def intro!: footprint_intros)

lemma footprint_health: "footprint (health_lambda_handler E event) looking"
  by (auto simp: health_lambda_handler_def health_checks_def Let_def
      intro!: footprint_intros footprint_context footprint_read_url)

lemma footprint_nodes: "footprint (nodes_lambda_handler E event) looking"
  by (auto simp: nodes_lambda_handler_def nodes_copies find_nodes_def Let_def
      intro!: footprint_intros footprint_context footprint_read_url)

text \<open>
  A Lambda that only looks at the cluster, whatever its event: no node sees it, in a container and
  with retries neither.
\<close>

locale cluster_reader =
  fixes handler :: "pyval \<Rightarrow> (consul_world, pyval) io"
  assumes quiet: "footprint (handler event) looking"
begin

lemma contained: "footprint (in_container cache (handler event)) looking"
  by (rule footprint_container [OF quiet])

lemma retried: "footprint (retry n d (in_container cache (handler event))) unseen"
  by (rule footprint_retry [OF footprint_mono [OF contained looking_unseen]]) (auto simp: unseen_def)

lemma run_extends: "handler event s = (r, t) \<Longrightarrow> extends unseen s t"
  using footprintD [OF quiet, of s event] extends_mono [OF _ looking_unseen] by auto

end

interpretation health_reader: cluster_reader "health_lambda_handler E" for E
  by unfold_locales (rule footprint_health)

interpretation nodes_reader: cluster_reader "nodes_lambda_handler E" for E
  by unfold_locales (rule footprint_nodes)

lemma wp_container:
  "wp (in_container cache m) Q R s =
     wp m (\<lambda>x t. Q x (s\<lparr>calls := calls t\<rparr>)) (\<lambda>e t. R e (s\<lparr>calls := calls t\<rparr>))
       \<lparr>calls = calls s, cert_cache = cache (calls s)\<rparr>"
  by (auto simp: wp_def in_container_def split: prod.splits sum.splits)

text \<open>The last two calls of the log \<open>h\<close> were a check that found the cluster healthy.\<close>

definition just_healthy :: "env \<Rightarrow> string \<Rightarrow> pyval \<Rightarrow> call list \<Rightarrow> bool" where
  "just_healthy E host peers h =
     (\<exists>g. h = g @ [UrlOpen (host @ ''/v1/status/leader''), UrlOpen (host @ ''/v1/status/peers'')] \<and>
        cluster_healthy E host peers g)"

lemma health_checks_healthy:
  "wp (health_checks E host peers) (\<lambda>_ t. just_healthy E host peers (calls t)) (\<lambda>_ _. True) s"
  by (auto simp: health_checks_def read_url_def wp_simps Let_def need_str_def just_healthy_def cluster_healthy_def
      split: sum.splits pyval.splits)

definition cluster_address :: "env \<Rightarrow> string \<Rightarrow> string" where
  "cluster_address E cluster = consul_address E (cluster_event cluster [])"

definition wanted_peers :: "(string \<times> pyval) list \<Rightarrow> pyval" where
  "wanted_peers more_fields = (case map_of more_fields ''expectedPeers'' of None \<Rightarrow> PInt 5 | Some v \<Rightarrow> v)"

lemma check_health_healthy:
  "wp (check_health E cache cluster ex)
    (\<lambda>_ t. just_healthy E (cluster_address E cluster) (wanted_peers ex) (calls t)) (\<lambda>_ _. True) s"
proof -
  have "consul_address E (cluster_event cluster ex) = cluster_address E cluster"
    by (simp add: consul_address_def cluster_address_def cluster_event_def)
  then have event: "get_consul_host E (PDict (cluster_event cluster ex)) = Inr (cluster_address E cluster)"
    "py_get (PDict (cluster_event cluster ex)) ''expectedPeers'' (PInt 5) = Inr (wanted_peers ex)"
    by (simp_all add: get_consul_host_PDict wanted_peers_def cluster_event_def split: option.splits)
  have checks: "wp (io_catch (health_checks E (cluster_address E cluster) (wanted_peers ex)) (\<lambda>e. io_raise (f e)))
      (\<lambda>_ t. just_healthy E (cluster_address E cluster) (wanted_peers ex) (calls t)) (\<lambda>_ _. True) u"
    for f and u :: consul_world
    unfolding wp_catch by (rule wp_mono [OF health_checks_healthy]) (simp_all add: wp_raise)
  show ?thesis
    unfolding check_health_def wp_container health_lambda_handler_def wp_bind wp_res event wp_then sum.case
    by (rule wp_mono [OF wp_top]) (simp_all add: checks)
qed

lemma retry_last:
  assumes "\<And>s. wp m Q (\<lambda>_ _. True) s"
  shows "wp (retry n d m) Q (\<lambda>_ _. True) s"
  using assms
proof (induction n d m arbitrary: s rule: retry.induct)
  case (2 n d m)
  then show ?case
    unfolding retry.simps wp_catch wp_then wp_sleep
    by (intro wp_mono [OF 2(2)]) auto
qed simp

section \<open>One node\<close>

text \<open>
  \<open>rested E host h\<close>: the last thing that the nodes know of the log \<open>h\<close> is a check that found all five peers. In
  \<open>new\<close>, which follows \<open>h\<close>, every termination comes right after a check that found four peers, and a
  node is asked to leave only while the cluster is rested.
\<close>

definition rested :: "env \<Rightarrow> string \<Rightarrow> call list \<Rightarrow> bool" where
  "rested E host h = (\<exists>g quiet. h = g @ quiet \<and> just_healthy E host (PInt 5) g \<and> node_events quiet = [])"

lemma rested_now: "just_healthy E host (PInt 5) h \<Longrightarrow> rested E host h"
  unfolding rested_def by (intro exI [of _ h] exI [of _ "[]"]) simp

lemma rested_unseen:
  assumes "rested E host (calls s)" and "extends unseen s t"
  shows "rested E host (calls t)"
proof -
  from assms obtain g q cs where "calls s = g @ q" "just_healthy E host (PInt 5) g" "node_events q = []"
    "calls t = calls s @ cs" "set cs \<subseteq> unseen" by (auto simp: rested_def extends_def)
  then show ?thesis
    unfolding rested_def by (intro exI [of _ g] exI [of _ "q @ cs"]) (simp add: node_events_unseen)
qed

definition asks_to_leave :: "call \<Rightarrow> bool" where
  "asks_to_leave c = list_ex (\<lambda>e. case e of Leave v \<Rightarrow> True | End v \<Rightarrow> False) (node_event_of c)"

fun guarded :: "env \<Rightarrow> string \<Rightarrow> call list \<Rightarrow> call list \<Rightarrow> bool" where
  "guarded E host h [] = True"
| "guarded E host h (c # new) =
     ((terminated_by c \<noteq> [] \<longrightarrow> just_healthy E host (PInt 4) h) \<and> (asks_to_leave c \<longrightarrow> rested E host h) \<and>
      guarded E host (h @ [c]) new)"

lemma guarded_unseen: "set new \<subseteq> unseen \<Longrightarrow> guarded E host h new"
  by (induction new arbitrary: h) (auto simp: unseen_def asks_to_leave_def)

lemma guarded_append: "guarded E host h (a @ b) \<longleftrightarrow> guarded E host h a \<and> guarded E host (h @ a) b"
  by (induction a arbitrary: h) auto

text \<open>From \<open>s\<close> to \<open>t\<close> the run was guarded and its events are as \<open>P\<close> says.\<close>

definition stage :: "env \<Rightarrow> string \<Rightarrow> (node_event list \<Rightarrow> bool) \<Rightarrow> 'z world_scheme \<Rightarrow> 'z world_scheme \<Rightarrow> bool" where
  "stage E host P s t = (\<exists>new. calls t = calls s @ new \<and> guarded E host (calls s) new \<and> P (node_events new))"

lemma stage_mono: "stage E host P s t \<Longrightarrow> (\<And>es. P es \<Longrightarrow> Q es) \<Longrightarrow> stage E host Q s t"
  by (auto simp: stage_def)

lemma stage_trans:
  assumes "stage E host P s t" and "stage E host Q t u" and "\<And>a b. P a \<Longrightarrow> Q b \<Longrightarrow> R (a @ b)"
  shows "stage E host R s u"
proof -
  from assms(1,2) obtain a b where "calls t = calls s @ a" "guarded E host (calls s) a" "P (node_events a)"
    "calls u = calls t @ b" "guarded E host (calls t) b" "Q (node_events b)" by (auto simp: stage_def)
  then show ?thesis
    using assms(3) by (auto simp: stage_def guarded_append intro!: exI [of _ "a @ b"])
qed

lemma stage_unseen: "extends unseen s t \<Longrightarrow> stage E host (\<lambda>es. es = []) s t"
  by (auto simp: extends_def stage_def intro: guarded_unseen node_events_unseen)

lemma wp_unseen:
  assumes "footprint m unseen" and "stage E host P s u"
  shows "wp m (\<lambda>_. stage E host P s) (\<lambda>_. stage E host P s) u"
proof -
  have "stage E host P s t" if "extends unseen u t" for t
    using stage_trans [OF assms(2) stage_unseen [OF that]] by (rule stage_mono) auto
  then show ?thesis by (intro wp_mono [OF footprint_wp [OF assms(1)]])
qed

lemma footprint_check: "footprint (retry n d (check_health E cache cluster ex)) unseen"
  unfolding check_health_def by (rule health_reader.retried)

lemma footprint_initial: "footprint (retry n d (initial_check E cache cluster doc)) unseen"
  unfolding initial_check_def
  by (intro footprint_retry footprint_then footprint_res footprint_check [of 0, simplified]) (auto simp: unseen_def)

lemma initial_check_healthy:
  "wp (initial_check E cache cluster doc) (\<lambda>_ t. just_healthy E (cluster_address E cluster) (PInt 5) (calls t)) (\<lambda>_ _. True) s"
  unfolding initial_check_def wp_then
  by (rule wp_mono [OF check_health_healthy]) (auto simp: wp_res wanted_peers_def split: sum.splits)

lemma footprint_wait: "footprint (io_sleep n) unseen"
  by (simp add: footprint_sleep unseen_def)

lemma check_stage:
  assumes "stage E (cluster_address E cluster) P s u"
  shows "wp (retry n d (check_health E cache cluster ex))
    (\<lambda>_ t. stage E (cluster_address E cluster) P s t \<and>
       just_healthy E (cluster_address E cluster) (wanted_peers ex) (calls t))
    (\<lambda>_. stage E (cluster_address E cluster) P s) u"
  by (rule wp_mono [OF wp_conj [OF wp_unseen [OF footprint_check assms] retry_last [OF check_health_healthy]]]) simp_all

lemma wanted_peers_simps [simp]: "wanted_peers [] = PInt 5" "wanted_peers [(''expectedPeers'', v)] = v"
  by (simp_all add: wanted_peers_def)

lemma graceful_leave_stage:
  assumes "rested E host (calls s)"
  shows "wp (graceful_leave E V v) (\<lambda>_. stage E host (\<lambda>es. es = [Leave v]) s) (\<lambda>_. stage E host (\<lambda>es. es = [Leave v]) s) s"
  using assms by (auto simp: graceful_leave_def wp_request stage_def py_item_PDict split: sum.splits)

lemma terminate_stage:
  assumes "stage E host (\<lambda>es. es = [Leave v]) s u" and "just_healthy E host (PInt 4) (calls u)"
  shows "wp (terminate_lambda_handler E (PDict [(''instanceId'', v)]))
    (\<lambda>_. stage E host (\<lambda>es. es = node_run v) s) (\<lambda>_. stage E host (\<lambda>es. es = node_run v) s) u"
proof (cases "py_truth v")
  case True
  have "stage E host (\<lambda>es. es = [End v]) u (u\<lparr>calls := calls u @ [TerminateInstances v]\<rparr>)"
    using assms(2) by (auto simp: stage_def asks_to_leave_def)
  from stage_trans [OF assms(1) this, of "\<lambda>es. es = node_run v"] True
  show ?thesis by (auto simp: terminate_lambda_handler_def wp_simps node_run_def split: sum.splits)
next
  case False
  with assms(1) show ?thesis by (simp add: terminate_lambda_handler_def wp_simps node_run_def)
qed

text \<open>The id of a node, and its recycling.\<close>

definition node_id :: "pyval \<Rightarrow> pyval" where
  "node_id item = (case py_item item ''instanceId'' of Inr v \<Rightarrow> v | Inl _ \<Rightarrow> PNone)"

lemma recycle_node_stage:
  assumes "rested E (cluster_address E cluster) (calls s)"
  shows "wp (recycle_node E V cache cluster item)
     (\<lambda>_ t. stage E (cluster_address E cluster) (\<lambda>es. es = node_run (node_id item)) s t \<and>
        rested E (cluster_address E cluster) (calls t))
     (\<lambda>_. stage E (cluster_address E cluster) (\<lambda>es. prefix es (node_run (node_id item))) s) s"
proof -
  let ?host = "cluster_address E cluster" and ?v = "node_id item"
  let ?now = "\<lambda>es t. stage E ?host (\<lambda>es'. es' = es) s t" and ?some = "\<lambda>t. stage E ?host (\<lambda>es. prefix es (node_run ?v)) s t"
  let ?run = "\<lambda>t. ?now (node_run ?v) t \<and> rested E ?host (calls t)"
  have now: "?now es t \<Longrightarrow> prefix es (node_run ?v) \<Longrightarrow> ?some t" for es t
    by (erule stage_mono) simp
  have left: "?now [Leave ?v] t \<Longrightarrow> ?some t" for t
    by (erule now) (simp add: node_run_def)
  have start: "?now [] s" by (rule stage_unseen) simp
  have 1: "wp (retry 6 180 (check_health E cache cluster [])) (\<lambda>_. ?run) (\<lambda>_. ?some) u" if "?now (node_run ?v) u" for u
    by (rule wp_mono [OF check_stage [OF that]]) (auto intro: now rested_now)
  have 2: "wp (io_then (io_sleep 300) (retry 6 180 (check_health E cache cluster []))) (\<lambda>_. ?run) (\<lambda>_. ?some) u"
    if "?now (node_run ?v) u" for u
    unfolding wp_then by (rule wp_mono [OF wp_unseen [OF footprint_wait that]]) (auto intro: now 1)
  have 3: "wp (io_then (terminate_lambda_handler E (PDict [(''instanceId'', ?v)]))
      (io_then (io_sleep 300) (retry 6 180 (check_health E cache cluster [])))) (\<lambda>_. ?run) (\<lambda>_. ?some) u"
    if "?now [Leave ?v] u \<and> just_healthy E ?host (PInt 4) (calls u)" for u
    unfolding wp_then [of "terminate_lambda_handler _ _"]
    by (rule wp_mono [OF terminate_stage]) (use that in \<open>auto intro: now 2\<close>)
  have 4: "wp (retry 4 120 (check_health E cache cluster [(''expectedPeers'', PInt 4)]))
      (\<lambda>_ t. ?now [Leave ?v] t \<and> just_healthy E ?host (PInt 4) (calls t)) (\<lambda>_. ?some) u"
    if "?now [Leave ?v] u" for u
    by (rule wp_mono [OF check_stage [OF that]]) (auto intro: left)
  show ?thesis
  proof (cases "py_item item ''instanceId''")
    case (Inl e)
    then show ?thesis
      using now [OF start] by (auto simp: recycle_node_def wp_then wp_bind wp_res split: sum.split)
  next
    case (Inr v)
    then have v: "?v = v" by (simp add: node_id_def)
    have 5: "wp (io_then (io_sleep 120) (io_then (retry 4 120 (check_health E cache cluster [(''expectedPeers'', PInt 4)]))
        (io_then (terminate_lambda_handler E (PDict [(''instanceId'', ?v)]))
        (io_then (io_sleep 300) (retry 6 180 (check_health E cache cluster [])))))) (\<lambda>_. ?run) (\<lambda>_. ?some) u"
      if "?now [Leave ?v] u" for u
      unfolding wp_then [of "io_sleep 120"] wp_then [of "retry 4 120 _"]
      by (rule wp_mono [OF wp_unseen [OF footprint_wait that]]; (rule wp_mono [OF 4])?)
        (auto intro: 3 left)
    show ?thesis
      unfolding recycle_node_def wp_then [of "io_res _"] wp_then [of "graceful_leave _ _ _"] wp_bind wp_res Inr sum.case
      using now [OF start] 5 left
      by (auto simp: v split: sum.split intro!: wp_mono [OF graceful_leave_stage [OF assms]])
  qed
qed

section \<open>The whole execution\<close>

text \<open>
  What recycles a node: it asks the node to leave and ends it, or raises somewhere in between. A
  list of nodes is then recycled in its order, up to the first that raises.
\<close>

locale node_recycler =
  fixes E :: env and host :: string and one :: "pyval \<Rightarrow> ('z world_scheme, pyval) io"
  assumes one_stage: "rested E host (calls s) \<Longrightarrow>
    wp (one item) (\<lambda>_ t. stage E host (\<lambda>es. es = node_run (node_id item)) s t \<and> rested E host (calls t))
      (\<lambda>_. stage E host (\<lambda>es. prefix es (node_run (node_id item))) s) s"
begin

lemma all_in_order:
  "rested E host (calls s) \<Longrightarrow>
   wp (io_map one items)
     (\<lambda>_ t. stage E host (\<lambda>es. es = concat (map (\<lambda>x. node_run (node_id x)) items)) s t \<and> rested E host (calls t))
     (\<lambda>_. stage E host (\<lambda>es. prefix es (concat (map (\<lambda>x. node_run (node_id x)) items))) s) s"
proof (induction items arbitrary: s)
  case Nil
  then show ?case by (simp add: wp_simps stage_unseen [THEN stage_mono])
next
  case (Cons item items)
  let ?all = "concat (map (\<lambda>x. node_run (node_id x)) (item # items))"
  have first: "stage E host (\<lambda>es. prefix es ?all) s t"
    if "stage E host (\<lambda>es. prefix es (node_run (node_id item))) s t" for t
    using that by (rule stage_mono) (auto simp: prefix_def)
  have rest: "wp (io_map one items)
      (\<lambda>_ u. stage E host (\<lambda>es. es = ?all) s u \<and> rested E host (calls u)) (\<lambda>_. stage E host (\<lambda>es. prefix es ?all) s) t"
    if t: "stage E host (\<lambda>es. es = node_run (node_id item)) s t \<and> rested E host (calls t)" for t
  proof (rule wp_mono [OF Cons.IH [OF conjunct2 [OF t]]])
    fix u assume "stage E host (\<lambda>es. es = concat (map (\<lambda>x. node_run (node_id x)) items)) t u \<and> rested E host (calls u)"
    then show "stage E host (\<lambda>es. es = ?all) s u \<and> rested E host (calls u)"
      using stage_trans [OF conjunct1 [OF t], of _ u "\<lambda>es. es = ?all"] by auto
  next
    fix u assume "stage E host (\<lambda>es. prefix es (concat (map (\<lambda>x. node_run (node_id x)) items))) t u"
    then show "stage E host (\<lambda>es. prefix es ?all) s u"
      by (rule stage_trans [OF conjunct1 [OF t]]) (auto simp: prefix_def)
  qed
  show ?case
    unfolding io_map.simps wp_bind wp_return
    by (rule wp_mono [OF one_stage [OF Cons.prems]]) (erule rest, erule first)
qed

end

interpretation consul_recycler: node_recycler E "cluster_address E cluster" "recycle_node E V cache cluster" for E V cache cluster
  by unfold_locales (rule recycle_node_stage)

text \<open>The nodes that the execution from \<open>s\<close> to \<open>t\<close> was told to recycle.\<close>

definition told_nodes :: "env \<Rightarrow> string \<Rightarrow> world \<Rightarrow> world \<Rightarrow> pyval list \<Rightarrow> bool" where
  "told_nodes E cluster s t ids =
     (\<exists>u u' nodes items. nodes_lambda_handler E (PDict (cluster_event cluster [])) (u :: consul_world) = (Inr nodes, u') \<and>
        py_item nodes ''instanceList'' = Inr (PList items) \<and> ids = map node_id items \<and>
        prefix (calls s) (calls u) \<and> prefix (calls u') (calls t))"

definition follows :: "env \<Rightarrow> string \<Rightarrow> bool \<Rightarrow> world \<Rightarrow> world \<Rightarrow> bool" where
  "follows E cluster complete s t =
     ((complete \<longrightarrow> rested E (cluster_address E cluster) (calls t)) \<and>
     (stage E (cluster_address E cluster) (\<lambda>es. es = []) s t \<and> \<not> complete \<or>
      (\<exists>ids. told_nodes E cluster s t ids \<and>
         stage E (cluster_address E cluster)
           (\<lambda>es. if complete then es = concat (map node_run ids) else prefix es (concat (map node_run ids))) s t)))"

lemma follows_unseen:
  assumes "follows E cluster b s t" and "extends unseen t u"
  shows "follows E cluster b s u"
proof -
  have told: "told_nodes E cluster s t ids \<Longrightarrow> told_nodes E cluster s u ids" for ids
    using assms(2) by (auto simp: told_nodes_def extends_def) (metis prefix_prefix)
  have "stage E (cluster_address E cluster) P s t \<Longrightarrow> stage E (cluster_address E cluster) P s u" for P
    by (erule stage_trans [OF _ stage_unseen [OF assms(2)]]) simp
  with told rested_unseen [OF _ assms(2)] show ?thesis using assms(1) unfolding follows_def by blast
qed

lemma follows_mono: "follows E cluster True s t \<Longrightarrow> follows E cluster False s t"
  unfolding follows_def by (fastforce elim: stage_mono)

lemma footprint_notify: "footprint (notify E v) unseen"
  by (auto simp: notify_def unseen_def intro!: footprint_intros)

lemma wp_follows:
  assumes "footprint m unseen" and "follows E cluster b s u"
  shows "wp m (\<lambda>_. follows E cluster b s) (\<lambda>_. follows E cluster b s) u"
  by (rule wp_mono [OF footprint_wp [OF assms(1)]]) (auto intro: follows_unseen [OF assms(2)])

lemma nodes_in_container:
  assumes "extends unseen s v"
  shows "wp (in_container cache (nodes_lambda_handler E ev))
    (\<lambda>nodes w. extends unseen s w \<and> extends unseen v w \<and>
       (\<exists>u u'. nodes_lambda_handler E ev (u :: consul_world) = (Inr nodes, u') \<and> prefix (calls s) (calls u) \<and> calls u' = calls w))
    (\<lambda>_. extends unseen s) v"
proof -
  let ?u = "\<lparr>calls = calls v, cert_cache = cache (calls v)\<rparr>"
  obtain r u' where run: "nodes_lambda_handler E ev ?u = (r, u')" by fastforce
  from nodes_reader.run_extends [OF run] have "extends unseen v (v\<lparr>calls := calls u'\<rparr>)" by (simp add: extends_def)
  moreover from assms this have "extends unseen s (v\<lparr>calls := calls u'\<rparr>)" by (rule extends_trans)
  moreover have "prefix (calls s) (calls ?u)" using assms by (auto simp: extends_def)
  moreover have "\<exists>w w'. nodes_lambda_handler E ev (w :: consul_world) = (Inr x, w') \<and>
      prefix (calls s) (calls w) \<and> calls w' = calls u'" if "r = Inr x" for x
    using run that calculation by blast
  ultimately show ?thesis using run by (cases r) (auto simp: wp_def in_container_def)
qed

lemma recycle_items_follow:
  assumes "extends unseen s w" and rested: "rested E (cluster_address E cluster) (calls w)"
    and "nodes_lambda_handler E (PDict (cluster_event cluster [])) (u :: consul_world) = (Inr nodes, u')"
    and "prefix (calls s) (calls u)" and "calls u' = calls w" and "py_item nodes ''instanceList'' = Inr (PList items)"
  shows "wp (io_map (recycle_node E V cache cluster) items)
    (\<lambda>_. follows E cluster True s) (\<lambda>_. follows E cluster False s) w"
proof -
  let ?ids = "map node_id items"
  have told: "told_nodes E cluster s t ?ids" if "stage E (cluster_address E cluster) P w t" for P t
  proof -
    have "prefix (calls u') (calls t)" using that assms(5) by (auto simp: stage_def)
    then show ?thesis
      using assms(3,4,6) unfolding told_nodes_def
      by (intro exI [of _ u] exI [of _ u'] exI [of _ nodes] exI [of _ items]) simp
  qed
  have ids: "map (\<lambda>x. node_run (node_id x)) items = map node_run ?ids" by simp
  have "follows E cluster b s t"
    if now: "stage E (cluster_address E cluster)
      (\<lambda>es. if b then es = concat (map node_run ?ids) else prefix es (concat (map node_run ?ids))) w t"
    and over: "b \<longrightarrow> rested E (cluster_address E cluster) (calls t)" for b t
  proof -
    have "stage E (cluster_address E cluster)
        (\<lambda>es. if b then es = concat (map node_run ?ids) else prefix es (concat (map node_run ?ids))) s t"
      by (rule stage_trans [OF stage_unseen [OF assms(1)] now]) (simp del: map_map)
    with told [OF now] over show ?thesis unfolding follows_def by blast
  qed
  from this [of True] this [of False] show ?thesis
    by (intro wp_mono [OF consul_recycler.all_in_order [OF rested, where items = items, unfolded ids]]) (simp_all del: map_map)
qed

lemma main_flow_follows: "wp (main_flow E V cache cluster) (\<lambda>_. follows E cluster True s) (\<lambda>_. follows E cluster False s) s"
proof -
  have early: "follows E cluster False s t" if "extends unseen s t" for t
    using stage_unseen [OF that] by (simp add: follows_def)
  have quiet: "wp m (\<lambda>_. extends unseen s) (\<lambda>_. extends unseen s) u"
    if "footprint m unseen" "extends unseen s u" for u and m :: "(world, 'b) io"
    by (rule wp_mono [OF footprint_wp [OF that(1)]]) (use extends_trans [OF that(2)] in blast)+
  have ended: "wp (io_then (notify E v) (io_return ())) (\<lambda>_. follows E cluster True s) (\<lambda>_. follows E cluster False s) t"
    if "follows E cluster True s t" for v t
    unfolding wp_then wp_return
    by (rule wp_mono [OF wp_follows [OF footprint_notify that]]) (auto intro: follows_mono)
  let ?rest = "\<lambda>nodes. io_bind (io_res (res_bind (py_item nodes ''instanceList'') need_list)) (\<lambda>items.
      io_then (io_map (recycle_node E V cache cluster) items)
      (io_then (notify E (notification ''Auto-recycling the consul cluster has completed'' (tf_channel V) ''good''
        (control_plane cluster '' was successfully completed''))) (io_return ())))"
  have rest: "wp (?rest nodes) (\<lambda>_. follows E cluster True s) (\<lambda>_. follows E cluster False s) w"
    if w: "extends unseen s w" and rested: "rested E (cluster_address E cluster) (calls w)" and u: "nodes_lambda_handler E (PDict (cluster_event cluster [])) (u :: consul_world) = (Inr nodes, u')"
      "prefix (calls s) (calls u)" "calls u' = calls w" for nodes w u u'
  proof (cases "res_bind (py_item nodes ''instanceList'') need_list")
    case (Inl e)
    then show ?thesis by (simp add: wp_bind wp_res early [OF w])
  next
    case (Inr items)
    then obtain v where "py_item nodes ''instanceList'' = Inr v" "need_list v = Inr items"
      by (auto simp: res_simps)
    then have "py_item nodes ''instanceList'' = Inr (PList items)"
      by (cases v) (simp_all add: need_list_def)
    from recycle_items_follow [OF w rested u this] show ?thesis
      unfolding wp_bind wp_res Inr sum.case wp_then [of "io_map _ _"]
      by (rule wp_mono) (auto intro: ended)
  qed
  have checked: "wp (retry 4 120 (initial_check E cache cluster doc))
      (\<lambda>_ t. extends unseen s t \<and> rested E (cluster_address E cluster) (calls t)) (\<lambda>_. extends unseen s) u"
    if "extends unseen s u" for u doc
    by (rule wp_mono [OF wp_conj [OF quiet [OF footprint_initial that] retry_last [OF initial_check_healthy]]])
      (auto intro: rested_now)
  have listed: "wp (in_container cache (nodes_lambda_handler E (PDict (cluster_event cluster []))))
      (\<lambda>nodes. wp (?rest nodes) (\<lambda>_. follows E cluster True s) (\<lambda>_. follows E cluster False s)) (\<lambda>_. follows E cluster False s) u"
    if "extends unseen s u" "rested E (cluster_address E cluster) (calls u)" for u
    by (rule wp_mono [OF nodes_in_container [OF that(1)]])
      (auto intro: early rest rested_unseen [OF that(2)])
  show ?thesis
    unfolding main_flow_def wp_bind [of "notify _ _"] wp_then [of "retry _ _ _"]
      wp_bind [of "in_container _ _"]
    apply (rule wp_mono [OF quiet [OF footprint_notify extends_refl]])
    apply (rule wp_mono [OF checked])
    apply assumption
    subgoal by (auto intro: listed)
    apply (erule early)
    apply (erule early)
    done
qed

lemma recycle_consul_follows:
  "wp (recycle_consul E V cache cluster) (\<lambda>_. follows E cluster True s) (\<lambda>_. follows E cluster False s) s"
  unfolding recycle_consul_def wp_catch wp_then wp_raise
  by (intro wp_mono [OF main_flow_follows] wp_mono [OF wp_follows [OF footprint_notify]])

text \<open>
  C6. An execution follows the specification \<open>rolling\<close> for the nodes that the nodes Lambda listed, in
  its order: each node is asked to leave and then ended before the next is asked, so that at most
  one is out at a time, and an execution that succeeds has ended all of them.
\<close>

theorem consul_rolling:
  assumes "recycle_consul E V cache cluster s = (r, t)"
  shows "\<exists>new ids todo out. calls t = calls s @ new \<and> rolling ids None (node_events new) todo out \<and>
    (ids = [] \<or> told_nodes E cluster s t ids) \<and>
    (r = Inr () \<longrightarrow> told_nodes E cluster s t ids \<and> todo = [] \<and> out = None)"
proof (cases r)
  case (Inl e)
  with wp_Inl [OF recycle_consul_follows, of E V cache cluster s e t] assms have "follows E cluster False s t" by simp
  then obtain new ids where "calls t = calls s @ new" "ids = [] \<or> told_nodes E cluster s t ids"
    "prefix (node_events new) (concat (map node_run ids))"
    by (fastforce simp: follows_def stage_def)
  with rolling_node_runs Inl show ?thesis by blast
next
  case (Inr x)
  with wp_Inr [OF recycle_consul_follows, of E V cache cluster s x t] assms have "follows E cluster True s t" by simp
  then obtain new ids where "calls t = calls s @ new" "told_nodes E cluster s t ids"
    "node_events new = concat (map node_run ids)" by (auto simp: follows_def stage_def)
  with rolling_all [of ids] show ?thesis by metis
qed

text \<open>
  C7. The cluster is never short of two nodes. A node is asked to leave only when a check found a
  leader and all five peers and no node was asked to leave or ended since; it is terminated only
  right after a check that found a leader and four peers, whose calls are the last before it, and
  nothing else of the execution terminates. An execution that succeeds leaves the cluster with
  a leader and its five peers, as the last check saw it.
\<close>

theorem consul_guarded:
  assumes "recycle_consul E V cache cluster (s :: world) = (r, t)"
  shows "(calls t = calls s @ a @ c # b \<longrightarrow>
      (terminated_by c \<noteq> [] \<longrightarrow> just_healthy E (cluster_address E cluster) (PInt 4) (calls s @ a)) \<and>
      (asks_to_leave c \<longrightarrow> rested E (cluster_address E cluster) (calls s @ a))) \<and>
    (r = Inr () \<longrightarrow> rested E (cluster_address E cluster) (calls t))"
proof -
  have success: "r = Inr () \<Longrightarrow> follows E cluster True s t"
    using wp_Inr [OF recycle_consul_follows, of E V cache cluster s _ t] assms by auto
  then have "follows E cluster False s t"
    using wp_Inl [OF recycle_consul_follows, of E V cache cluster s _ t] assms by (cases r) (auto intro: follows_mono)
  then obtain new where "calls t = calls s @ new" "guarded E (cluster_address E cluster) (calls s) new"
    by (auto simp: follows_def stage_def)
  then have "guarded E (cluster_address E cluster) (calls s) (a @ c # b)" if "calls t = calls s @ a @ c # b"
    using that by simp
  with success show ?thesis by (auto simp: guarded_append follows_def)
qed

section \<open>A cluster with two nodes\<close>

text \<open>
  It counts five peers, and four from the moment that a node is asked to leave to its end.
\<close>

definition leaves_minus_ends :: "call list \<Rightarrow> int" where
  "leaves_minus_ends h = sum_list (map (\<lambda>e. case e of Leave _ \<Rightarrow> 1 | End _ \<Rightarrow> - 1) (node_events h))"

definition peers_value :: "call list \<Rightarrow> pyval" where
  "peers_value h = PList (replicate (if leaves_minus_ends h = 0 then 5 else 4) (PStr ''10.0.0.1:8300''))"

definition sample_site :: env where
  "sample_site = \<lparr>reply = (\<lambda>h c. case c of
       UrlOpen u \<Rightarrow>
         Inr (PStr (if u = ''https://consul-prod.prod.mdtp:8501/v1/status/leader'' then CHR 0x22 # ''10.0.0.1:8300'' @ [CHR 0x22]
           else if u = ''https://consul-prod.prod.mdtp:8501/v1/agent/members'' then json_text sample_members
           else json_text (peers_value h)))
     | DescribeInstancesByIp _ \<Rightarrow> Inr (PDict [(''Reservations'', PList [PDict [(''Instances'',
          PList [sample_host ''i-leader'' ''10.0.0.1'', sample_host ''i-other'' ''10.0.0.2''])]])])
     | _ \<Rightarrow> Inr (PDict [])),
     environ = map_of [(''environment'', ''prod'')]\<rparr>"

definition sample_variables :: consul_variables where
  "sample_variables = \<lparr>tf_channel = ''recycles'', tf_error_channel = ''alerts'', tf_acl_token_arn = ''arn''\<rparr>"

abbreviation (input) sample_cache :: "call list \<Rightarrow> string option" where
  "sample_cache h \<equiv> None"

definition check_calls :: "call list" where
  "check_calls = [UrlOpen ''https://consul-prod.prod.mdtp:8501/v1/status/leader'',
     UrlOpen ''https://consul-prod.prod.mdtp:8501/v1/status/peers'']"

lemma sample_context: "cert_cache s = None \<Longrightarrow> get_ssl_context sample_site s = (Inr (), s)"
  by (simp add: get_ssl_context_def cert_path_def cached_path_def io_eval truthy_def cert_parameter_arn_def sample_site_def)

lemma sample_address: "get_consul_host sample_site (PDict (cluster_event ''prod'' ex)) = Inr ''https://consul-prod.prod.mdtp:8501''"
  by (simp add: get_consul_host_PDict consul_address_def cluster_event_def os_getenv_def sample_site_def)

lemma sample_check:
  assumes "wanted_peers ex = PInt (if leaves_minus_ends (calls s) = 0 then 5 else 4)"
  shows "\<exists>doc. check_health sample_site sample_cache ''prod'' ex s = (Inr doc, s\<lparr>calls := calls s @ check_calls\<rparr>)"
proof -
  have peers: "json_loads (json_text (peers_value h)) = Inr (peers_value h)" for h
    by (rule loads_text) (simp add: peers_value_def list_all_iff)
  have leader: "unquote (CHR 0x22 # ''10.0.0.1:8300'' @ [CHR 0x22]) = ''10.0.0.1:8300''"
    by (simp add: unquote_def str_strip_def is_space_def)
  have expected: "(case map_of (cluster_event ''prod'' ex) ''expectedPeers'' of None \<Rightarrow> PInt 5 | Some v \<Rightarrow> v) = wanted_peers ex"
    by (simp add: wanted_peers_def cluster_event_def split: option.splits)
  have replies: "reply sample_site h (UrlOpen ''https://consul-prod.prod.mdtp:8501/v1/status/leader'') = Inr (PStr (CHR 0x22 # ''10.0.0.1:8300'' @ [CHR 0x22]))"
    "reply sample_site h (UrlOpen ''https://consul-prod.prod.mdtp:8501/v1/status/peers'') = Inr (PStr (json_text (peers_value h)))" for h
    by (simp_all add: sample_site_def)
  have same: "peers_value (h @ [UrlOpen u]) = peers_value h" for h u
    by (simp add: peers_value_def leaves_minus_ends_def)
  have "py_len (peers_value (calls s)) = Inr (if leaves_minus_ends (calls s) = 0 then 5 else 4)"
    by (simp add: peers_value_def)
  then have "\<exists>doc. health_checks sample_site ''https://consul-prod.prod.mdtp:8501'' (wanted_peers ex) u =
      (Inr doc, u\<lparr>calls := calls u @ check_calls\<rparr>)" if "calls u = calls s" for u :: consul_world
    using that assms replies peers leader same
    by (simp add: health_checks_def read_url_def io_eval Let_def check_calls_def)
  from this [of "\<lparr>calls = calls s, cert_cache = None\<rparr>"]
  obtain doc where "health_checks sample_site ''https://consul-prod.prod.mdtp:8501'' (wanted_peers ex) \<lparr>calls = calls s, cert_cache = None\<rparr> =
      (Inr doc, \<lparr>calls = calls s @ check_calls, cert_cache = None\<rparr>)" by auto
  then show ?thesis
    by (simp add: check_health_def in_container_def health_lambda_handler_def sample_address expected io_eval sample_context)
qed

lemma retry_first: "m s = (Inr x, t) \<Longrightarrow> retry n d m s = (Inr x, t)"
  by (cases n) (simp_all add: io_catch_def)

definition node_calls_of :: "string \<Rightarrow> call list" where
  "node_calls_of i =
     [SsmSendCommand (PDict [(''DocumentName'', PStr ''AWS-RunShellScript''), (''InstanceIds'', PList [PStr i]),
        (''Parameters'', PDict [(''commands'', PList (map PStr (leave_commands sample_variables)))])]), Sleep 120] @
     check_calls @ [TerminateInstances (PStr i), Sleep 300] @ check_calls"

lemma leaves_minus_ends_append: "leaves_minus_ends (a @ b) = leaves_minus_ends a + leaves_minus_ends b"
  by (simp add: leaves_minus_ends_def)

lemma leaves_minus_ends_steps:
  "leaves_minus_ends check_calls = 0" "leaves_minus_ends [Sleep n] = 0" "leaves_minus_ends [TerminateInstances v] = - 1"
  "leaves_minus_ends (node_calls_of i) = 0"
  by (simp_all add: leaves_minus_ends_def check_calls_def node_calls_of_def py_item_PDict)

lemma sample_node:
  assumes "leaves_minus_ends (calls s) = 0" and "i \<noteq> []"
  shows "\<exists>doc. recycle_node sample_site sample_variables sample_cache ''prod'' (node_json (a, i)) s =
    (Inr doc, s\<lparr>calls := calls s @ node_calls_of i\<rparr>)"
proof -
  let ?leave = "SsmSendCommand (PDict [(''DocumentName'', PStr ''AWS-RunShellScript''), (''InstanceIds'', PList [PStr i]),
      (''Parameters'', PDict [(''commands'', PList (map PStr (leave_commands sample_variables)))])])"
  let ?h1 = "calls s @ [?leave, Sleep 120]" and ?h2 = "calls s @ [?leave, Sleep 120] @ check_calls @ [TerminateInstances (PStr i), Sleep 300]"
  have quiet: "\<exists>v. reply sample_site h (SsmSendCommand w) = Inr v" "reply sample_site h (TerminateInstances w) = Inr (PDict [])" for h w
    by (simp_all add: sample_site_def)
  have "leaves_minus_ends [?leave, Sleep 120] = 1" by (simp add: leaves_minus_ends_def py_item_PDict)
  then have away: "wanted_peers [(''expectedPeers'', PInt 4)] = PInt (if leaves_minus_ends ?h1 = 0 then 5 else 4)"
    and home: "wanted_peers [] = PInt (if leaves_minus_ends ?h2 = 0 then 5 else 4)"
    using assms(1) leaves_minus_ends_append [of "calls s" "[?leave, Sleep 120]"]
      leaves_minus_ends_append [of "[?leave, Sleep 120]" "check_calls @ [TerminateInstances (PStr i), Sleep 300]"]
    by (simp_all add: wanted_peers_def leaves_minus_ends_append leaves_minus_ends_def check_calls_def py_item_PDict)
  obtain w where leave: "graceful_leave sample_site sample_variables (PStr i) s = (Inr w, s\<lparr>calls := calls s @ [?leave]\<rparr>)"
    using quiet(1) by (fastforce simp: graceful_leave_def request_def)
  obtain d1 where 1: "check_health sample_site sample_cache ''prod'' [(''expectedPeers'', PInt 4)] (s\<lparr>calls := ?h1\<rparr>) =
      (Inr d1, s\<lparr>calls := ?h1 @ check_calls\<rparr>)"
    using sample_check [of "[(''expectedPeers'', PInt 4)]" "s\<lparr>calls := ?h1\<rparr>"] away by auto
  obtain d2 where 2: "check_health sample_site sample_cache ''prod'' [] (s\<lparr>calls := ?h2\<rparr>) = (Inr d2, s\<lparr>calls := ?h2 @ check_calls\<rparr>)"
    using sample_check [of "[]" "s\<lparr>calls := ?h2\<rparr>"] home by auto
  obtain d3 where 3: "terminate_lambda_handler sample_site (PDict [(''instanceId'', PStr i)]) (s\<lparr>calls := ?h1 @ check_calls\<rparr>) =
      (Inr d3, s\<lparr>calls := (?h1 @ check_calls) @ [TerminateInstances (PStr i)]\<rparr>)"
    using assms(2) quiet(2) by (simp add: terminate_lambda_handler_def io_eval)
  show ?thesis
    using leave 3 retry_first [of "check_health sample_site sample_cache ''prod'' [(''expectedPeers'', PInt 4)]", OF 1, of 4 120]
      retry_first [of "check_health sample_site sample_cache ''prod'' []", OF 2, of 6 180]
    by (simp add: recycle_node_def node_json_def py_item_PDict io_then_def io_bind_def io_res_def io_sleep_def log_call_def node_calls_of_def)
qed

lemma sample_listing:
  "nodes_lambda_handler sample_site (PDict (cluster_event ''prod'' [])) \<lparr>calls = h, cert_cache = None\<rparr> =
     (Inr (PDict [(''instanceList'', PList (map node_json [(''10.0.0.2'', ''i-other''), (''10.0.0.1'', ''i-leader'')]))]),
      \<lparr>calls = h @ node_calls ''https://consul-prod.prod.mdtp:8501'' [''10.0.0.2'', ''10.0.0.1''], cert_cache = None\<rparr>)"
proof -
  let ?host = "''https://consul-prod.prod.mdtp:8501''"
  have members: "json_loads (json_text sample_members) = Inr sample_members"
    by (rule loads_text) (simp add: sample_members_def)
  have leader: "unquote (CHR 0x22 # ''10.0.0.1:8300'' @ [CHR 0x22]) = ''10.0.0.1:8300''"
    by (simp add: unquote_def str_strip_def is_space_def)
  have found: "find_nodes sample_site ?host \<lparr>calls = h, cert_cache = None\<rparr> =
     (Inr (PDict [(''instanceList'', PList (map node_json [(''10.0.0.2'', ''i-other''), (''10.0.0.1'', ''i-leader'')]))]),
      \<lparr>calls = h @ node_calls ?host [''10.0.0.2'', ''10.0.0.1''], cert_cache = None\<rparr>)"
    using members leader
    by (simp add: find_nodes_def read_url_def io_eval Let_def sample_site_def sample_members_def leader_last_def py_item_PDict
        sample_host_def need_hashable_def hashable_def instance_list_def node_json_def node_calls_def)
  show ?thesis
    using found by (simp add: nodes_lambda_handler_def nodes_copies sample_address io_eval sample_context)
qed

lemma sample_recycle_run:
  "\<exists>t. recycle_consul sample_site sample_variables sample_cache ''prod'' fresh_world = (Inr (), t) \<and>
     node_events (calls t) = [Leave (PStr ''i-other''), End (PStr ''i-other''), Leave (PStr ''i-leader''), End (PStr ''i-leader'')]"
proof -
  let ?listed = "node_calls ''https://consul-prod.prod.mdtp:8501'' [''10.0.0.2'', ''10.0.0.1'']"
  have notify: "notify sample_site v s = (Inr (PDict []), s\<lparr>calls := calls s @ [SlackNotification v]\<rparr>)" for v and s :: world
    by (simp add: notify_def request_def sample_site_def)
  have health: "retry 4 120 (initial_check sample_site sample_cache ''prod'' (PDict [])) s = (Inr (), s\<lparr>calls := calls s @ check_calls\<rparr>)"
    if "leaves_minus_ends (calls s) = 0" for s :: world
  proof -
    from that have "wanted_peers [] = PInt (if leaves_minus_ends (calls s) = 0 then 5 else 4)" by (simp add: wanted_peers_def)
    from sample_check [OF this] have "initial_check sample_site sample_cache ''prod'' (PDict []) s = (Inr (), s\<lparr>calls := calls s @ check_calls\<rparr>)"
      by (auto simp: initial_check_def io_then_def io_bind_def io_res_def need_object_def is_dict_def)
    then show ?thesis by (rule retry_first)
  qed
  let ?h1 = "[SlackNotification (notification ''Auto-recycling was successfully initiated'' (tf_channel sample_variables) ''good''
       (control_plane ''prod'' '' was successfully initiated''))]"
  let ?h2 = "(?h1 @ check_calls) @ ?listed" and ?w = "\<lambda>h. \<lparr>calls = h\<rparr> :: world"
  have zero: "leaves_minus_ends ?h1 = 0" "leaves_minus_ends ?listed = 0"
    by (simp_all add: leaves_minus_ends_def node_calls_def)
  have even: "leaves_minus_ends (calls (?w ?h2)) = 0" "leaves_minus_ends (calls (?w (?h2 @ node_calls_of ''i-other''))) = 0"
    unfolding world.simps leaves_minus_ends_append zero leaves_minus_ends_steps by simp_all
  have 1: "retry 4 120 (initial_check sample_site sample_cache ''prod'' (PDict [])) (?w ?h1) = (Inr (), ?w (?h1 @ check_calls))"
    using health [of "?w ?h1"] zero by auto
  obtain d2 where 2: "recycle_node sample_site sample_variables sample_cache ''prod'' (node_json (''10.0.0.2'', ''i-other'')) (?w ?h2) =
      (Inr d2, ?w (?h2 @ node_calls_of ''i-other''))"
    using sample_node [OF even(1), of "''i-other''" "''10.0.0.2''"] by auto
  obtain d3 where 3: "recycle_node sample_site sample_variables sample_cache ''prod'' (node_json (''10.0.0.1'', ''i-leader''))
      (?w (?h2 @ node_calls_of ''i-other'')) = (Inr d3, ?w ((?h2 @ node_calls_of ''i-other'') @ node_calls_of ''i-leader''))"
    using sample_node [OF even(2), of "''i-leader''" "''10.0.0.1''"] by auto
  have nodes: "in_container sample_cache (nodes_lambda_handler sample_site (PDict (cluster_event ''prod'' []))) (?w h) =
      (Inr (PDict [(''instanceList'', PList (map node_json [(''10.0.0.2'', ''i-other''), (''10.0.0.1'', ''i-leader'')]))]),
       ?w (h @ ?listed))" for h
    by (simp add: in_container_def sample_listing)
  have "main_flow sample_site sample_variables sample_cache ''prod'' fresh_world =
      (Inr (), ?w (((?h2 @ node_calls_of ''i-other'') @ node_calls_of ''i-leader'') @
        [SlackNotification (notification ''Auto-recycling the consul cluster has completed'' (tf_channel sample_variables) ''good''
          (control_plane ''prod'' '' was successfully completed''))]))"
    using 1 2 3 by (simp add: main_flow_def notify nodes io_then_def io_bind_def io_res_def io_return_def fresh_world_def
        need_list_def py_item_PDict)
  then show ?thesis
    by (simp add: recycle_consul_def io_catch_def node_calls_of_def check_calls_def node_calls_def py_item_PDict)
qed

lemma consul_rolling_witness:
  "\<exists>t ids. recycle_consul sample_site sample_variables sample_cache ''prod'' fresh_world = (Inr (), t) \<and>
     told_nodes sample_site ''prod'' fresh_world t ids \<and>
     rolling ids None [Leave (PStr ''i-other''), End (PStr ''i-other''), Leave (PStr ''i-leader''), End (PStr ''i-leader'')] [] None"
proof -
  obtain t where run: "recycle_consul sample_site sample_variables sample_cache ''prod'' fresh_world = (Inr (), t)"
    and events: "node_events (calls t) =
      [Leave (PStr ''i-other''), End (PStr ''i-other''), Leave (PStr ''i-leader''), End (PStr ''i-leader'')]"
    using sample_recycle_run by blast
  from consul_rolling [OF run] events run show ?thesis by (auto simp: fresh_world_def)
qed

lemma node_event_End: "End v \<in> set (node_events cs) \<Longrightarrow> \<exists>c \<in> set cs. terminated_by c = [v]"
proof -
  assume "End v \<in> set (node_events cs)"
  then obtain c where c: "c \<in> set cs" "End v \<in> set (node_event_of c)" by (auto simp: node_events_def)
  from c(2) have "terminated_by c = [v]"
    by (cases c rule: node_event_of.cases) (auto split: sum.splits pyval.splits)
  with c(1) show ?thesis by blast
qed

lemma consul_guarded_witness:
  "\<exists>t a c b. recycle_consul sample_site sample_variables sample_cache ''prod'' fresh_world = (Inr (), t) \<and>
     calls t = a @ c # b \<and> terminated_by c = [PStr ''i-other''] \<and>
     just_healthy sample_site (cluster_address sample_site ''prod'') (PInt 4) a \<and>
     rested sample_site (cluster_address sample_site ''prod'') (calls t)"
proof -
  obtain t where run: "recycle_consul sample_site sample_variables sample_cache ''prod'' fresh_world = (Inr (), t)"
    and "End (PStr ''i-other'') \<in> set (node_events (calls t))"
    using sample_recycle_run by auto
  then obtain c where c: "c \<in> set (calls t)" "terminated_by c = [PStr ''i-other'']" using node_event_End by blast
  then obtain a b where split: "calls t = a @ c # b" by (meson split_list)
  then have "calls t = calls fresh_world @ a @ c # b" by (simp add: fresh_world_def)
  from consul_guarded [OF run, of a c b] this c(2) split run show ?thesis by (auto simp: fresh_world_def)
qed

end
