(* ===== verification/ConsulTime.thy ===== *)
theory ConsulTime
  imports ConsulRolling
begin

text \<open>
  How long an execution of \<open>recycle_consul_agents\<close> waits: the intervals of the retries and the pauses,
  by a weight of the calls that a computation can only raise by a known amount.
\<close>

section \<open>Weights\<close>

definition weight :: "(call \<Rightarrow> int) \<Rightarrow> call list \<Rightarrow> int" where
  "weight w cs = sum_list (map w cs)"

lemma weight_simps [simp]:
  "weight w [] = 0" "weight w (c # cs) = w c + weight w cs" "weight w (a @ b) = weight w a + weight w b"
  by (simp_all add: weight_def)

definition costs :: "(call \<Rightarrow> int) \<Rightarrow> ('z world_scheme, 'a) io \<Rightarrow> int \<Rightarrow> bool" where
  "costs w m n = (\<forall>s. weight w (calls (snd (m s))) \<le> weight w (calls s) + n)"

lemma costsD: "costs w m n \<Longrightarrow> m s = (r, t) \<Longrightarrow> weight w (calls t) \<le> weight w (calls s) + n"
  unfolding costs_def by (metis snd_conv)

lemma costsI: "(\<And>s r t. m s = (r, t) \<Longrightarrow> weight w (calls t) \<le> weight w (calls s) + n) \<Longrightarrow> costs w m n"
  unfolding costs_def by (metis prod.collapse)

lemma costs_free:
  assumes "footprint m {c. w c \<le> 0}"
  shows "costs w m 0"
proof (rule costsI)
  fix s r t assume "m s = (r, t)"
  with footprintD [OF assms, of s] obtain cs where "calls t = calls s @ cs" "set cs \<subseteq> {c. w c \<le> 0}" by (auto simp: extends_def)
  moreover from this(2) have "weight w cs \<le> 0" by (induction cs) auto
  ultimately show "weight w (calls t) \<le> weight w (calls s) + 0" by simp
qed

lemma costs_bind:
  assumes "costs w m a" and "\<And>x. costs w (f x) b" and "0 \<le> b"
  shows "costs w (io_bind m f) (a + b)"
proof (rule costsI)
  fix s r t assume run: "io_bind m f s = (r, t)"
  obtain q u where u: "m s = (q, u)" by fastforce
  from costsD [OF assms(1) u] have m: "weight w (calls u) \<le> weight w (calls s) + a" .
  show "weight w (calls t) \<le> weight w (calls s) + (a + b)"
  proof (cases q)
    case (Inl e)
    with run u m assms(3) show ?thesis by (simp add: io_bind_def)
  next
    case (Inr x)
    with run u have "f x u = (r, t)" by (simp add: io_bind_def)
    from costsD [OF assms(2) this] m show ?thesis by simp
  qed
qed

lemma costs_then: "costs w m a \<Longrightarrow> costs w k b \<Longrightarrow> 0 \<le> b \<Longrightarrow> costs w (io_then m k) (a + b)"
  unfolding io_then_def by (rule costs_bind)

lemma costs_catch:
  assumes "costs w m a" and "\<And>e. costs w (h e) b" and "0 \<le> b"
  shows "costs w (io_catch m h) (a + b)"
proof (rule costsI)
  fix s r t assume run: "io_catch m h s = (r, t)"
  obtain q u where u: "m s = (q, u)" by fastforce
  from costsD [OF assms(1) u] have m: "weight w (calls u) \<le> weight w (calls s) + a" .
  show "weight w (calls t) \<le> weight w (calls s) + (a + b)"
  proof (cases q)
    case (Inl e)
    with run u have "h e u = (r, t)" by (simp add: io_catch_def)
    from costsD [OF assms(2) this] m show ?thesis by simp
  next
    case (Inr x)
    with run u m assms(3) show ?thesis by (simp add: io_catch_def)
  qed
qed

lemma costs_pure: "costs w (io_res r) 0" "costs w (io_return x) 0" "costs w (io_raise e) 0"
  by (auto simp: costs_def io_res_def io_return_def io_raise_def)

lemma costs_map:
  assumes "\<And>x. costs w (f x) 0"
  shows "costs w (io_map f xs) 0"
proof (induction xs)
  case (Cons x xs)
  then have "costs w (io_bind (io_map f xs) (\<lambda>ys. io_return (y # ys))) (0 + 0)" for y
    by (rule costs_bind) (auto intro: costs_pure)
  then have "costs w (io_bind (io_map f xs) (\<lambda>ys. io_return (y # ys))) 0" for y by simp
  from costs_bind [OF assms this] show ?case by simp
qed (simp add: costs_pure)

lemma costs_sleep: "costs w (io_sleep n) (w (Sleep n))"
  by (simp add: costs_def io_sleep_def log_call_def)

text \<open>The retries of a check that costs nothing: the intervals double, so they add up to a power of 2.\<close>

lemma costs_retry:
  assumes "costs w m 0" and "\<And>k. w (Sleep k) = k" and "0 \<le> d"
  shows "costs w (retry n d m) (d * (2 ^ n - 1))"
  using assms(3)
proof (induction n arbitrary: d)
  case (Suc n)
  have "costs w (io_then (io_sleep d) (retry n (2 * d) m)) (w (Sleep d) + 2 * d * (2 ^ n - 1))"
    by (rule costs_then [OF costs_sleep Suc.IH]) (use Suc.prems in auto)
  then have "costs w (retry (Suc n) d m) (0 + (w (Sleep d) + 2 * d * (2 ^ n - 1)))"
    unfolding retry.simps by (intro costs_catch [OF assms(1)]) (use Suc.prems assms(2) in auto)
  then show ?case by (simp add: assms(2) algebra_simps)
qed (simp add: assms(1))


section \<open>Waiting for a node\<close>

text \<open>
  A wait counts for itself, and asking a node to leave for what is then waited at most: 2 minutes, 4
  retries from 2 minutes on, 5 minutes, and 6 retries from 3 minutes on, 13560 seconds in all.
\<close>

definition waiting :: "call \<Rightarrow> int" where
  "waiting c = slept_by c - 13560 * (if asks_to_leave c then 1 else 0)"

lemma looking_free: "looking \<subseteq> {c. waiting c \<le> 0}"
  by (auto simp: looking_def unseen_def waiting_def asks_to_leave_def)

lemma check_costs: "0 \<le> d \<Longrightarrow> costs waiting (retry n d (check_health E cache cluster ex)) (d * (2 ^ n - 1))"
  unfolding check_health_def
  by (rule costs_retry [OF costs_free [OF footprint_mono [OF health_reader.contained looking_free]]])
    (simp_all add: waiting_def asks_to_leave_def)

lemma initial_costs: "0 \<le> d \<Longrightarrow> costs waiting (retry n d (initial_check E cache cluster doc)) (d * (2 ^ n - 1))"
  unfolding initial_check_def
  using costs_then [OF check_costs [of 0 0] costs_pure(1)]
  by (intro costs_retry) (simp_all add: waiting_def asks_to_leave_def)

lemma pause_costs: "costs waiting (io_sleep n) n"
  using costs_sleep [of waiting n] by (simp add: waiting_def asks_to_leave_def)

lemma terminate_costs: "costs waiting (terminate_lambda_handler E event) 0"
  by (rule costs_free)
    (auto simp: terminate_lambda_handler_def waiting_def asks_to_leave_def intro!: footprint_intros)

lemma leave_costs: "costs waiting (graceful_leave E V v) (- 13560)"
  by (simp add: costs_def graceful_leave_def request_def waiting_def asks_to_leave_def py_item_PDict)

lemma notify_costs: "costs waiting (notify E v) 0"
  by (rule costs_free) (auto simp: notify_def waiting_def asks_to_leave_def intro!: footprint_intros)

lemma node_costs: "costs waiting (recycle_node E V cache cluster item) 0"
proof -
  have 1: "costs waiting (io_then (io_sleep 300) (retry 6 180 (check_health E cache cluster []))) (300 + 11340)"
    using check_costs [of 180 6 E cache cluster "[]"] by (intro costs_then [OF pause_costs]) simp_all
  have 2: "costs waiting (io_then (retry 4 120 (check_health E cache cluster [(''expectedPeers'', PInt 4)]))
      (io_then (terminate_lambda_handler E ev) (io_then (io_sleep 300) (retry 6 180 (check_health E cache cluster [])))))
      (1800 + (0 + (300 + 11340)))" for ev
    using check_costs [of 120 4 E cache cluster "[(''expectedPeers'', PInt 4)]"]
    by (intro costs_then [OF _ costs_then [OF terminate_costs 1]]) simp_all
  have 3: "costs waiting (io_then (graceful_leave E V iid) (io_then (io_sleep 120)
      (io_then (retry 4 120 (check_health E cache cluster [(''expectedPeers'', PInt 4)]))
      (io_then (terminate_lambda_handler E ev) (io_then (io_sleep 300) (retry 6 180 (check_health E cache cluster []))))))) 0"
    for iid ev
    using costs_then [OF leave_costs costs_then [OF pause_costs [of 120] 2], of E V iid ev] by simp
  show ?thesis
    unfolding recycle_node_def
    using costs_then [OF costs_pure(1) costs_bind [OF costs_pure(1) 3]] by simp
qed

lemma list_costs: "costs waiting (in_container cache (nodes_lambda_handler E ev)) 0"
  by (rule costs_free [OF footprint_mono [OF nodes_reader.contained looking_free]])

lemma main_flow_costs: "costs waiting (main_flow E V cache cluster) 1800"
proof -
  have rest: "costs waiting (io_bind (in_container cache (nodes_lambda_handler E ev)) (\<lambda>nodes.
      io_bind (io_res (g nodes)) (\<lambda>items. io_then (io_map (recycle_node E V cache cluster) items)
        (io_then (notify E v) (io_return ()))))) (0 + (0 + (0 + (0 + 0))))" for g v ev
    by (intro costs_bind [OF list_costs] costs_bind [OF costs_pure(1)] costs_then [OF costs_map [OF node_costs]]
        costs_then [OF notify_costs] costs_pure) simp_all
  have "costs waiting (main_flow E V cache cluster) (0 + (120 * (2 ^ 4 - 1) + (0 + (0 + (0 + (0 + 0))))))"
    unfolding main_flow_def
    by (intro costs_bind [OF notify_costs] costs_then [OF initial_costs] rest) simp_all
  then show ?thesis by simp
qed

text \<open>
  C28. An execution waits for a bounded time: at most 30 minutes for the first check, and 13560
  seconds, less than 4 hours, for each node that it asks to leave, failed checks included.
\<close>

theorem consul_waits:
  assumes "recycle_consul E V cache cluster (s :: world) = (r, t)" and "calls t = calls s @ new"
  shows "slept new \<le> 1800 + 13560 * int (length (filter asks_to_leave new))"
proof -
  have "costs waiting (recycle_consul E V cache cluster :: (world, unit) io) (1800 + (0 + 0))"
    unfolding recycle_consul_def
    by (intro costs_catch [OF main_flow_costs] costs_then [OF notify_costs] costs_pure) simp_all
  from costsD [OF this assms(1)] assms(2) have "weight waiting new \<le> 1800" by simp
  moreover have "weight waiting cs = slept cs - 13560 * int (length (filter asks_to_leave cs))" for cs
    by (induction cs) (auto simp: waiting_def)
  ultimately show ?thesis by simp
qed


lemma consul_waits_witness:
  "\<exists>t. recycle_consul sample_site sample_variables sample_cache ''prod'' fresh_world = (Inr (), t) \<and>
     slept (calls t) \<le> 1800 + 13560 * int (length (filter asks_to_leave (calls t)))"
proof -
  obtain t where run: "recycle_consul sample_site sample_variables sample_cache ''prod'' fresh_world = (Inr (), t)"
    using sample_recycle_run by auto
  from consul_waits [OF run, of "calls t"] run show ?thesis by (simp add: fresh_world_def)
qed

end
