(* ===== verification/ScaleASG.thy ===== *)
theory ScaleASG
  imports Asg AutorecycleSqs
begin

text \<open>
  The Lambda that recycles a component one instance at a time by scaling its groups out and in,
  \<open>autorecycle_scale_asg/\<close>: its event and output, the groups of a component, the next scaling
  action, and the handler.

  The classes of \<open>lambda_types.py\<close> are pydantic models. A field of the record \<open>Event\<close> is \<open>None\<close>
  while it is unset and \<open>Some v\<close> once it is set, which is what \<open>model_dump(exclude_unset=True)\<close>
  looks at; reading an unset field gives its default. \<open>Event.model_validate\<close>, pydantic's
  validation, is a parameter, as is the \<open>re\<close> library for component names that are not plain text.
\<close>

section \<open>The event: \<open>lambda_types.py\<close>\<close>

record Event =
  ev_channels :: "pyval option"
  ev_component :: "pyval option"
  ev_counter :: "pyval option"
  ev_emoji :: "pyval option"
  ev_exception_repr :: "pyval option"
  ev_message_content :: "pyval option"
  ev_monitoring_slack_channel :: "pyval option"
  ev_pager_duty_description :: "pyval option"
  ev_pager_duty_event_type :: "pyval option"
  ev_notify_pager_duty :: "pyval option"
  ev_recycle_success :: "pyval option"
  ev_status :: "pyval option"
  ev_success_channel :: "pyval option"
  ev_team :: "pyval option"
  ev_text_line :: "pyval option"
  ev_username :: "pyval option"

definition unset_event :: Event where
  "unset_event = \<lparr>ev_channels = None, ev_component = None, ev_counter = None, ev_emoji = None, ev_exception_repr = None,
     ev_message_content = None, ev_monitoring_slack_channel = None, ev_pager_duty_description = None,
     ev_pager_duty_event_type = None, ev_notify_pager_duty = None, ev_recycle_success = None, ev_status = None,
     ev_success_channel = None, ev_team = None, ev_text_line = None, ev_username = None\<rparr>"

text \<open>Reading a field: its value, or its default while it is unset.\<close>

definition field_or :: "pyval \<Rightarrow> pyval option \<Rightarrow> pyval" where
  "field_or dflt v = (case v of None \<Rightarrow> dflt | Some x \<Rightarrow> x)"

definition monitoring_channel :: "Event \<Rightarrow> pyval" where
  "monitoring_channel event = field_or (PStr ''team-infra-alerts'') (ev_monitoring_slack_channel event)"

text \<open>\<open>Event.MessageContent(color, fields, text)\<close>, as its dump; \<open>fields\<close> may be left unset.\<close>

definition MessageContent :: "string \<Rightarrow> pyval option \<Rightarrow> string \<Rightarrow> pyval" where
  "MessageContent color flds txt =
     PDict ([(''color'', PStr color)] @ (case flds of None \<Rightarrow> [] | Some v \<Rightarrow> [(''fields'', v)]) @ [(''text'', PStr txt)])"

definition dump_fields :: "Event \<Rightarrow> (string \<times> pyval option) list" where
  "dump_fields e =
     [(''channels'', ev_channels e), (''component'', ev_component e), (''counter'', ev_counter e), (''emoji'', ev_emoji e),
      (''exception'', ev_exception_repr e), (''message_content'', ev_message_content e),
      (''monitoring_slack_channel'', ev_monitoring_slack_channel e),
      (''pager_duty_description'', ev_pager_duty_description e), (''pager_duty_event_type'', ev_pager_duty_event_type e),
      (''notify_pager_duty'', ev_notify_pager_duty e), (''recycle_success'', ev_recycle_success e), (''status'', ev_status e),
      (''success_channel'', ev_success_channel e), (''team'', ev_team e), (''text'', ev_text_line e), (''username'', ev_username e)]"

definition model_dump :: "Event \<Rightarrow> pyval" where
  "model_dump e = PDict (List.map_filter (\<lambda>(k, v). map_option (Pair k) v) (dump_fields e))"

section \<open>The groups of a component: \<open>autoscaling.py\<close>\<close>

text \<open>
  A component name is compiled into a regular expression. A name of letters, digits, underscores
  and hyphens stands for itself there, so the match is written out; any other pattern is left
  to the parameter \<open>compile\<close>, which gives \<open>re.compile(pattern).match\<close> or raises.
\<close>

definition plain_char :: "char \<Rightarrow> bool" where
  "plain_char c = (let n = (of_char c :: nat) in
     (48 \<le> n \<and> n \<le> 57) \<or> (65 \<le> n \<and> n \<le> 90) \<or> (97 \<le> n \<and> n \<le> 122) \<or> c = CHR ''_'' \<or> c = CHR ''-'')"

definition id_char :: "char \<Rightarrow> bool" where
  "id_char c = (let n = (of_char c :: nat) in (48 \<le> n \<and> n \<le> 57) \<or> (97 \<le> n \<and> n \<le> 122))"

definition drop_prefix :: "string \<Rightarrow> string \<Rightarrow> string option" where
  "drop_prefix p s = (if prefix p s then Some (drop (length p) s) else None)"

text \<open>\<open>-asg-\<close> and then lower case letters and digits up to \<open>$\<close>, which also stands before a last newline.\<close>

definition asg_ending :: "string \<Rightarrow> bool" where
  "asg_ending s =
     (case drop_prefix ''-asg-'' s of
        None \<Rightarrow> False
      | Some t \<Rightarrow>
          let body = (if t \<noteq> [] \<and> last t = CHR 0x0A then butlast t else t)
          in body \<noteq> [] \<and> list_all id_char body)"

definition literal_match :: "string \<Rightarrow> bool \<Rightarrow> string \<Rightarrow> bool" where
  "literal_match component_name suffixed name =
     (if suffixed
      then list_ex (\<lambda>az. case drop_prefix (component_name @ az) name of None \<Rightarrow> False | Some s \<Rightarrow> asg_ending s)
             [''_a'', ''_b'', ''_c'']
      else (case drop_prefix component_name name of None \<Rightarrow> False | Some s \<Rightarrow> asg_ending s))"

definition asg_pattern :: "string \<Rightarrow> bool \<Rightarrow> string" where
  "asg_pattern component_name suffixed =
     ''(^'' @ component_name @ '')'' @ (if suffixed then ''(?:_[abc])'' else []) @ ''-asg-[a-z'' @ [CHR 0x5C] @ ''d]+$''"

definition asg_matcher :: "(string \<Rightarrow> (string \<Rightarrow> bool) res) \<Rightarrow> string \<Rightarrow> bool \<Rightarrow> (string \<Rightarrow> bool) res" where
  "asg_matcher compile component_name suffixed =
     (if list_all plain_char component_name then Inr (literal_match component_name suffixed)
      else compile (asg_pattern component_name suffixed))"

definition matching_groups ::
    "(string \<Rightarrow> (string \<Rightarrow> bool) res) \<Rightarrow> string \<Rightarrow> pyval list \<Rightarrow> pyval list res" where
  "matching_groups compile component_name_maybe_with_az_suffix auto_scaling_groups =
     (let component_name = re_sub_end az_suffix component_name_maybe_with_az_suffix;
          suffixed = (component_name \<noteq> component_name_maybe_with_az_suffix)
      in res_bind (asg_matcher compile component_name suffixed) (\<lambda>matcher.
         res_bind (res_filter (\<lambda>asg.
             res_bind (py_item asg ''AutoScalingGroupName'') (\<lambda>name.
             res_bind (need_str name (type_error (''expected string or bytes-like object, got '' @ quoted (type_name name)))) (\<lambda>n.
             Inr (matcher n)))) auto_scaling_groups) (\<lambda>matching_asgs.
         if matching_asgs = []
         then Inl (py_exception (''Could not find ASGs matching: `^'' @ component_name @ ''(_[abc])?-asg-[a-z'' @ [CHR 0x5C] @ ''d]+$`.''))
         else Inr matching_asgs)))"

definition describe_asg ::
    "env \<Rightarrow> (string \<Rightarrow> (string \<Rightarrow> bool) res) \<Rightarrow> pyval \<Rightarrow> ('z world_scheme, pyval list) io" where
  "describe_asg E compile component_value =
     io_bind (request E DescribeAutoScalingGroups) (\<lambda>pages.
     io_bind (io_res (all_groups pages)) (\<lambda>auto_scaling_groups.
     io_bind (io_res (need_str component_value
         (type_error (''expected string or bytes-like object, got '' @ quoted (type_name component_value))))) (\<lambda>name.
     io_res (matching_groups compile name auto_scaling_groups))))"

definition execute_scaling_policy :: "env \<Rightarrow> string \<Rightarrow> string \<Rightarrow> ('z world_scheme, pyval) io" where
  "execute_scaling_policy E asg_name policy_name =
     io_catch (request E (ExecutePolicy (PStr asg_name) policy_name)) (\<lambda>e. io_raise e)"

text \<open>\<open>datetime.now() - timedelta\<close>, in microseconds.\<close>

definition date_minus :: "pyval \<Rightarrow> int \<Rightarrow> pyval res" where
  "date_minus d delta =
     (case d of
        PDate aware t \<Rightarrow> Inr (PDate aware (t - delta))
      | _ \<Rightarrow> Inl (type_error (''unsupported operand type(s) for -: '' @ quoted (type_name d) @ '' and '' @ quoted ''datetime.timedelta'')))"

definition minutes :: "int \<Rightarrow> int" where
  "minutes n = n * 60 * 1000000"

definition no_recent_activity :: "string \<Rightarrow> pyval \<Rightarrow> pyval" where
  "no_recent_activity asg_name start =
     PDict [(''ActivityId'', PStr ''.''), (''AutoScalingGroupName'', PStr asg_name), (''Cause'', PStr ''?''),
            (''Progress'', PInt 100), (''StartTime'', start), (''StatusCode'', PStr ''Successful'')]"

definition describe_scaling_activities :: "env \<Rightarrow> string \<Rightarrow> ('z world_scheme, pyval) io" where
  "describe_scaling_activities E asg_name =
     io_bind (request E (DescribeScalingActivities (PStr asg_name) 1)) (\<lambda>response.
     io_bind (io_res (py_item response ''Activities'')) (\<lambda>activities.
     io_bind (io_res (py_len activities)) (\<lambda>n.
     if n = 0
     then
       io_bind (request E ReadClock) (\<lambda>now.
       io_bind (io_res (date_minus now (minutes (6 * 7 * 24 * 60)))) (\<lambda>start.
       io_return (no_recent_activity asg_name start)))
     else io_res (py_index activities 0))))"

section \<open>The next action: \<open>autorecycle.py\<close>\<close>

record NextAsgAction =
  next_asg_name :: string
  next_action :: string

text \<open>Both loops return at the first activity that does not have the value.\<close>

fun all_activities_are :: "string \<Rightarrow> pyval \<Rightarrow> pyval list \<Rightarrow> bool res" where
  "all_activities_are key v [] = Inr True"
| "all_activities_are key v (activity # rest) =
     res_bind (py_get activity key PNone) (\<lambda>x.
     if \<not> py_eq x v then Inr False else all_activities_are key v rest)"

definition get_overall_progress :: "pyval list \<Rightarrow> bool res" where
  "get_overall_progress = all_activities_are ''Progress'' (PInt 100)"

definition get_overall_statuscode :: "pyval list \<Rightarrow> bool res" where
  "get_overall_statuscode = all_activities_are ''StatusCode'' (PStr ''Successful'')"

text \<open>\<open>utc.localize\<close> makes a naive time one of UTC, and raises for a time that has a zone.\<close>

definition utc_localize :: "pyval \<Rightarrow> pyval res" where
  "utc_localize d =
     (case d of
        PDate False t \<Rightarrow> Inr (PDate True t)
      | PDate True t \<Rightarrow> Inl (Exn (LibraryError ''ValueError'') (Some (PStr ''Not naive datetime (tzinfo is already set)'')))
      | _ \<Rightarrow> Inl (no_attribute d ''tzinfo''))"

definition recently_scaled :: "env \<Rightarrow> pyval \<Rightarrow> int \<Rightarrow> ('z world_scheme, bool) io" where
  "recently_scaled E activity min_age =
     io_bind (request E ReadClock) (\<lambda>now.
     io_bind (io_res (res_bind (date_minus now (minutes min_age)) utc_localize)) (\<lambda>lc_age.
     io_bind (io_res (py_in ''EndTime'' activity)) (\<lambda>ended.
     if \<not> ended then io_return False
     else
       io_bind (io_res (py_item activity ''EndTime'')) (\<lambda>end_time.
       io_res (py_lt lc_age end_time)))))"

definition get_launch_template_version :: "pyval \<Rightarrow> string option res" where
  "get_launch_template_version asg_or_instance =
     res_bind (py_in ''LaunchTemplate'' asg_or_instance) (\<lambda>templated.
     if \<not> templated then Inr None
     else
       res_bind (py_item asg_or_instance ''LaunchTemplate'') (\<lambda>template.
       res_bind (py_item template ''Version'') (\<lambda>version.
       Inr (Some (py_str version)))))"

fun first_empty_group :: "pyval list \<Rightarrow> string option res" where
  "first_empty_group [] = Inr None"
| "first_empty_group (asg # asgs) =
     res_bind (py_item asg ''AutoScalingGroupName'') (\<lambda>asg_name.
     res_bind (py_item asg ''Instances'') (\<lambda>instances.
     res_bind (py_len instances) (\<lambda>n.
     if n = 0 then Inr (Some (py_str asg_name)) else first_empty_group asgs)))"

fun instance_to_replace :: "string option \<Rightarrow> bool \<Rightarrow> pyval list \<Rightarrow> bool res" where
  "instance_to_replace asg_version asg_recently_scaled [] = Inr False"
| "instance_to_replace asg_version asg_recently_scaled (inst # rest) =
     res_bind (get_launch_template_version inst) (\<lambda>instance_version.
     res_bind (py_item inst ''InstanceId'') (\<lambda>_.
     if asg_version \<noteq> None \<and> instance_version \<noteq> None \<and> asg_version = instance_version \<and> asg_recently_scaled
     then instance_to_replace asg_version asg_recently_scaled rest
     else Inr True))"

fun first_group_to_shrink :: "env \<Rightarrow> (string \<times> pyval) list \<Rightarrow> pyval list \<Rightarrow> ('z world_scheme, string option) io" where
  "first_group_to_shrink E last_activities [] = io_return None"
| "first_group_to_shrink E last_activities (asg # asgs) =
     io_bind (io_res (py_item asg ''AutoScalingGroupName'')) (\<lambda>asg_name.
     io_bind (io_res (py_item (PDict last_activities) (py_str asg_name))) (\<lambda>activity.
     io_bind (recently_scaled E activity 10) (\<lambda>asg_recently_scaled.
     io_bind (io_res (get_launch_template_version asg)) (\<lambda>asg_version.
     io_bind (io_res (res_bind (py_item asg ''Instances'') py_iter)) (\<lambda>instances.
     io_bind (io_res (instance_to_replace asg_version asg_recently_scaled instances)) (\<lambda>found.
     if found then io_return (Some (py_str asg_name))
     else first_group_to_shrink E last_activities asgs))))))"

definition get_next_asg_action ::
    "env \<Rightarrow> pyval list \<Rightarrow> (string \<times> pyval) list \<Rightarrow> ('z world_scheme, NextAsgAction option) io" where
  "get_next_asg_action E asgs last_activities =
     io_bind (io_res (first_empty_group asgs)) (\<lambda>empty.
     case empty of
       Some asg_name \<Rightarrow> io_return (Some \<lparr>next_asg_name = asg_name, next_action = ''out''\<rparr>)
     | None \<Rightarrow>
         io_bind (first_group_to_shrink E last_activities asgs) (\<lambda>found.
         io_return (map_option (\<lambda>asg_name. \<lparr>next_asg_name = asg_name, next_action = ''in''\<rparr>) found)))"

definition create_output_params :: "Event \<Rightarrow> Event res" where
  "create_output_params event =
     (let component = field_or PNone (ev_component event); counter = field_or PNone (ev_counter event)
      in res_bind (if py_truth counter then py_add_one counter else Inr (PInt 1)) (\<lambda>counter'.
         Inr (unset_event\<lparr>
           ev_channels := Some (field_or PNone (ev_channels event)),
           ev_component := Some component,
           ev_counter := Some counter',
           ev_emoji := Some (PStr '':robot_face:''),
           ev_monitoring_slack_channel := Some (monitoring_channel event),
           ev_notify_pager_duty := Some (field_or PNone (ev_notify_pager_duty event)),
           ev_status := Some (PBool True),
           ev_success_channel := Some (field_or PNone (ev_success_channel event)),
           ev_team := Some (field_or PNone (ev_team event)),
           ev_text_line := Some (PStr (''*'' @ py_str component @ ''*'')),
           ev_username := Some (PStr ''AutoRecycling'')\<rparr>)))"

section \<open>The handler: \<open>handler.py\<close>\<close>

definition message_content_fields :: "env \<Rightarrow> Event \<Rightarrow> pyval" where
  "message_content_fields E event =
     PList [PDict [(''title'', PStr ''Component''), (''value'', field_or PNone (ev_component event)), (''short'', PBool True)],
            PDict [(''title'', PStr ''Environment''), (''value'', os_getenv E ''ENVIRONMENT''), (''short'', PBool True)]]"

fun activity_details :: "env \<Rightarrow> pyval list \<Rightarrow> (string \<times> pyval) list \<Rightarrow> ('z world_scheme, (string \<times> pyval) list) io" where
  "activity_details E [] details = io_return details"
| "activity_details E (asg # asgs) details =
     io_bind (io_res (py_item asg ''AutoScalingGroupName'')) (\<lambda>asg_name.
     io_bind (describe_scaling_activities E (py_str asg_name)) (\<lambda>activity.
     activity_details E asgs (AList.update (py_str asg_name) activity details)))"

definition initiated :: string where
  "initiated = ''Auto-recycling has successfully initiated''"

definition not_successful :: string where
  "not_successful = ''The last scaling event was not Successful. Please investigate''"

definition with_message :: "string \<Rightarrow> pyval \<Rightarrow> string \<Rightarrow> bool \<Rightarrow> Event \<Rightarrow> Event" where
  "with_message color flds txt success out =
     out\<lparr>ev_message_content := Some (MessageContent color (Some flds) txt), ev_recycle_success := Some (PBool success)\<rparr>"

definition failed_output :: "pyval \<Rightarrow> Event \<Rightarrow> Event" where
  "failed_output flds out =
     (with_message ''danger'' flds not_successful False out)
       \<lparr>ev_pager_duty_description := Some (PStr not_successful), ev_pager_duty_event_type := Some (PStr ''trigger''),
        ev_status := Some (PStr ''fail'')\<rparr>"

definition scale_next ::
    "env \<Rightarrow> pyval \<Rightarrow> Event \<Rightarrow> pyval list \<Rightarrow> (string \<times> pyval) list \<Rightarrow> ('z world_scheme, Event) io" where
  "scale_next E flds out asgs details =
     io_bind (get_next_asg_action E asgs details) (\<lambda>next_step.
     case next_step of
       Some next \<Rightarrow>
         io_then (execute_scaling_policy E (next_asg_name next) (''recycle-scale-'' @ next_action next))
           (io_return (with_message ''good'' flds
             (if py_eq (field_or PNone (ev_counter out)) (PInt 1) then initiated
              else ''Auto-recycling is already in progress'') False out))
     | None \<Rightarrow> io_return ((with_message ''good'' flds initiated True out)\<lparr>ev_status := Some (PBool True)\<rparr>))"

definition scale_groups ::
    "env \<Rightarrow> (string \<Rightarrow> (string \<Rightarrow> bool) res) \<Rightarrow> Event \<Rightarrow> pyval \<Rightarrow> Event \<Rightarrow> ('z world_scheme, Event) io" where
  "scale_groups E compile event flds out =
     io_bind (describe_asg E compile (field_or PNone (ev_component event))) (\<lambda>asgs.
     io_bind (activity_details E asgs []) (\<lambda>details.
     io_bind (io_res (get_overall_progress (map snd details))) (\<lambda>overall_progress.
     io_bind (io_res (get_overall_statuscode (map snd details))) (\<lambda>overall_statuscode.
     if \<not> overall_progress then io_return (with_message ''good'' flds initiated False out)
     else if \<not> overall_statuscode then io_return (failed_output flds out)
     else scale_next E flds out asgs details))))"

definition scale_asg :: "env \<Rightarrow> (string \<Rightarrow> (string \<Rightarrow> bool) res) \<Rightarrow> Event \<Rightarrow> ('z world_scheme, Event) io" where
  "scale_asg E compile event =
     io_bind (io_res (create_output_params event)) (\<lambda>out.
     let flds = message_content_fields E event
     in io_catch (scale_groups E compile event flds out)
          (\<lambda>err. io_return ((failed_output flds out)\<lparr>ev_exception_repr := Some (PStr (exn_repr err))\<rparr>)))"

definition taking_too_long :: "Event \<Rightarrow> Event" where
  "taking_too_long event =
     (let component = field_or PNone (ev_component event)
      in unset_event\<lparr>
           ev_component := Some component,
           ev_channels := Some (monitoring_channel event),
           ev_message_content := Some (MessageContent ''danger'' None
             (''Autorecycling of '' @ py_str component @ '' appears to be taking too long :scream: please investigate.'')),
           ev_monitoring_slack_channel := Some (monitoring_channel event),
           ev_pager_duty_description := Some (PStr
             (''Autorecycling of '' @ py_str component @ '' appears to be taking too long. Please investigate.'')),
           ev_pager_duty_event_type := Some (PStr ''trigger''),
           ev_success_channel := Some (field_or PNone (ev_success_channel event)),
           ev_status := Some (PStr ''fail'')\<rparr>)"

definition handle_event ::
    "env \<Rightarrow> (string \<Rightarrow> (string \<Rightarrow> bool) res) \<Rightarrow> (pyval \<Rightarrow> Event res) \<Rightarrow> pyval \<Rightarrow> ('z world_scheme, Event) io" where
  "handle_event E compile model_validate lambda_event =
     io_bind (io_res (model_validate lambda_event)) (\<lambda>event.
     let counter = field_or PNone (ev_counter event)
     in if \<not> py_truth counter
        then scale_asg E compile
          (event\<lparr>ev_counter := Some (PInt 0), ev_channels := Some (field_or PNone (ev_success_channel event))\<rparr>)
        else
          io_bind (io_res (py_num_lt counter (PInt 60))) (\<lambda>below.
          if below then scale_asg E compile event
          else if py_eq counter (PInt 60) then io_return (taking_too_long event)
          else io_raise (Exn PyException None)))"

definition scale_lambda_handler ::
    "env \<Rightarrow> (string \<Rightarrow> (string \<Rightarrow> bool) res) \<Rightarrow> (pyval \<Rightarrow> Event res) \<Rightarrow> pyval \<Rightarrow> ('z world_scheme, pyval) io" where
  "scale_lambda_handler E compile model_validate lambda_event =
     io_bind (handle_event E compile model_validate lambda_event) (\<lambda>result. io_return (model_dump result))"

section \<open>What a run does to the groups\<close>

text \<open>The calls that only look: the groups, their activities and the clock.\<close>

definition scaling_reads :: "call set" where
  "scaling_reads = {DescribeAutoScalingGroups, ReadClock} \<union> {c. \<exists>n k. c = DescribeScalingActivities n k}"

lemma wp_run:
  fixes s :: "'z world_scheme"
  assumes "footprint m S"
  shows "wp m (\<lambda>x t. m s = (Inr x, t) \<and> extends S s t) (\<lambda>e t. m s = (Inl e, t) \<and> extends S s t) s"
  using footprintD [OF assms, of s] by (auto intro: wpI)

lemma describe_asg_footprint: "footprint (describe_asg E compile c) scaling_reads"
  by (auto simp: describe_asg_def scaling_reads_def intro!: footprint_intros)

lemma describe_scaling_activities_footprint: "footprint (describe_scaling_activities E n) scaling_reads"
  by (auto simp: describe_scaling_activities_def scaling_reads_def intro!: footprint_intros)

lemma activity_details_footprint: "footprint (activity_details E asgs details) scaling_reads"
  by (induction E asgs details rule: activity_details.induct)
    (auto intro!: footprint_intros describe_scaling_activities_footprint)

lemma recently_scaled_footprint: "footprint (recently_scaled E activity n) scaling_reads"
  by (auto simp: recently_scaled_def scaling_reads_def intro!: footprint_intros)

lemma first_group_footprint: "footprint (first_group_to_shrink E acts asgs) scaling_reads"
  by (induction E acts asgs rule: first_group_to_shrink.induct)
    (auto intro!: footprint_intros recently_scaled_footprint)

lemma next_action_footprint: "footprint (get_next_asg_action E asgs details) scaling_reads"
  by (auto simp: get_next_asg_action_def intro!: footprint_intros first_group_footprint)

text \<open>
  \<open>decided E compile c s asgs details nxt\<close>: from \<open>s\<close>, the groups of component \<open>c\<close> are \<open>asgs\<close> with
  the last activities \<open>details\<close>, all of them complete and successful, and \<open>nxt\<close> is the nxt action.
\<close>

definition decided :: "env \<Rightarrow> (string \<Rightarrow> (string \<Rightarrow> bool) res) \<Rightarrow> pyval \<Rightarrow> 'z world_scheme \<Rightarrow>
    pyval list \<Rightarrow> (string \<times> pyval) list \<Rightarrow> NextAsgAction option \<Rightarrow> bool" where
  "decided E compile c s asgs details nxt =
     (\<exists>t u v. describe_asg E compile c s = (Inr asgs, t) \<and> activity_details E asgs [] t = (Inr details, u) \<and>
        get_overall_progress (map snd details) = Inr True \<and> get_overall_statuscode (map snd details) = Inr True \<and>
        get_next_asg_action E asgs details u = (Inr nxt, v))"

definition policy_call :: "NextAsgAction \<Rightarrow> call" where
  "policy_call nxt = ExecutePolicy (PStr (next_asg_name nxt)) (''recycle-scale-'' @ next_action nxt)"

text \<open>What a run may have done: read, and executed at most the one policy it decided on.\<close>

definition scaled :: "env \<Rightarrow> (string \<Rightarrow> (string \<Rightarrow> bool) res) \<Rightarrow> pyval \<Rightarrow> 'z world_scheme \<Rightarrow> call list \<Rightarrow> bool" where
  "scaled E compile c s h =
     (\<exists>reads policy. h = calls s @ reads @ policy \<and> set reads \<subseteq> scaling_reads \<and>
        (policy = [] \<or>
         (\<exists>asgs details nxt. decided E compile c s asgs details (Some nxt) \<and> policy = [policy_call nxt])))"

lemma extends_scaled: "extends scaling_reads s t \<Longrightarrow> scaled E compile c s (calls t)"
  unfolding extends_def scaled_def by (metis append_Nil2)

lemma policy_scaled:
  "decided E compile c s asgs details (Some nxt) \<Longrightarrow> extends scaling_reads s t \<Longrightarrow>
   scaled E compile c s (calls t @ [policy_call nxt])"
  unfolding extends_def scaled_def by fastforce

lemma with_message_success [simp]:
  "ev_recycle_success (with_message c f t b out) = Some (PBool b)"
  "ev_recycle_success (failed_output f out) = Some (PBool False)"
  by (simp_all add: with_message_def failed_output_def)

definition run_outcome ::
    "env \<Rightarrow> (string \<Rightarrow> (string \<Rightarrow> bool) res) \<Rightarrow> pyval \<Rightarrow> 'z world_scheme \<Rightarrow> Event \<Rightarrow> call list \<Rightarrow> bool" where
  "run_outcome E compile c s out h =
     (scaled E compile c s h \<and>
      (if ev_recycle_success out = Some (PBool True)
       then (\<exists>asgs details. decided E compile c s asgs details None) \<and> (\<exists>reads. h = calls s @ reads \<and> set reads \<subseteq> scaling_reads)
       else ev_recycle_success out = Some (PBool False)))"

lemma outcome_false:
  "scaled E compile c s h \<Longrightarrow> ev_recycle_success out = Some (PBool False) \<Longrightarrow> run_outcome E compile c s out h"
  by (simp add: run_outcome_def)

lemma outcome_scaled: "run_outcome E compile c s out h \<Longrightarrow> scaled E compile c s h"
  by (simp add: run_outcome_def)

lemma scale_next_wp:
  fixes s :: "'z world_scheme"
  assumes ok: "describe_asg E compile c s = (Inr asgs, t)" "activity_details E asgs [] t = (Inr details, u)"
      "get_overall_progress (map snd details) = Inr True" "get_overall_statuscode (map snd details) = Inr True"
    and u: "extends scaling_reads s u"
  shows "wp (scale_next E flds out asgs details)
    (\<lambda>out v. run_outcome E compile c s out (calls v)) (\<lambda>_ v. scaled E compile c s (calls v)) u"
  unfolding scale_next_def wp_bind
proof (rule wp_mono [OF wp_run [OF next_action_footprint]])
  fix nxt and v :: "'z world_scheme"
  assume v: "get_next_asg_action E asgs details u = (Inr nxt, v) \<and> extends scaling_reads u v"
  then have sv: "extends scaling_reads s v" using u extends_trans by blast
  from v ok have decided: "decided E compile c s asgs details nxt" by (auto simp: decided_def)
  show "wp (case nxt of
       Some nxt \<Rightarrow>
         io_then (execute_scaling_policy E (next_asg_name nxt) (''recycle-scale-'' @ next_action nxt))
           (io_return (with_message ''good'' flds
             (if py_eq (field_or PNone (ev_counter out)) (PInt 1) then initiated
              else ''Auto-recycling is already in progress'') False out))
     | None \<Rightarrow> io_return ((with_message ''good'' flds initiated True out)\<lparr>ev_status := Some (PBool True)\<rparr>))
    (\<lambda>out v. run_outcome E compile c s out (calls v)) (\<lambda>_ v. scaled E compile c s (calls v)) v"
  proof (cases "nxt")
    case None
    with decided sv show ?thesis
      by (auto simp: wp_simps run_outcome_def extends_scaled with_message_def extends_def)
  next
    case (Some a)
    with decided have "decided E compile c s asgs details (Some a)" by simp
    from policy_scaled [OF this sv, unfolded policy_call_def] Some show ?thesis
      by (auto simp: wp_simps execute_scaling_policy_def run_outcome_def split: sum.splits)
  qed
next
  fix e and v :: "'z world_scheme"
  assume "get_next_asg_action E asgs details u = (Inl e, v) \<and> extends scaling_reads u v"
  then show "scaled E compile c s (calls v)" using u extends_trans extends_scaled by blast
qed

lemma scale_groups_wp:
  fixes s :: "'z world_scheme"
  assumes c: "field_or PNone (ev_component event) = c"
  shows "wp (scale_groups E compile event flds out)
    (\<lambda>out v. run_outcome E compile c s out (calls v)) (\<lambda>_ v. scaled E compile c s (calls v)) s"
  unfolding scale_groups_def c wp_bind
proof (rule wp_mono [OF wp_run [OF describe_asg_footprint]])
  fix asgs and t :: "'z world_scheme"
  assume t: "describe_asg E compile c s = (Inr asgs, t) \<and> extends scaling_reads s t"
  show "wp (activity_details E asgs [])
      (\<lambda>details. wp (io_res (get_overall_progress (map snd details)))
        (\<lambda>p. wp (io_res (get_overall_statuscode (map snd details)))
          (\<lambda>q. wp (if \<not> p then io_return (with_message ''good'' flds initiated False out)
             else if \<not> q then io_return (failed_output flds out) else scale_next E flds out asgs details)
            (\<lambda>out v. run_outcome E compile c s out (calls v)) (\<lambda>_ v. scaled E compile c s (calls v)))
          (\<lambda>_ v. scaled E compile c s (calls v)))
        (\<lambda>_ v. scaled E compile c s (calls v)))
      (\<lambda>_ v. scaled E compile c s (calls v)) t"
  proof (rule wp_mono [OF wp_run [OF activity_details_footprint]])
    fix details and u :: "'z world_scheme"
    assume u: "activity_details E asgs [] t = (Inr details, u) \<and> extends scaling_reads t u"
    with t have su: "extends scaling_reads s u" using extends_trans by blast
    note reads = extends_scaled [OF su]
    show "wp (io_res (get_overall_progress (map snd details)))
        (\<lambda>p. wp (io_res (get_overall_statuscode (map snd details)))
          (\<lambda>q. wp (if \<not> p then io_return (with_message ''good'' flds initiated False out)
             else if \<not> q then io_return (failed_output flds out) else scale_next E flds out asgs details)
            (\<lambda>out v. run_outcome E compile c s out (calls v)) (\<lambda>_ v. scaled E compile c s (calls v)))
          (\<lambda>_ v. scaled E compile c s (calls v)))
        (\<lambda>_ v. scaled E compile c s (calls v)) u"
      using t u reads scale_next_wp [OF conjunct1 [OF t] conjunct1 [OF u] _ _ su]
      by (auto simp: wp_res wp_return outcome_false split: sum.splits)
  next
    fix e and u :: "'z world_scheme"
    assume "activity_details E asgs [] t = (Inl e, u) \<and> extends scaling_reads t u"
    with t show "scaled E compile c s (calls u)" using extends_trans extends_scaled by blast
  qed
next
  fix e and t :: "'z world_scheme"
  assume "describe_asg E compile c s = (Inl e, t) \<and> extends scaling_reads s t"
  then show "scaled E compile c s (calls t)" using extends_scaled by blast
qed

lemma scale_asg_run:
  assumes "scale_asg E compile event s = (r, t)"
    and "ev_counter event \<in> {None, Some PNone} \<union> range (Some \<circ> PInt)"
    and "field_or PNone (ev_component event) = c"
  obtains out where "r = Inr out" "run_outcome E compile c s out (calls t)"
proof -
  obtain out0 where out0: "create_output_params event = Inr out0"
  proof -
    have "\<exists>n. (if py_truth (field_or PNone (ev_counter event)) then py_add_one (field_or PNone (ev_counter event))
        else Inr (PInt 1)) = Inr n"
      using assms(2) by (auto simp: field_or_def py_add_one_def)
    then show ?thesis using that by (auto simp: create_output_params_def Let_def)
  qed
  let ?flds = "message_content_fields E event"
  let ?handler = "\<lambda>err. io_return ((failed_output ?flds out0)\<lparr>ev_exception_repr := Some (PStr (exn_repr err))\<rparr>)"
  have "scale_asg E compile event s = io_catch (scale_groups E compile event ?flds out0) ?handler s"
    by (simp add: scale_asg_def io_bind_def io_res_def out0 Let_def)
  moreover have "wp (io_catch (scale_groups E compile event ?flds out0) ?handler)
      (\<lambda>out v. run_outcome E compile c s out (calls v)) (\<lambda>_ _. False) s"
    unfolding wp_catch
    by (rule wp_mono [OF scale_groups_wp [OF assms(3)]]) (auto simp: wp_return intro!: outcome_false)
  ultimately show thesis using assms(1) that by (cases r) (auto simp: wp_def)
qed

text \<open>
  C4. A run of \<open>scale_asg\<close> for an event with a number or no counter never raises. It executes at most
  one scaling policy, as its last call, and only for the action decided from groups whose last
  activities are all complete and successful. It reports success exactly when, all activities
  being so, no action is left, and then it has only read.
\<close>

theorem scale_asg_outcome:
  assumes "scale_asg E compile event s = (r, t)"
    and "ev_counter event \<in> {None, Some PNone} \<union> range (Some \<circ> PInt)"
    and "field_or PNone (ev_component event) = c"
  shows "\<exists>out reads policy. r = Inr out \<and> calls t = calls s @ reads @ policy \<and> set reads \<subseteq> scaling_reads \<and>
    (policy = [] \<or>
       (\<exists>asgs details nxt. decided E compile c s asgs details (Some nxt) \<and>
          policy = [policy_call nxt])) \<and>
    (if ev_recycle_success out = Some (PBool True)
     then policy = [] \<and> (\<exists>asgs details. decided E compile c s asgs details None)
     else ev_recycle_success out = Some (PBool False))"
proof -
  from scale_asg_run [OF assms] obtain out where r: "r = Inr out" and o: "run_outcome E compile c s out (calls t)" .
  show ?thesis
  proof (cases "ev_recycle_success out = Some (PBool True)")
    case True
    with o obtain asgs details reads where "decided E compile c s asgs details None"
      "calls t = calls s @ reads" "set reads \<subseteq> scaling_reads" by (auto simp: run_outcome_def)
    with True r show ?thesis by (intro exI [of _ out] exI [of _ reads] exI [of _ "[]"]) auto
  next
    case False
    with o have f: "ev_recycle_success out = Some (PBool False)" by (simp add: run_outcome_def)
    from outcome_scaled [OF o] obtain reads policy where p: "calls t = calls s @ reads @ policy" "set reads \<subseteq> scaling_reads"
      "policy = [] \<or> (\<exists>asgs details nxt. decided E compile c s asgs details (Some nxt) \<and> policy = [policy_call nxt])"
      unfolding scaled_def by blast
    with f r show ?thesis by (intro exI [of _ out] exI [of _ reads] exI [of _ policy]) simp
  qed
qed

section \<open>Which action is next\<close>

text \<open>
  A typed group: its name, its launch template version, and its instances with theirs; and the
  end of a group's last activity, which a running one does not have.
\<close>

record scaling_group =
  sg_name :: string
  sg_version :: "string option"
  sg_instances :: "(string \<times> string option) list"

definition template_json :: "string option \<Rightarrow> (string \<times> pyval) list" where
  "template_json v = (case v of None \<Rightarrow> [] | Some x \<Rightarrow> [(''LaunchTemplate'', PDict [(''Version'', PStr x)])])"

definition scaling_instance_json :: "string \<times> string option \<Rightarrow> pyval" where
  "scaling_instance_json i = PDict ((''InstanceId'', PStr (fst i)) # template_json (snd i))"

definition scaling_group_json :: "scaling_group \<Rightarrow> pyval" where
  "scaling_group_json g =
     PDict ([(''AutoScalingGroupName'', PStr (sg_name g)),
             (''Instances'', PList (map scaling_instance_json (sg_instances g)))] @ template_json (sg_version g))"

definition last_activity_json :: "int option \<Rightarrow> pyval" where
  "last_activity_json ended =
     PDict ([(''Progress'', PInt 100), (''StatusCode'', PStr ''Successful'')] @
       (case ended of None \<Rightarrow> [] | Some t \<Rightarrow> [(''EndTime'', utc t)]))"

definition details_json :: "(string \<Rightarrow> int option) \<Rightarrow> scaling_group list \<Rightarrow> (string \<times> pyval) list" where
  "details_json ended gs = map (\<lambda>g. (sg_name g, last_activity_json (ended (sg_name g)))) gs"

definition recent :: "int \<Rightarrow> int option \<Rightarrow> bool" where
  "recent now ended = (case ended of None \<Rightarrow> False | Some t \<Rightarrow> t > now - minutes 10)"

text \<open>An instance is kept when its version is the group's and the group was scaled in the last ten minutes.\<close>

definition kept :: "int \<Rightarrow> (string \<Rightarrow> int option) \<Rightarrow> scaling_group \<Rightarrow> bool" where
  "kept now ended g =
     list_all (\<lambda>i. sg_version g \<noteq> None \<and> snd i = sg_version g \<and> recent now (ended (sg_name g))) (sg_instances g)"

lemma scaling_items:
  "py_item (scaling_group_json g) ''AutoScalingGroupName'' = Inr (PStr (sg_name g))"
  "py_item (scaling_group_json g) ''Instances'' = Inr (PList (map scaling_instance_json (sg_instances g)))"
  "get_launch_template_version (scaling_group_json g) = Inr (sg_version g)"
  "get_launch_template_version (scaling_instance_json i) = Inr (snd i)"
  "py_item (scaling_instance_json i) ''InstanceId'' = Inr (PStr (fst i))"
  by (auto simp: scaling_group_json_def scaling_instance_json_def template_json_def get_launch_template_version_def
      py_item_PDict split: option.splits)

lemma first_empty_group_json:
  "first_empty_group (map scaling_group_json gs) = Inr (map_option sg_name (find (\<lambda>g. sg_instances g = []) gs))"
  by (induction gs) (auto simp: scaling_items)

lemma instance_to_replace_json:
  "instance_to_replace v b (map scaling_instance_json insts) = Inr (\<not> list_all (\<lambda>i. v \<noteq> None \<and> snd i = v \<and> b) insts)"
  by (induction insts) (auto simp: scaling_items)

lemma recently_scaled_json:
  assumes "\<And>h. reply E h ReadClock = Inr (PDate False now)"
  shows "recently_scaled E (last_activity_json ended) 10 s = (Inr (recent now ended), s\<lparr>calls := calls s @ [ReadClock]\<rparr>)"
  by (cases ended)
    (simp_all add: recently_scaled_def io_eval assms date_minus_def utc_localize_def last_activity_json_def py_item_PDict
      recent_def py_lt_def py_date_lt_def utc_def)

lemma details_lookup:
  "g \<in> set gs \<Longrightarrow> py_item (PDict (details_json ended gs)) (sg_name g) = Inr (last_activity_json (ended (sg_name g)))"
  by (induction gs) (auto simp: details_json_def py_item_PDict)

lemma first_group_to_shrink_json:
  assumes "\<And>h. reply E h ReadClock = Inr (PDate False now)" and "set gs \<subseteq> set all"
  shows "fst (first_group_to_shrink E (details_json ended all) (map scaling_group_json gs) s) =
    Inr (map_option sg_name (find (\<lambda>g. \<not> kept now ended g) gs))"
  using assms(2)
proof (induction gs arbitrary: s)
  case (Cons g gs)
  then have "py_item (PDict (details_json ended all)) (sg_name g) = Inr (last_activity_json (ended (sg_name g)))"
    by (intro details_lookup) simp
  with Cons show ?case
    by (simp add: io_bind_def io_res_def io_return_def scaling_items recently_scaled_json [OF assms(1)]
        instance_to_replace_json kept_def)
qed (simp add: io_return_def)

text \<open>
  C15. The next action, while the clock reads \<open>now\<close>: the first group without instances is scaled out;
  with none, the first group is scaled in that holds an instance whose launch template version
  is unknown or not the group's, or that was not scaled within ten minutes; with none, nothing
  is left to do.
\<close>

theorem get_next_asg_action_spec:
  assumes "\<And>h. reply E h ReadClock = Inr (PDate False now)"
  shows "fst (get_next_asg_action E (map scaling_group_json gs) (details_json ended gs) s) =
    Inr (case find (\<lambda>g. sg_instances g = []) gs of
           Some g \<Rightarrow> Some \<lparr>next_asg_name = sg_name g, next_action = ''out''\<rparr>
         | None \<Rightarrow> map_option (\<lambda>g. \<lparr>next_asg_name = sg_name g, next_action = ''in''\<rparr>)
             (find (\<lambda>g. \<not> kept now ended g) gs))"
proof (cases "find (\<lambda>g. sg_instances g = []) gs")
  case None
  obtain r t where run: "first_group_to_shrink E (details_json ended gs) (map scaling_group_json gs) s = (r, t)" by fastforce
  with first_group_to_shrink_json [OF assms, of gs gs ended s]
  have "r = Inr (map_option sg_name (find (\<lambda>g. \<not> kept now ended g) gs))" by simp
  with None run show ?thesis
    by (simp add: get_next_asg_action_def io_bind_def io_res_def io_return_def first_empty_group_json option.map_comp o_def)
next
  case (Some g)
  then show ?thesis
    by (simp add: get_next_asg_action_def io_bind_def io_res_def io_return_def first_empty_group_json)
qed

section \<open>The groups of a component\<close>

text \<open>A group's name is the component's, \<open>-asg-\<close> and an id of lower case letters and digits.\<close>

definition names_group :: "string \<Rightarrow> string \<Rightarrow> bool" where
  "names_group c n =
     (\<exists>i. i \<noteq> [] \<and> list_all id_char i \<and> (n = c @ ''-asg-'' @ i \<or> n = c @ ''-asg-'' @ i @ [CHR 0x0A]))"

lemma drop_prefix_Some: "drop_prefix p s = Some t \<longleftrightarrow> s = p @ t"
  by (auto simp: drop_prefix_def prefix_def)

lemma drop_prefix_append [simp]: "drop_prefix p (p @ t) = Some t"
  by (simp add: drop_prefix_def)

lemma newline_not_id: "\<not> id_char (CHR 0x0A)"
  by (simp add: id_char_def)

lemma asg_ending_iff:
  "asg_ending s \<longleftrightarrow> (\<exists>i. i \<noteq> [] \<and> list_all id_char i \<and> (s = ''-asg-'' @ i \<or> s = ''-asg-'' @ i @ [CHR 0x0A]))"
proof
  assume "asg_ending s"
  then obtain t where t: "s = ''-asg-'' @ t"
    and b: "(let body = (if t \<noteq> [] \<and> last t = CHR 0x0A then butlast t else t) in body \<noteq> [] \<and> list_all id_char body)"
    by (auto simp: asg_ending_def drop_prefix_Some split: option.splits)
  show "\<exists>i. i \<noteq> [] \<and> list_all id_char i \<and> (s = ''-asg-'' @ i \<or> s = ''-asg-'' @ i @ [CHR 0x0A])"
  proof (cases "t \<noteq> [] \<and> last t = CHR 0x0A")
    case True
    with b t show ?thesis by (intro exI [of _ "butlast t"]) (simp add: Let_def, metis append_butlast_last_id)
  next
    case False
    with b t show ?thesis by (intro exI [of _ t]) (auto simp: Let_def split: if_splits)
  qed
next
  assume "\<exists>i. i \<noteq> [] \<and> list_all id_char i \<and> (s = ''-asg-'' @ i \<or> s = ''-asg-'' @ i @ [CHR 0x0A])"
  then obtain i where i: "i \<noteq> []" "list_all id_char i" and s: "s = ''-asg-'' @ i \<or> s = ''-asg-'' @ i @ [CHR 0x0A]" by blast
  have "last i \<noteq> CHR 0x0A" using i newline_not_id by (metis last_in_set list_all_iff)
  moreover have "drop_prefix ''-asg-'' (''-asg-'' @ t) = Some t" for t by (rule drop_prefix_append)
  ultimately show "asg_ending s" using i s by (auto simp: asg_ending_def Let_def simp del: append_Cons)
qed

lemma names_group_iff:
  "names_group c n \<longleftrightarrow> (case drop_prefix c n of None \<Rightarrow> False | Some s \<Rightarrow> asg_ending s)"
proof (cases "drop_prefix c n")
  case None
  then have "\<not> prefix c n" by (simp add: drop_prefix_def split: if_splits)
  with None show ?thesis by (auto simp: names_group_def)
next
  case (Some s)
  then have "n = c @ s" by (simp add: drop_prefix_Some)
  with Some show ?thesis by (simp add: names_group_def asg_ending_iff)
qed

lemma matching_groups_json:
  assumes "list_all plain_char c" and "re_sub_end az_suffix name = c"
  shows "matching_groups compile name (map scaling_group_json gs) =
    (let ms = filter (\<lambda>g. literal_match c (c \<noteq> name) (sg_name g)) gs
     in if ms = [] then Inl (py_exception (''Could not find ASGs matching: `^'' @ c @ ''(_[abc])?-asg-[a-z'' @ [CHR 0x5C] @ ''d]+$`.''))
        else Inr (map scaling_group_json ms))"
proof -
  have "res_filter (\<lambda>asg. res_bind (py_item asg ''AutoScalingGroupName'') (\<lambda>name.
        res_bind (need_str name (type_error (''expected string or bytes-like object, got '' @ quoted (type_name name)))) (\<lambda>n.
        Inr (m n)))) (map scaling_group_json gs) = Inr (map scaling_group_json (filter (\<lambda>g. m (sg_name g)) gs))" for m
    by (induction gs) (auto simp: scaling_items)
  with assms show ?thesis by (simp add: matching_groups_def asg_matcher_def Let_def)
qed

text \<open>A name without a zone has none to cut off.\<close>

definition zones :: "string list" where
  "zones = [''_a'', ''_b'', ''_c'']"

lemma no_zone:
  assumes "list_all (\<lambda>az. \<not> suffix az c) zones" and "list_all plain_char c"
  shows "re_sub_end az_suffix c = c"
proof (rule re_sub_end_no_match)
  show "\<not> az_suffix m" if "c = a @ m" for a m
    using assms(1) that by (auto simp: zones_def az_suffix_def suffix_def)
  show "\<not> az_suffix m" if "c = a @ m @ [CHR 0x0A]" for a m
    using assms(2) that by (simp add: plain_char_def)
qed

text \<open>
  C37. The groups of a component. A component that names a zone stands for all its zones: from \<open>c_a\<close>, \<open>c_b\<close> or
  \<open>c_c\<close> the groups found are those of \<open>c_a\<close>, \<open>c_b\<close> and \<open>c_c\<close>; the
  group without a zone is not among them, although the error message offers it. A component \<open>c\<close> without a zone
  stands for its own group alone, and not for those of its zones. The group of a longer or shorter name
  is never found, and finding none is an error.
\<close>

theorem zoned_groups:
  assumes "list_all plain_char c" and "az \<in> set ([] # zones)" and "az = [] \<Longrightarrow> list_all (\<lambda>z. \<not> suffix z c) zones"
  shows "matching_groups compile (c @ az) (map scaling_group_json gs) =
    (case filter (\<lambda>g. list_ex (\<lambda>z. names_group (c @ z) (sg_name g)) (if az = [] then [[]] else zones)) gs of
       [] \<Rightarrow> Inl (py_exception (''Could not find ASGs matching: `^'' @ c @ ''(_[abc])?-asg-[a-z'' @ [CHR 0x5C] @ ''d]+$`.''))
     | ms \<Rightarrow> Inr (map scaling_group_json ms))"
proof -
  have stem: "re_sub_end az_suffix (c @ az) = c"
  proof (cases "az = []")
    case True
    with no_zone [OF assms(3) assms(1)] show ?thesis by simp
  next
    case False
    with assms(2) have "az \<in> set [''_a'', ''_b'', ''_c'']" by (auto simp: zones_def)
    then show ?thesis by (rule az_suffix_match)
  qed
  have "literal_match c (c \<noteq> c @ az) n = list_ex (\<lambda>z. names_group (c @ z) n) (if az = [] then [[]] else zones)" for n
  proof (cases "az = []")
    case True
    then show ?thesis by (simp add: literal_match_def names_group_iff)
  next
    case False
    then have "c \<noteq> c @ az" by simp
    with False show ?thesis by (simp only: literal_match_def names_group_iff zones_def not_False_eq_True if_True if_False)
  qed
  then have "filter (\<lambda>g. literal_match c (c \<noteq> c @ az) (sg_name g)) gs =
      filter (\<lambda>g. list_ex (\<lambda>z. names_group (c @ z) (sg_name g)) (if az = [] then [[]] else zones)) gs"
    by (simp only:)
  with matching_groups_json [OF assms(1) stem] show ?thesis
    by (simp only: Let_def) (simp split: list.split)
qed

section \<open>The runs of an event\<close>

definition same_count :: "Event \<Rightarrow> Event \<Rightarrow> bool" where
  "same_count a b =
     (ev_counter a = ev_counter b \<and> ev_channels a = ev_channels b \<and> ev_component a = ev_component b)"

lemma same_count_simps [simp]:
  "same_count out out"
  "same_count out (with_message c f t b out)"
  "same_count out (failed_output f out)"
  "same_count out ((with_message c f t b out)\<lparr>ev_status := x\<rparr>)"
  "same_count out ((failed_output f out)\<lparr>ev_exception_repr := x\<rparr>)"
  by (simp_all add: same_count_def with_message_def failed_output_def)

lemma scale_next_keeps: "wp (scale_next E flds out asgs details) (\<lambda>o' _. same_count out o') (\<lambda>_ _. True) s"
  unfolding scale_next_def
  by (rule wp_bind_any)
    (auto simp: wp_simps execute_scaling_policy_def split: option.splits sum.splits)

lemma scale_groups_keeps: "wp (scale_groups E compile event flds out) (\<lambda>o' _. same_count out o') (\<lambda>_ _. True) s"
  unfolding scale_groups_def
  by (rule wp_bind_any)+ (auto simp: wp_return scale_next_keeps)

lemma scale_asg_counts:
  assumes "ev_counter event = Some (PInt n)"
  shows "\<exists>out t. scale_asg E compile event s = (Inr out, t) \<and> ev_counter out = Some (PInt (n + 1)) \<and>
    ev_channels out = Some (field_or PNone (ev_channels event)) \<and> ev_component out = Some (field_or PNone (ev_component event))"
proof -
  let ?flds = "message_content_fields E event"
  from assms obtain out0 where out0: "create_output_params event = Inr out0"
    "ev_counter out0 = Some (PInt (n + 1))" "ev_channels out0 = Some (field_or PNone (ev_channels event))"
    "ev_component out0 = Some (field_or PNone (ev_component event))"
    by (cases "n = 0") (simp_all add: create_output_params_def Let_def field_or_def py_add_one_def)
  have "wp (scale_asg E compile event) (\<lambda>o' _. same_count out0 o') (\<lambda>_ _. False) s"
    unfolding scale_asg_def Let_def wp_bind wp_res out0 wp_catch
    by (simp, rule wp_mono [OF scale_groups_keeps]) (simp_all add: wp_return)
  then show ?thesis
    using out0 by (cases "scale_asg E compile event s")
      (auto simp: wp_def same_count_def split: sum.splits)
qed

text \<open>
  C32. The run of a validated event that was counted \<open>n\<close> times. Below 60 it never raises: it scales,
  counts the run, and keeps the event's component and channels (the first run takes the success channel). At
  60 it makes no call and returns the failure that asks to investigate, which sets neither a
  counter nor \<open>recycle_success\<close>; above 60 it raises.
\<close>

theorem handle_event_outcome:
  assumes "model_validate lambda_event = Inr event" and "0 \<le> n"
    and "ev_counter event = (if n = 0 then None else Some (PInt n))"
  shows "if n < 60
    then \<exists>out t. handle_event E compile model_validate lambda_event s = (Inr out, t) \<and>
      ev_counter out = Some (PInt (n + 1)) \<and>
      ev_channels out = Some (field_or PNone (if n = 0 then ev_success_channel event else ev_channels event)) \<and>
      ev_component out = Some (field_or PNone (ev_component event))
    else if n = 60
    then \<exists>out. handle_event E compile model_validate lambda_event s = (Inr out, s) \<and>
      ev_status out = Some (PStr ''fail'') \<and> ev_channels out = Some (monitoring_channel event) \<and>
      ev_counter out = None \<and> ev_recycle_success out = None
    else handle_event E compile model_validate lambda_event s = (Inl (Exn PyException None), s)"
proof (cases "n = 0")
  case True
  let ?event = "event\<lparr>ev_counter := Some (PInt 0), ev_channels := Some (field_or PNone (ev_success_channel event))\<rparr>"
  have "handle_event E compile model_validate lambda_event s = scale_asg E compile ?event s"
    using assms True by (simp add: handle_event_def io_bind_def io_res_def Let_def field_or_def)
  with scale_asg_counts [of ?event 0 E compile s] True show ?thesis by (simp add: field_or_def)
next
  case False
  with assms have run: "handle_event E compile model_validate lambda_event s =
      (if n < 60 then scale_asg E compile event s
       else if n = 60 then (Inr (taking_too_long event), s) else (Inl (Exn PyException None), s))"
    by (simp add: handle_event_def io_bind_def io_res_def io_return_def io_raise_def Let_def field_or_def)
  from False assms(3) scale_asg_counts [of event n E compile s] show ?thesis
    by (auto simp: run taking_too_long_def unset_event_def Let_def)
qed

section \<open>A component with one outdated instance\<close>

definition sample_scaling_group :: scaling_group where
  "sample_scaling_group = \<lparr>sg_name = ''api_a-asg-1'', sg_version = Some ''2'', sg_instances = [(''i-1'', Some ''1'')]\<rparr>"

definition sample_scale :: env where
  "sample_scale = \<lparr>reply = (\<lambda>h c. case c of
       DescribeAutoScalingGroups \<Rightarrow> Inr (PList [PDict [(''AutoScalingGroups'', PList [scaling_group_json sample_scaling_group])]])
     | DescribeScalingActivities _ _ \<Rightarrow> Inr (PDict [(''Activities'', PList [last_activity_json (Some 5)])])
     | ReadClock \<Rightarrow> Inr (PDate False 0)
     | _ \<Rightarrow> Inr PNone),
     environ = (\<lambda>_. None)\<rparr>"

definition sample_scale_event :: Event where
  "sample_scale_event = unset_event\<lparr>ev_component := Some (PStr ''api_a''), ev_success_channel := Some (PStr ''team'')\<rparr>"

definition no_pattern :: "string \<Rightarrow> (string \<Rightarrow> bool) res" where
  "no_pattern p = Inl (py_exception p)"

lemma scale_asg_outcome_witness:
  "\<exists>out reads policy. fst (scale_asg sample_scale no_pattern sample_scale_event fresh_world) = Inr out \<and>
     calls (snd (scale_asg sample_scale no_pattern sample_scale_event fresh_world)) = reads @ policy \<and>
     set reads \<subseteq> scaling_reads \<and> length policy \<le> 1"
proof -
  obtain r t where run: "scale_asg sample_scale no_pattern sample_scale_event fresh_world = (r, t)" by fastforce
  have "ev_counter sample_scale_event \<in> {None, Some PNone} \<union> range (Some \<circ> PInt)"
    and "field_or PNone (ev_component sample_scale_event) = PStr ''api_a''"
    by (simp_all add: sample_scale_event_def unset_event_def field_or_def)
  from scale_asg_outcome [OF run this] obtain out reads policy where
    "r = Inr out" "calls t = calls fresh_world @ reads @ policy" "set reads \<subseteq> scaling_reads"
    "policy = [] \<or> (\<exists>asgs details nxt. decided sample_scale no_pattern (PStr ''api_a'') fresh_world asgs details (Some nxt) \<and>
       policy = [policy_call nxt])"
    by blast
  with run show ?thesis by (intro exI [of _ out] exI [of _ reads] exI [of _ policy]) (auto simp: fresh_world_def)
qed

lemma get_next_asg_action_spec_witness:
  "fst (get_next_asg_action sample_scale [scaling_group_json sample_scaling_group]
     (details_json (\<lambda>_. Some 5) [sample_scaling_group]) fresh_world) =
   Inr (Some \<lparr>next_asg_name = ''api_a-asg-1'', next_action = ''in''\<rparr>)"
proof -
  have "reply sample_scale h ReadClock = Inr (PDate False 0)" for h by (simp add: sample_scale_def)
  from get_next_asg_action_spec [OF this, of "[sample_scaling_group]" "\<lambda>_. Some 5" fresh_world] show ?thesis
    by (simp add: sample_scaling_group_def kept_def)
qed

lemma zoned_groups_witness:
  "matching_groups no_pattern ''api_b'' [scaling_group_json sample_scaling_group] = Inr [scaling_group_json sample_scaling_group] \<and>
   (\<exists>e. matching_groups no_pattern ''api'' [scaling_group_json sample_scaling_group] = Inl e)"
proof -
  have plain: "list_all plain_char ''api''" by (simp add: plain_char_def)
  have plainly: "list_all (\<lambda>z. \<not> suffix z ''api'') zones" by (simp add: zones_def suffix_def)
  have zoned: "names_group ''api_a'' ''api_a-asg-1''"
    unfolding names_group_def by (intro exI [of _ "''1''"]) (simp add: id_char_def)
  have other: "\<not> names_group ''api'' ''api_a-asg-1''" by (auto simp: names_group_def)
  from zoned zoned_groups [OF plain, of "''_b''" no_pattern "[sample_scaling_group]"]
    zoned_groups [OF plain, of "[]" no_pattern "[sample_scaling_group]"] other plainly
  show ?thesis by (simp add: sample_scaling_group_def zones_def)
qed

lemma handle_event_outcome_witness:
  "\<exists>out. handle_event sample_scale no_pattern (\<lambda>_. Inr (sample_scale_event\<lparr>ev_counter := Some (PInt 60)\<rparr>)) PNone fresh_world =
     (Inr out, fresh_world) \<and> ev_recycle_success out = None"
  using handle_event_outcome [of "\<lambda>_. Inr (sample_scale_event\<lparr>ev_counter := Some (PInt 60)\<rparr>)" PNone
      "sample_scale_event\<lparr>ev_counter := Some (PInt 60)\<rparr>" 60 sample_scale no_pattern fresh_world]
  by auto

end
