(* ===== verification/EventTypes.thy ===== *)
theory EventTypes
  imports ScaleASG
begin

text \<open>
  The types of the fields of \<open>lambda_types.Event\<close>, which pydantic checks. The validation is a
  library function; what the recycler relies on is that it accepts a document whose fields have
  their types, keeps their values, and only ever returns events of these types. The lemmas show
  that the handler stays within them, so that its output can be its next input.
\<close>

section \<open>Types of fields\<close>

fun is_str :: "pyval \<Rightarrow> bool" where
  "is_str (PStr s) = True"
| "is_str _ = False"

fun is_int :: "pyval \<Rightarrow> bool" where
  "is_int (PInt n) = True"
| "is_int _ = False"

fun is_bool :: "pyval \<Rightarrow> bool" where
  "is_bool (PBool b) = True"
| "is_bool _ = False"

fun is_str_list :: "pyval \<Rightarrow> bool" where
  "is_str_list (PList vs) = list_all is_str vs"
| "is_str_list _ = False"

definition optional :: "(pyval \<Rightarrow> bool) \<Rightarrow> pyval \<Rightarrow> bool" where
  "optional ty v = (v = PNone \<or> ty v)"

text \<open>\<open>Event.MessageContent\<close>: optional colour, fields and text; each field is a dict.\<close>

definition is_message_content :: "pyval \<Rightarrow> bool" where
  "is_message_content v =
     (case v of
        PDict d \<Rightarrow> list_all (\<lambda>(k, ty). case map_of d k of None \<Rightarrow> True | Some w \<Rightarrow> optional ty w)
          [(''color'', is_str), (''fields'', \<lambda>w. case w of PList fs \<Rightarrow> list_all is_dict fs | _ \<Rightarrow> False), (''text'', is_str)]
      | _ \<Rightarrow> False)"

definition event_types :: "(string \<times> (pyval \<Rightarrow> bool)) list" where
  "event_types =
     [(''channels'', optional (\<lambda>v. is_str_list v \<or> is_str v)), (''component'', is_str), (''counter'', optional is_int),
      (''emoji'', optional is_str), (''exception'', optional is_str), (''message_content'', optional is_message_content),
      (''monitoring_slack_channel'', is_str),
      (''pager_duty_description'', optional is_str), (''pager_duty_event_type'', optional is_str),
      (''notify_pager_duty'', optional is_bool), (''recycle_success'', optional is_bool),
      (''status'', optional (\<lambda>v. is_bool v \<or> is_str v)),
      (''success_channel'', is_str), (''team'', optional is_str), (''text'', optional is_str), (''username'', optional is_str)]"

text \<open>The fields without a default.\<close>

definition required_fields :: "string list" where
  "required_fields = [''component'', ''success_channel'']"

definition if_set :: "(pyval \<Rightarrow> bool) \<Rightarrow> pyval option \<Rightarrow> bool" where
  "if_set ty v = (case v of None \<Rightarrow> True | Some x \<Rightarrow> ty x)"

definition set_to :: "(pyval \<Rightarrow> bool) \<Rightarrow> pyval option \<Rightarrow> bool" where
  "set_to ty v = (case v of None \<Rightarrow> False | Some x \<Rightarrow> ty x)"

lemma set_simps [simp]: "if_set ty None" "if_set ty (Some x) = ty x" "\<not> set_to ty None" "set_to ty (Some x) = ty x"
  by (simp_all add: if_set_def set_to_def)

definition fields_typed :: "(string \<Rightarrow> pyval option) \<Rightarrow> bool" where
  "fields_typed f =
     list_all (\<lambda>(k, ty). if k \<in> set required_fields then set_to ty (f k) else if_set ty (f k)) event_types"

definition field_of :: "Event \<Rightarrow> string \<Rightarrow> pyval option" where
  "field_of e k = (case map_of (dump_fields e) k of None \<Rightarrow> None | Some v \<Rightarrow> v)"

text \<open>
  A nested \<open>MessageContent\<close> keeps the three fields of its class, in their order, and drops every other key.
\<close>

fun class_content :: "pyval \<Rightarrow> pyval" where
  "class_content (PDict m) = PDict (List.map_filter (\<lambda>k. map_option (Pair k) (map_of m k)) [''color'', ''fields'', ''text''])"
| "class_content v = v"

lemma class_content_twice [simp]: "class_content (class_content v) = class_content v"
  by (cases v) (auto simp: List.map_filter_simps split: option.splits)

lemma class_content_MessageContent [simp]: "class_content (MessageContent color flds txt) = MessageContent color flds txt"
  by (auto simp: MessageContent_def List.map_filter_simps split: option.splits)

definition event_typed :: "Event \<Rightarrow> bool" where
  "event_typed e = (fields_typed (field_of e) \<and> if_set (\<lambda>v. class_content v = v) (ev_message_content e))"

definition document_typed :: "pyval \<Rightarrow> bool" where
  "document_typed v = (case v of PDict d \<Rightarrow> fields_typed (map_of d) | _ \<Rightarrow> False)"

text \<open>
  What \<open>Event.model_validate\<close> promises: only dicts are events, an event has the types of its class, a
  document that has them is accepted, and a field that has its type keeps its value, the message content as its class has it.
\<close>

definition validated :: "(string \<times> pyval) list \<Rightarrow> string \<Rightarrow> pyval option" where
  "validated d k = (if k = ''message_content'' then map_option class_content (map_of d k) else map_of d k)"

definition keeps_fields :: "(string \<times> pyval) list \<Rightarrow> Event \<Rightarrow> bool" where
  "keeps_fields d e = list_all (\<lambda>(k, ty). if_set ty (map_of d k) \<longrightarrow> field_of e k = validated d k) event_types"

definition pydantic :: "(pyval \<Rightarrow> Event res) \<Rightarrow> bool" where
  "pydantic validate =
     ((\<forall>v e. validate v = Inr e \<longrightarrow> event_typed e \<and> (\<exists>d. v = PDict d \<and> keeps_fields d e)) \<and>
      (\<forall>v. document_typed v \<longrightarrow> (\<exists>e. validate v = Inr e)))"

section \<open>The dump of an event\<close>

lemma map_of_filtered:
  "distinct (map fst xs) \<Longrightarrow>
   map_of (List.map_filter (\<lambda>(k, v). map_option (Pair k) v) xs) k = (case map_of xs k of None \<Rightarrow> None | Some v \<Rightarrow> v)"
proof (induction xs)
  case (Cons x xs)
  then have "fst x = k \<Longrightarrow> map_of xs k = None" by (auto simp: map_of_eq_None_iff)
  with Cons show ?case by (cases x; cases "snd x") (auto simp: List.map_filter_simps)
qed (simp add: List.map_filter_simps)

lemma model_dump_fields: "\<exists>d. model_dump e = PDict d \<and> map_of d = field_of e"
proof -
  have "distinct (map fst (dump_fields e))" by (simp add: dump_fields_def)
  from map_of_filtered [OF this] show ?thesis by (auto simp: model_dump_def field_of_def)
qed

lemma field_of_simps [simp]:
  "field_of e ''channels'' = ev_channels e" "field_of e ''component'' = ev_component e" "field_of e ''counter'' = ev_counter e"
  "field_of e ''emoji'' = ev_emoji e" "field_of e ''exception'' = ev_exception_repr e"
  "field_of e ''message_content'' = ev_message_content e"
  "field_of e ''monitoring_slack_channel'' = ev_monitoring_slack_channel e"
  "field_of e ''pager_duty_description'' = ev_pager_duty_description e"
  "field_of e ''pager_duty_event_type'' = ev_pager_duty_event_type e" "field_of e ''notify_pager_duty'' = ev_notify_pager_duty e"
  "field_of e ''recycle_success'' = ev_recycle_success e" "field_of e ''status'' = ev_status e"
  "field_of e ''success_channel'' = ev_success_channel e" "field_of e ''team'' = ev_team e" "field_of e ''text'' = ev_text_line e"
  "field_of e ''username'' = ev_username e"
  by (simp_all add: field_of_def dump_fields_def)

lemma typed_dump:
  assumes "event_typed e"
  shows "\<exists>d. model_dump e = PDict d \<and> document_typed (PDict d) \<and> validated d = map_of d"
proof -
  from model_dump_fields obtain d where d: "model_dump e = PDict d" "map_of d = field_of e" by blast
  from assms have "document_typed (PDict d)" by (simp add: document_typed_def event_typed_def d(2))
  moreover have "validated d = map_of d"
    using assms by (auto simp: validated_def fun_eq_iff d(2) event_typed_def if_set_def split: option.splits)
  ultimately show ?thesis using d(1) by blast
qed

section \<open>The handler stays typed\<close>

lemma field_or_typed:
  "if_set ty v \<Longrightarrow> ty d \<Longrightarrow> ty (field_or d v)" "set_to ty v \<Longrightarrow> ty (field_or d v)"
  by (simp_all add: if_set_def set_to_def field_or_def split: option.splits)

lemma event_typed_iff:
  "event_typed e \<longleftrightarrow>
     if_set (optional (\<lambda>v. is_str_list v \<or> is_str v)) (ev_channels e) \<and> set_to is_str (ev_component e) \<and>
     if_set (optional is_int) (ev_counter e) \<and> if_set (optional is_str) (ev_emoji e) \<and>
     if_set (optional is_str) (ev_exception_repr e) \<and> if_set (optional is_message_content) (ev_message_content e) \<and>
     if_set is_str (ev_monitoring_slack_channel e) \<and> if_set (optional is_str) (ev_pager_duty_description e) \<and>
     if_set (optional is_str) (ev_pager_duty_event_type e) \<and> if_set (optional is_bool) (ev_notify_pager_duty e) \<and>
     if_set (optional is_bool) (ev_recycle_success e) \<and>
     if_set (optional (\<lambda>v. is_bool v \<or> is_str v)) (ev_status e) \<and>
     set_to is_str (ev_success_channel e) \<and> if_set (optional is_str) (ev_team e) \<and> if_set (optional is_str) (ev_text_line e) \<and>
     if_set (optional is_str) (ev_username e) \<and> if_set (\<lambda>v. class_content v = v) (ev_message_content e)"
  by (simp add: event_typed_def fields_typed_def event_types_def required_fields_def)

lemma optional_simps [simp]: "optional ty PNone" "ty v \<Longrightarrow> optional ty v"
  by (simp_all add: optional_def)

lemma MessageContent_typed:
  "is_message_content (MessageContent color flds txt)" if "flds = None \<or> (\<exists>fs. flds = Some (PList fs) \<and> list_all is_dict fs)"
  using that by (auto simp: MessageContent_def is_message_content_def split: option.splits)

lemma content_fields_typed: "\<exists>fs. message_content_fields E event = PList fs \<and> list_all is_dict fs"
  by (simp add: message_content_fields_def is_dict_def)

lemma with_message_typed:
  assumes "event_typed out" and "\<exists>fs. flds = PList fs \<and> list_all is_dict fs"
  shows "event_typed (with_message color flds txt b out)"
    and "event_typed ((with_message color flds txt b out)\<lparr>ev_status := Some (PBool c)\<rparr>)"
    and "event_typed (failed_output flds out)"
    and "event_typed ((failed_output flds out)\<lparr>ev_exception_repr := Some (PStr s)\<rparr>)"
  using assms MessageContent_typed [of "Some flds"]
  by (simp_all add: event_typed_iff with_message_def failed_output_def)

lemma create_output_typed:
  assumes "event_typed event" and "create_output_params event = Inr out"
  shows "event_typed out"
proof -
  from assms obtain n where out: "out = unset_event\<lparr>
      ev_channels := Some (field_or PNone (ev_channels event)), ev_component := Some (field_or PNone (ev_component event)),
      ev_counter := Some (PInt n), ev_emoji := Some (PStr '':robot_face:''),
      ev_monitoring_slack_channel := Some (monitoring_channel event),
      ev_notify_pager_duty := Some (field_or PNone (ev_notify_pager_duty event)), ev_status := Some (PBool True),
      ev_success_channel := Some (field_or PNone (ev_success_channel event)), ev_team := Some (field_or PNone (ev_team event)),
      ev_text_line := Some (PStr (''*'' @ py_str (field_or PNone (ev_component event)) @ ''*'')),
      ev_username := Some (PStr ''AutoRecycling'')\<rparr>"
  proof -
    have "optional is_int (field_or PNone (ev_counter event))"
      using assms(1) by (simp add: event_typed_iff field_or_typed)
    then have "\<exists>n. (if py_truth (field_or PNone (ev_counter event)) then py_add_one (field_or PNone (ev_counter event))
        else Inr (PInt 1)) = Inr (PInt n)"
      by (cases "field_or PNone (ev_counter event)") (simp_all add: optional_def py_add_one_def)
    with that assms(2) show ?thesis by (auto simp: create_output_params_def Let_def)
  qed
  from assms(1) show ?thesis
    by (simp add: out event_typed_iff unset_event_def field_or_typed monitoring_channel_def)
qed

lemma scale_next_typed:
  assumes "event_typed out" and "\<exists>fs. flds = PList fs \<and> list_all is_dict fs"
  shows "wp (scale_next E flds out asgs details) (\<lambda>o' _. event_typed o') (\<lambda>_ _. True) s"
  unfolding scale_next_def using with_message_typed [OF assms]
  by (intro wp_bind_any) (auto simp: wp_simps execute_scaling_policy_def split: option.splits sum.splits)

lemma scale_groups_typed:
  assumes "event_typed out" and "\<exists>fs. flds = PList fs \<and> list_all is_dict fs"
  shows "wp (scale_groups E compile event flds out) (\<lambda>o' _. event_typed o') (\<lambda>_ _. True) s"
  unfolding scale_groups_def using with_message_typed [OF assms]
  by (intro wp_bind_any) (auto simp: wp_return scale_next_typed [OF assms])

lemma scale_asg_typed:
  assumes "event_typed event"
  shows "wp (scale_asg E compile event) (\<lambda>out _. event_typed out) (\<lambda>_ _. True) s"
proof (cases "create_output_params event")
  case (Inr out)
  from create_output_typed [OF assms Inr] have out: "event_typed out" .
  have "wp (io_catch (scale_groups E compile event (message_content_fields E event) out)
      (\<lambda>err. io_return ((failed_output (message_content_fields E event) out)\<lparr>ev_exception_repr := Some (PStr (exn_repr err))\<rparr>)))
      (\<lambda>out _. event_typed out) (\<lambda>_ _. True) s"
    unfolding wp_catch
    by (rule wp_mono [OF scale_groups_typed [OF out content_fields_typed]])
      (simp_all add: wp_return with_message_typed [OF out content_fields_typed])
  with Inr show ?thesis by (simp add: scale_asg_def wp_bind wp_res Let_def)
qed (simp add: scale_asg_def wp_bind wp_res)

lemma handle_event_typed:
  assumes "pydantic validate"
  shows "wp (handle_event E compile validate v) (\<lambda>out _. event_typed out) (\<lambda>_ _. True) s"
proof (cases "validate v")
  case (Inr event)
  with assms have event: "event_typed event" by (auto simp: pydantic_def)
  moreover from event have "event_typed (event\<lparr>ev_counter := Some (PInt 0), ev_channels := Some (field_or PNone (ev_success_channel event))\<rparr>)"
    by (simp add: event_typed_iff field_or_typed)
  moreover from event have "event_typed (taking_too_long event)"
    using MessageContent_typed [of None]
    by (simp add: event_typed_iff taking_too_long_def unset_event_def Let_def field_or_typed monitoring_channel_def)
  ultimately show ?thesis
    using Inr scale_asg_typed by (auto simp: handle_event_def wp_simps Let_def split: sum.splits)
qed (simp add: handle_event_def wp_bind wp_res)

lemma scale_handler_typed:
  assumes "pydantic validate" and "scale_lambda_handler E compile validate v s = (Inr out, t)"
  shows "\<exists>d. out = PDict d \<and> document_typed (PDict d) \<and> validated d = map_of d"
proof -
  from assms(2) obtain event where "handle_event E compile validate v s = (Inr event, t)" and out: "out = model_dump event"
    by (auto simp: scale_lambda_handler_def io_bind_def io_return_def split: prod.splits sum.splits)
  with handle_event_typed [OF assms(1), of E compile v s] show ?thesis by (blast dest: wp_Inr typed_dump)
qed

lemma typed_fields_kept:
  assumes "keeps_fields d e" and "document_typed (PDict d)" and "k \<in> set (map fst event_types)"
  shows "field_of e k = validated d k"
proof -
  from assms(3) obtain ty where ty: "(k, ty) \<in> set event_types" by auto
  with assms(2) have "if_set ty (map_of d k)"
    by (force simp: document_typed_def fields_typed_def list_all_iff if_set_def set_to_def split: option.splits if_splits)
  with ty assms(1) show ?thesis by (force simp: keeps_fields_def list_all_iff)
qed

text \<open>
  C31. The output of the in-out recycler is a well-typed event: whatever it is called with and
  whatever the services answer, each field it sets has its type, and the fields without a default
  are set. So the validation of the next run accepts it and keeps its fields.
\<close>

theorem scale_output_typed:
  assumes "pydantic validate" and "scale_lambda_handler E compile validate v s = (Inr out, t)"
  shows "document_typed out \<and> (\<exists>d e. out = PDict d \<and> validate out = Inr e \<and>
    (\<forall>k. k \<in> set (map fst event_types) \<longrightarrow> field_of e k = map_of d k))"
proof -
  from scale_handler_typed [OF assms] obtain d where d: "out = PDict d" "document_typed (PDict d)" "validated d = map_of d" by blast
  with assms(1) obtain e where e: "validate (PDict d) = Inr e" "keeps_fields d e"
    unfolding pydantic_def by fastforce
  with d typed_fields_kept [OF e(2) d(2)] show ?thesis by (intro conjI exI [of _ d] exI [of _ e]) auto
qed

section \<open>A validation\<close>

text \<open>The validation that accepts exactly the documents whose fields have their types.\<close>

definition kept_event :: "(string \<times> pyval) list \<Rightarrow> Event" where
  "kept_event d =
     \<lparr>ev_channels = map_of d ''channels'', ev_component = map_of d ''component'', ev_counter = map_of d ''counter'',
      ev_emoji = map_of d ''emoji'', ev_exception_repr = map_of d ''exception'',
      ev_message_content = map_option class_content (map_of d ''message_content''),
      ev_monitoring_slack_channel = map_of d ''monitoring_slack_channel'',
      ev_pager_duty_description = map_of d ''pager_duty_description'',
      ev_pager_duty_event_type = map_of d ''pager_duty_event_type'', ev_notify_pager_duty = map_of d ''notify_pager_duty'',
      ev_recycle_success = map_of d ''recycle_success'', ev_status = map_of d ''status'',
      ev_success_channel = map_of d ''success_channel'', ev_team = map_of d ''team'', ev_text_line = map_of d ''text'',
      ev_username = map_of d ''username''\<rparr>"

definition strict_validate :: "pyval \<Rightarrow> Event res" where
  "strict_validate v =
     (case v of
        PDict d \<Rightarrow> if document_typed v then Inr (kept_event d) else Inl (Exn (LibraryError ''ValidationError'') None)
      | _ \<Rightarrow> Inl (Exn (LibraryError ''ValidationError'') None))"

lemma kept_event_keeps: "keeps_fields d (kept_event d)"
  by (simp add: keeps_fields_def event_types_def kept_event_def validated_def)

lemma class_content_typed:
  assumes "optional is_message_content v"
  shows "optional is_message_content (class_content v)"
proof (cases v)
  case (PDict m)
  have "map_of (List.map_filter (\<lambda>k. map_option (Pair k) (map_of m k)) [''color'', ''fields'', ''text'']) k =
      (if k \<in> {''color'', ''fields'', ''text''} then map_of m k else None)" for k
    by (auto simp: List.map_filter_simps split: option.splits)
  with assms PDict show ?thesis by (simp add: optional_def is_message_content_def)
qed (use assms in simp_all)

lemma kept_event_typed: "document_typed (PDict d) \<Longrightarrow> event_typed (kept_event d)"
  by (cases "map_of d ''message_content''")
    (simp_all add: document_typed_def fields_typed_def event_types_def required_fields_def event_typed_iff kept_event_def
      class_content_typed)

lemma strict_validate_pydantic: "pydantic strict_validate"
  using kept_event_keeps kept_event_typed
  by (auto simp: pydantic_def strict_validate_def split: pyval.splits if_splits) (auto simp: document_typed_def split: pyval.splits)

lemma scale_output_typed_witness:
  "\<exists>out t. scale_lambda_handler sample_scale no_pattern strict_validate
      (PDict [(''component'', PStr ''api''), (''success_channel'', PStr ''team'')]) fresh_world = (Inr out, t) \<and> document_typed out"
proof -
  let ?v = "PDict [(''component'', PStr ''api''), (''success_channel'', PStr ''team'')]"
  have typed: "document_typed ?v" by (simp add: document_typed_def fields_typed_def event_types_def required_fields_def)
  then obtain e where e: "strict_validate ?v = Inr e" "ev_counter e = None"
    by (simp add: strict_validate_def kept_event_def)
  from scale_asg_counts [of "e\<lparr>ev_counter := Some (PInt 0), ev_channels := Some (field_or PNone (ev_success_channel e))\<rparr>" 0
      sample_scale no_pattern fresh_world]
  obtain out t where "scale_lambda_handler sample_scale no_pattern strict_validate ?v fresh_world = (Inr out, t)"
    using e by (auto simp: scale_lambda_handler_def handle_event_def io_bind_def io_res_def io_return_def Let_def field_or_def)
  with scale_output_typed [OF strict_validate_pydantic this] show ?thesis by blast
qed

end
