(* ===== verification/MonitorAutorecycle.thy ===== *)
theory MonitorAutorecycle
  imports Asg
begin

text \<open>
  The Lambda that watches a recycle, \<open>monitor_autorecycle/main.py\<close>: whether the instances of a
  component's group are healthy and were all launched together, and the counter that gives up.
  The lemmas characterise a finished recycle and every outcome of a run.
\<close>

section \<open>The group of a component\<close>

definition monitor_find_asg :: "pyval \<Rightarrow> pyval \<Rightarrow> pyval res" where
  "monitor_find_asg component pages =
     res_bind (all_groups pages) (\<lambda>auto_scaling_groups.
     res_bind (res_filter (\<lambda>asg.
         res_bind (py_item asg ''AutoScalingGroupName'') (\<lambda>name.
         res_bind (need_str name (no_attribute name ''startswith'')) (\<lambda>n.
         Inr (prefix (py_str component @ ''-asg'') n)))) auto_scaling_groups) (\<lambda>lookup.
     case lookup of
       [] \<Rightarrow> Inl (py_exception (''No ASG found for '' @ py_str component))
     | asg # _ \<Rightarrow>
         res_bind (py_item asg ''MaxSize'') (\<lambda>max_size.
         if py_eq max_size (PInt 0) then Inl (Exn ScaledDownASGException None)
         else
           res_bind (py_item asg ''Instances'') (\<lambda>instances.
           if py_truth instances then res_bind (py_len instances) (\<lambda>_. Inr asg)
           else Inl (py_exception (''No ASG found for '' @ py_str component))))))"

definition monitor_describe_asg :: "env \<Rightarrow> pyval \<Rightarrow> ('z world_scheme, pyval) io" where
  "monitor_describe_asg E component =
     io_bind (request E DescribeAutoScalingGroups) (\<lambda>pages. io_res (monitor_find_asg component pages))"

definition monitor_scaling_activities :: "env \<Rightarrow> pyval \<Rightarrow> ('z world_scheme, pyval) io" where
  "monitor_scaling_activities E asg_name =
     io_bind (request E (DescribeScalingActivities asg_name 20)) (\<lambda>response. io_res (py_item response ''Activities''))"

section \<open>The launches of the instances\<close>

definition get_launching_activities :: "pyval \<Rightarrow> pyval list res" where
  "get_launching_activities scaling_activities =
     res_bind (py_iter scaling_activities) (\<lambda>activities.
     res_filter (\<lambda>activity. res_bind (py_item activity ''Description'') (py_in ''Launching'')) activities)"

definition last_instance_activity_time :: "pyval list \<Rightarrow> pyval \<Rightarrow> pyval option res" where
  "last_instance_activity_time scaling_activities iid =
     res_bind (res_filter (\<lambda>activity. res_bind (py_item activity ''Description'') (py_contains iid)) scaling_activities)
       (\<lambda>instance_activities.
     if instance_activities = [] then Inr None
     else
       res_bind (res_map (\<lambda>activity. py_item activity ''StartTime'') instance_activities) (\<lambda>start_times.
       res_bind (py_sorted start_times) (\<lambda>ts.
       res_bind (list_index ts (-1)) (\<lambda>t. Inr (Some t)))))"

fun combinations2 :: "'a list \<Rightarrow> ('a \<times> 'a) list" where
  "combinations2 [] = []"
| "combinations2 (x # xs) = map (Pair x) xs @ combinations2 xs"

fun all_within :: "int \<Rightarrow> (pyval \<times> pyval) list \<Rightarrow> bool res" where
  "all_within diff [] = Inr True"
| "all_within diff ((a, b) # rest) =
     res_bind (py_date_diff a b) (\<lambda>forward.
     if forward > diff then Inr False
     else
       res_bind (py_date_diff b a) (\<lambda>backward.
       if backward > diff then Inr False else all_within diff rest))"

definition compare_start_times :: "pyval list \<Rightarrow> int \<Rightarrow> bool res" where
  "compare_start_times last_launching_activity_times delta =
     all_within (delta * 60 * 1000000) (combinations2 last_launching_activity_times)"

fun check_instances_from :: "pyval list \<Rightarrow> pyval list \<Rightarrow> pyval list \<Rightarrow> bool res" where
  "check_instances_from launching_activities starts [] = compare_start_times starts 2"
| "check_instances_from launching_activities starts (inst # rest) =
     res_bind (py_item inst ''InstanceId'') (\<lambda>iid.
     res_bind (py_item inst ''HealthStatus'') (\<lambda>health_status.
     res_bind (py_item inst ''LifecycleState'') (\<lambda>lifecycle_state.
     if \<not> py_eq health_status (PStr ''Healthy'') \<or> \<not> py_eq lifecycle_state (PStr ''InService'')
     then Inr False
     else
       res_bind (last_instance_activity_time launching_activities iid) (\<lambda>last_activity_time.
       case last_activity_time of
         None \<Rightarrow> Inr False
       | Some t \<Rightarrow> check_instances_from launching_activities (starts @ [t]) rest))))"

definition check_instances :: "pyval \<Rightarrow> pyval list \<Rightarrow> bool res" where
  "check_instances asg launching_activities =
     res_bind (py_item asg ''Instances'') (\<lambda>v.
     res_bind (py_iter v) (\<lambda>instances.
     check_instances_from launching_activities [] instances))"

definition check :: "env \<Rightarrow> pyval \<Rightarrow> ('z world_scheme, bool) io" where
  "check E component =
     io_bind (monitor_describe_asg E component) (\<lambda>asg.
     io_bind (io_res (py_item asg ''AutoScalingGroupName'')) (\<lambda>asg_name.
     io_bind (monitor_scaling_activities E asg_name) (\<lambda>scaling_activities.
     io_bind (io_res (get_launching_activities scaling_activities)) (\<lambda>launching_activities.
     if launching_activities = [] then io_return False
     else io_res (check_instances asg launching_activities)))))"

section \<open>A run\<close>

text \<open>\<open>output["message_content"][key] = v\<close>\<close>

definition set_content :: "string \<Rightarrow> pyval \<Rightarrow> pyval \<Rightarrow> pyval res" where
  "set_content key v out =
     res_bind (py_item out ''message_content'') (\<lambda>content.
     res_bind (py_set_item content key v) (\<lambda>content'.
     py_set_item out ''message_content'' content'))"

definition default_item :: "string \<Rightarrow> pyval \<Rightarrow> pyval \<Rightarrow> pyval res" where
  "default_item key v out =
     res_bind (py_in key out) (\<lambda>present. if present then Inr out else py_set_item out key v)"

definition count_run :: "pyval \<Rightarrow> pyval res" where
  "count_run event =
     res_bind (default_item ''message_content'' (PDict []) event) (\<lambda>out1.
     res_bind (default_item ''counter'' (PInt 0) out1) (\<lambda>out2.
     res_bind (py_item out2 ''counter'') (\<lambda>c.
     res_bind (py_add_one c) (\<lambda>c'.
     py_set_item out2 ''counter'' c'))))"

definition give_up :: "pyval \<Rightarrow> pyval res" where
  "give_up out =
     res_bind (set_content ''color'' (PStr ''danger'') out) (\<lambda>out1.
     res_bind (set_content ''text''
       (PStr ''Autorecycling appears to be taking too long :scream: please investigate.'') out1) (\<lambda>out2.
     res_bind (py_item out2 ''channels'') (\<lambda>channels.
     res_bind (py_set_item out2 ''channels'' channels) (\<lambda>out3.
     res_bind (py_set_item out3 ''status'' (PStr ''fail'')) (\<lambda>out4.
     py_set_item out4 ''recycle_success'' (PBool False))))))"

definition finished :: "string \<Rightarrow> pyval \<Rightarrow> pyval res" where
  "finished txt out =
     res_bind (set_content ''text'' (PStr txt) out) (\<lambda>out1.
     py_set_item out1 ''recycle_success'' (PBool True))"

definition monitor_autorecycle :: "env \<Rightarrow> pyval \<Rightarrow> ('z world_scheme, pyval) io" where
  "monitor_autorecycle E event =
     io_bind (io_res (count_run event)) (\<lambda>out.
     io_bind (io_res (res_bind (py_item out ''counter'') (py_num_lt (PInt 20)))) (\<lambda>too_long.
     if too_long then io_res (give_up out)
     else
       io_catch_class ScaledDownASGException
         (io_bind (io_res (py_item out ''component'')) (\<lambda>component.
          io_bind (check E component) (\<lambda>complete.
          io_res
            (if complete then finished ''Autorecycling has successfully completed'' out
             else py_set_item out ''recycle_success'' (PBool False)))))
         (\<lambda>_. io_res (finished ''The ASG is scaled down to 0 instances, auto-recycling is not required'' out))))"

definition monitor_lambda_handler :: "env \<Rightarrow> pyval \<Rightarrow> ('z world_scheme, pyval) io" where
  "monitor_lambda_handler E event =
     io_bind (io_res (py_in ''component'' event)) (\<lambda>present.
     if \<not> present then io_raise (py_exception ''No component in event'')
     else monitor_autorecycle E event)"

section \<open>A finished recycle\<close>

text \<open>A typed instance of a group and a typed scaling activity, with their JSON.\<close>

record asg_instance =
  member_id :: string
  health :: string
  lifecycle :: string

record activity =
  description :: string
  start_time :: int

definition asg_instance_json :: "asg_instance \<Rightarrow> pyval" where
  "asg_instance_json i =
     PDict [(''InstanceId'', PStr (member_id i)), (''HealthStatus'', PStr (health i)), (''LifecycleState'', PStr (lifecycle i))]"

definition activity_json :: "activity \<Rightarrow> pyval" where
  "activity_json a = PDict [(''Description'', PStr (description a)), (''StartTime'', utc (start_time a))]"

text \<open>The last launch of an instance: the latest activity that names it.\<close>

definition launches_of :: "activity list \<Rightarrow> string \<Rightarrow> int list" where
  "launches_of acts iid = map start_time (filter (\<lambda>a. str_contains iid (description a)) acts)"

definition last_launch :: "activity list \<Rightarrow> string \<Rightarrow> int option" where
  "last_launch acts iid = (if launches_of acts iid = [] then None else Some (Max (set (launches_of acts iid))))"

lemma list_index_last: "ys \<noteq> [] \<Longrightarrow> list_index ys (-1) = Inr (last ys)"
  by (cases ys rule: rev_cases) (auto simp: list_index_def Let_def nth_append)

lemma last_instance_activity_time_json:
  "last_instance_activity_time (map activity_json acts) (PStr iid) = Inr (map_option utc (last_launch acts iid))"
proof -
  have filtered: "res_filter (\<lambda>activity. res_bind (py_item activity ''Description'') (py_contains (PStr iid))) (map activity_json acts) =
      Inr (map activity_json (filter (\<lambda>a. str_contains iid (description a)) acts))"
    by (induction acts) (auto simp: activity_json_def py_item_PDict py_contains_def py_in_def)
  have starts: "res_map (\<lambda>activity. py_item activity ''StartTime'') (map activity_json as) = Inr (map utc (map start_time as))" for as
    by (induction as) (auto simp: activity_json_def py_item_PDict)
  obtain ts where ts: "py_sorted (map utc (launches_of acts iid)) = Inr (map utc ts)" "sorted ts" "set ts = set (launches_of acts iid)"
    using py_sorted_utc by blast
  show ?thesis
  proof (cases "launches_of acts iid = []")
    case True
    then have none: "filter (\<lambda>a. str_contains iid (description a)) acts = []" by (simp add: launches_of_def)
    with True show ?thesis
      by (simp only: last_instance_activity_time_def filtered none) (simp add: last_launch_def)
  next
    case False
    with ts(3) have "ts \<noteq> []" by auto
    with ts have "list_index (map utc ts) (-1) = Inr (utc (Max (set (launches_of acts iid))))"
      by (simp add: list_index_last last_map sorted_last_Max)
    with False ts(1) show ?thesis
      by (simp add: last_instance_activity_time_def filtered starts launches_of_def last_launch_def)
  qed
qed

lemma all_within_utc:
  "all_within diff (map (\<lambda>(a, b). (utc a, utc b)) ps) = Inr (list_all (\<lambda>(a, b). \<bar>a - b\<bar> \<le> diff) ps)"
  by (induction ps) (auto simp: abs_if)

lemma combinations2_map: "combinations2 (map f xs) = map (\<lambda>(a, b). (f a, f b)) (combinations2 xs)"
  by (induction xs) auto

lemma combinations2_close:
  "0 \<le> diff \<Longrightarrow> list_all (\<lambda>(a, b). \<bar>a - b\<bar> \<le> diff) (combinations2 ts) \<longleftrightarrow>
     list_all (\<lambda>a. list_all (\<lambda>b. \<bar>a - b\<bar> \<le> (diff :: int)) ts) ts"
proof (induction ts)
  case (Cons x ts)
  then show ?case by (simp add: list_all_iff ball_Un) (metis abs_minus_commute)
qed simp

lemma compare_start_times_utc:
  "compare_start_times (map utc ts) 2 =
     Inr (list_all (\<lambda>a. list_all (\<lambda>b. \<bar>a - b\<bar> \<le> 2 * 60 * 1000000) ts) ts)"
  using combinations2_close [of "2 * 60 * 1000000" ts]
  by (simp add: compare_start_times_def combinations2_map all_within_utc)

definition settled :: "activity list \<Rightarrow> asg_instance \<Rightarrow> bool" where
  "settled acts i = (health i = ''Healthy'' \<and> lifecycle i = ''InService'' \<and> last_launch acts (member_id i) \<noteq> None)"

lemma check_instances_from_json:
  "check_instances_from (map activity_json acts) (map utc ts) (map asg_instance_json insts) =
     Inr (list_all (settled acts) insts \<and>
       (let starts = ts @ map (\<lambda>i. the (last_launch acts (member_id i))) insts
        in list_all (\<lambda>a. list_all (\<lambda>b. \<bar>a - b\<bar> \<le> 2 * 60 * 1000000) starts) starts))"
proof (induction insts arbitrary: ts)
  case Nil
  show ?case by (simp add: compare_start_times_utc)
next
  case (Cons i insts)
  have items: "py_item (asg_instance_json i) ''InstanceId'' = Inr (PStr (member_id i))"
    "py_item (asg_instance_json i) ''HealthStatus'' = Inr (PStr (health i))"
    "py_item (asg_instance_json i) ''LifecycleState'' = Inr (PStr (lifecycle i))"
    by (simp_all add: asg_instance_json_def py_item_PDict)
  show ?case
  proof (cases "settled acts i")
    case True
    then obtain t where t: "last_launch acts (member_id i) = Some t" by (auto simp: settled_def)
    with True Cons.IH [of "ts @ [t]"] show ?thesis
      by (simp add: items last_instance_activity_time_json settled_def)
  next
    case False
    then show ?thesis
      by (cases "last_launch acts (member_id i)") (auto simp: items last_instance_activity_time_json settled_def)
  qed
qed

text \<open>
  A recycle counts as complete exactly when every instance of the group is Healthy and
  InService, was named by a launch, and the last launches of any two instances are at most two
  minutes apart.
\<close>

theorem check_instances_spec:
  "check_instances (PDict ((''Instances'', PList (map asg_instance_json insts)) # asg)) (map activity_json acts) =
     Inr (list_all (\<lambda>i. health i = ''Healthy'' \<and> lifecycle i = ''InService'' \<and> launches_of acts (member_id i) \<noteq> []) insts \<and>
       list_all (\<lambda>i. list_all (\<lambda>j.
         \<bar>Max (set (launches_of acts (member_id i))) - Max (set (launches_of acts (member_id j)))\<bar> \<le> 120000000) insts) insts)"
proof -
  have ok: "settled acts i \<longleftrightarrow> health i = ''Healthy'' \<and> lifecycle i = ''InService'' \<and> launches_of acts (member_id i) \<noteq> []" for i
    by (auto simp: settled_def last_launch_def)
  have "list_all (settled acts) insts \<Longrightarrow> i \<in> set insts \<Longrightarrow>
      the (last_launch acts (member_id i)) = Max (set (launches_of acts (member_id i)))" for i
    by (auto simp: ok list_all_iff last_launch_def)
  then show ?thesis
    using check_instances_from_json [of acts "[]" insts]
    by (auto simp: check_instances_def py_item_PDict ok list_all_iff list.pred_map)
qed

section \<open>The group that is checked\<close>

record asg_group =
  group_name :: string
  max_size :: int
  members :: "asg_instance list"

definition group_json :: "asg_group \<Rightarrow> pyval" where
  "group_json g =
     PDict [(''Instances'', PList (map asg_instance_json (members g))), (''AutoScalingGroupName'', PStr (group_name g)),
            (''MaxSize'', PInt (max_size g))]"

definition pages_json :: "asg_group list list \<Rightarrow> pyval" where
  "pages_json pages = PList (map (\<lambda>gs. PDict [(''AutoScalingGroups'', PList (map group_json gs))]) pages)"

lemma all_groups_json: "all_groups (pages_json pages) = Inr (map group_json (concat pages))"
proof -
  have "res_map (\<lambda>page. res_bind (py_item page ''AutoScalingGroups'') py_iter)
      (map (\<lambda>gs. PDict [(''AutoScalingGroups'', PList (map group_json gs))]) pages) = Inr (map (map group_json) pages)"
    by (induction pages) (auto simp: py_item_PDict)
  then show ?thesis by (simp add: all_groups_def pages_json_def map_concat)
qed

lemma group_json_items:
  "py_item (group_json g) ''AutoScalingGroupName'' = Inr (PStr (group_name g))"
  "py_item (group_json g) ''MaxSize'' = Inr (PInt (max_size g))"
  "py_item (group_json g) ''Instances'' = Inr (PList (map asg_instance_json (members g)))"
  by (simp_all add: group_json_def py_item_PDict)

lemma monitor_find_asg_json:
  "monitor_find_asg component (pages_json pages) =
     (case filter (\<lambda>g. prefix (py_str component @ ''-asg'') (group_name g)) (concat pages) of
        [] \<Rightarrow> Inl (py_exception (''No ASG found for '' @ py_str component))
      | g # _ \<Rightarrow>
          if max_size g = 0 then Inl (Exn ScaledDownASGException None)
          else if members g = [] then Inl (py_exception (''No ASG found for '' @ py_str component))
          else Inr (group_json g))"
proof -
  have "res_filter (\<lambda>asg. res_bind (py_item asg ''AutoScalingGroupName'') (\<lambda>name.
        res_bind (need_str name (no_attribute name ''startswith'')) (\<lambda>n. Inr (prefix (py_str component @ ''-asg'') n))))
      (map group_json gs) = Inr (map group_json (filter (\<lambda>g. prefix (py_str component @ ''-asg'') (group_name g)) gs))" for gs
    by (induction gs) (auto simp: group_json_items)
  then show ?thesis
    by (auto simp: monitor_find_asg_def all_groups_json group_json_items split: list.splits)
qed

section \<open>The outcome of a run\<close>

text \<open>An event as the state machine hands it over: counted runs, and a dict for the message, if any.\<close>

definition monitored :: "(string \<times> pyval) list \<Rightarrow> int \<Rightarrow> bool" where
  "monitored d n =
     ((case map_of d ''counter'' of None \<Rightarrow> n = 0 | Some c \<Rightarrow> c = PInt n) \<and>
      (case map_of d ''message_content'' of None \<Rightarrow> True | Some c \<Rightarrow> is_dict c))"

lemma count_run_monitored:
  assumes "monitored d n"
  shows "\<exists>d1 m. count_run (PDict d) = Inr (PDict d1) \<and> map_of d1 ''counter'' = Some (PInt (n + 1)) \<and>
    map_of d1 ''message_content'' = Some (PDict m) \<and>
    (\<forall>k. k \<notin> {''counter'', ''message_content''} \<longrightarrow> map_of d1 k = map_of d k)"
proof -
  let ?d1 = "if map_of d ''message_content'' = None then AList.update ''message_content'' (PDict []) d else d"
  let ?d2 = "if map_of ?d1 ''counter'' = None then AList.update ''counter'' (PInt 0) ?d1 else ?d1"
  have "count_run (PDict d) = Inr (PDict (AList.update ''counter'' (PInt (n + 1)) ?d2))"
    using assms by (auto simp: count_run_def default_item_def monitored_def py_item_PDict update_conv' py_add_one_def
        split: option.splits)
  moreover have "\<exists>m. map_of ?d2 ''message_content'' = Some (PDict m)"
    using assms by (auto simp: monitored_def update_conv' is_dict_def split: option.splits pyval.splits)
  moreover have "map_of ?d2 k = map_of d k" if "k \<notin> {''counter'', ''message_content''}" for k
    using that by (auto simp: update_conv')
  ultimately show ?thesis by (fastforce simp: update_conv')
qed

lemma finished_run:
  assumes "map_of d1 ''message_content'' = Some (PDict m)"
  shows "finished txt (PDict d1) = Inr (PDict (AList.update ''recycle_success'' (PBool True)
    (AList.update ''message_content'' (PDict (AList.update ''text'' (PStr txt) m)) d1)))"
  using assms by (simp add: finished_def set_content_def py_item_PDict)

lemma give_up_run:
  assumes "map_of d1 ''message_content'' = Some (PDict m)" and "map_of d1 ''channels'' = Some ch"
  shows "\<exists>out. give_up (PDict d1) = Inr (PDict out) \<and> map_of out ''status'' = Some (PStr ''fail'') \<and>
    map_of out ''recycle_success'' = Some (PBool False) \<and> map_of out ''channels'' = Some ch \<and>
    map_of out ''counter'' = map_of d1 ''counter''"
  using assms by (simp add: give_up_def set_content_def py_item_PDict update_conv')

lemma give_up_no_channels:
  "map_of d1 ''message_content'' = Some (PDict m) \<Longrightarrow> map_of d1 ''channels'' = None \<Longrightarrow>
   give_up (PDict d1) = Inl (Exn KeyError (Some (PStr ''channels'')))"
  by (simp add: give_up_def set_content_def py_item_PDict update_conv')

definition reported :: "(string \<times> pyval) list \<Rightarrow> int \<Rightarrow> bool \<Rightarrow> (string \<times> pyval) list \<Rightarrow> bool" where
  "reported d n success out =
     (map_of out ''counter'' = Some (PInt (n + 1)) \<and> map_of out ''recycle_success'' = Some (PBool success) \<and>
      (\<forall>k. k \<notin> {''counter'', ''message_content'', ''recycle_success''} \<longrightarrow> map_of out k = map_of d k))"

text \<open>A run below the limit of 20, and one beyond it.\<close>

lemma monitor_below_limit:
  assumes "monitored d n" and "map_of d ''component'' = Some component" and "n < 20"
  shows "case check E component s of
        (Inl e, t) \<Rightarrow>
          if exn_cls e = ScaledDownASGException
          then \<exists>out. monitor_lambda_handler E (PDict d) s = (Inr (PDict out), t) \<and> reported d n True out
          else monitor_lambda_handler E (PDict d) s = (Inl e, t)
      | (Inr complete, t) \<Rightarrow> \<exists>out. monitor_lambda_handler E (PDict d) s = (Inr (PDict out), t) \<and> reported d n complete out"
proof -
  from count_run_monitored [OF assms(1)] obtain d1 m where
    count: "count_run (PDict d) = Inr (PDict d1)" and d1: "map_of d1 ''counter'' = Some (PInt (n + 1))"
      "map_of d1 ''message_content'' = Some (PDict m)"
      "\<forall>k. k \<notin> {''counter'', ''message_content''} \<longrightarrow> map_of d1 k = map_of d k" by blast
  note fin = finished_run [OF d1(2)]
  have comp: "map_of d1 ''component'' = Some component" using d1(3) assms(2) by simp
  have rep: "reported d n True (AList.update ''recycle_success'' (PBool True) (AList.update ''message_content'' v d1))"
    "reported d n b (AList.update ''recycle_success'' (PBool b) d1)" for v b
    using d1 by (simp_all add: reported_def update_conv')
  have "monitor_lambda_handler E (PDict d) s =
      (case check E component s of
         (Inl e, t) \<Rightarrow>
           if exn_cls e = ScaledDownASGException
           then (finished ''The ASG is scaled down to 0 instances, auto-recycling is not required'' (PDict d1), t)
           else (Inl e, t)
       | (Inr b, t) \<Rightarrow>
           (if b then finished ''Autorecycling has successfully completed'' (PDict d1)
            else Inr (PDict (AList.update ''recycle_success'' (PBool False) d1)), t))"
    using assms(2,3) by (cases "check E component s")
      (auto simp: monitor_lambda_handler_def monitor_autorecycle_def io_bind_def io_res_def io_catch_class_def io_catch_def
        io_raise_def count py_item_PDict d1(1) comp fin split: sum.splits)
  then show ?thesis using rep by (cases "check E component s") (auto simp: fin split: sum.splits)
qed

lemma monitor_beyond_limit:
  assumes "monitored d n" and "map_of d ''component'' = Some component" and "n \<ge> 20"
  shows "case map_of d ''channels'' of
      None \<Rightarrow> monitor_lambda_handler E (PDict d) s = (Inl (Exn KeyError (Some (PStr ''channels''))), s)
    | Some ch \<Rightarrow> \<exists>out. monitor_lambda_handler E (PDict d) s = (Inr (PDict out), s) \<and>
        map_of out ''status'' = Some (PStr ''fail'') \<and> map_of out ''recycle_success'' = Some (PBool False) \<and>
        map_of out ''channels'' = Some ch \<and> map_of out ''counter'' = Some (PInt (n + 1))"
proof -
  from count_run_monitored [OF assms(1)] obtain d1 m where
    count: "count_run (PDict d) = Inr (PDict d1)" and d1: "map_of d1 ''counter'' = Some (PInt (n + 1))"
      "map_of d1 ''message_content'' = Some (PDict m)"
      "\<forall>k. k \<notin> {''counter'', ''message_content''} \<longrightarrow> map_of d1 k = map_of d k" by blast
  then have chan: "map_of d1 ''channels'' = map_of d ''channels''" by simp
  have run: "monitor_lambda_handler E (PDict d) s = (give_up (PDict d1), s)"
    using assms(2,3)
    by (simp add: monitor_lambda_handler_def monitor_autorecycle_def io_bind_def io_res_def count py_item_PDict d1(1))
  show ?thesis
  proof (cases "map_of d ''channels''")
    case None
    with run chan give_up_no_channels [OF d1(2)] show ?thesis by simp
  next
    case (Some ch)
    with chan have "map_of d1 ''channels'' = Some ch" by simp
    from give_up_run [OF d1(2) this] d1(1) Some run show ?thesis by auto
  qed
qed

text \<open>
  C13. Every outcome of a run, for an event with a component and \<open>n\<close> earlier runs. From the 21st run
  on it makes no call and reports \<open>fail\<close> and no success on the event's channels (a KeyError when
  there are none). Before that it counts the run and reports success exactly when the check
  found the recycle complete or the group scaled down to 0; any other exception is raised. The status and every other field
  are those of the event then, although the README has the status follow the success.
\<close>

theorem monitor_outcome:
  assumes "monitored d n" and "map_of d ''component'' = Some component"
  shows "if n \<ge> 20
    then (case map_of d ''channels'' of
        None \<Rightarrow> monitor_lambda_handler E (PDict d) s = (Inl (Exn KeyError (Some (PStr ''channels''))), s)
      | Some ch \<Rightarrow> \<exists>out. monitor_lambda_handler E (PDict d) s = (Inr (PDict out), s) \<and>
          map_of out ''status'' = Some (PStr ''fail'') \<and> map_of out ''recycle_success'' = Some (PBool False) \<and>
          map_of out ''channels'' = Some ch \<and> map_of out ''counter'' = Some (PInt (n + 1)))
    else (case check E component s of
        (Inl e, t) \<Rightarrow>
          if exn_cls e = ScaledDownASGException
          then \<exists>out. monitor_lambda_handler E (PDict d) s = (Inr (PDict out), t) \<and> reported d n True out
          else monitor_lambda_handler E (PDict d) s = (Inl e, t)
      | (Inr complete, t) \<Rightarrow> \<exists>out. monitor_lambda_handler E (PDict d) s = (Inr (PDict out), t) \<and> reported d n complete out)"
  using monitor_below_limit [OF assms, of E s] monitor_beyond_limit [OF assms, of E s] by simp

text \<open>The recycle of a group is complete, as the monitor decides it from the group's activities.\<close>

definition recycle_complete :: "activity list \<Rightarrow> asg_instance list \<Rightarrow> bool" where
  "recycle_complete acts insts =
     (let launching = filter (\<lambda>a. str_contains ''Launching'' (description a)) acts
      in launching \<noteq> [] \<and> list_all (settled launching) insts \<and>
         list_all (\<lambda>i. list_all (\<lambda>j.
           \<bar>the (last_launch launching (member_id i)) - the (last_launch launching (member_id j))\<bar> \<le> 120000000) insts) insts)"

lemma check_instances_complete:
  assumes "py_item asg ''Instances'' = Inr (PList (map asg_instance_json insts))"
  shows "check_instances asg (map activity_json acts) =
     Inr (list_all (settled acts) insts \<and>
       list_all (\<lambda>i. list_all (\<lambda>j.
         \<bar>the (last_launch acts (member_id i)) - the (last_launch acts (member_id j))\<bar> \<le> 120000000) insts) insts)"
  using check_instances_from_json [of acts "[]" insts]
  by (simp add: check_instances_def assms list.pred_map o_def)

lemma get_launching_activities_json:
  "get_launching_activities (PList (map activity_json acts)) =
     Inr (map activity_json (filter (\<lambda>a. str_contains ''Launching'' (description a)) acts))"
proof -
  have "res_filter (\<lambda>activity. res_bind (py_item activity ''Description'') (py_in ''Launching'')) (map activity_json acts) =
      Inr (map activity_json (filter (\<lambda>a. str_contains ''Launching'' (description a)) acts))"
    by (induction acts) (auto simp: activity_json_def py_item_PDict py_in_def)
  then show ?thesis by (simp add: get_launching_activities_def)
qed

text \<open>
  C19. The check of a component looks at the first group whose name starts with the component's name
  and \<open>-asg  Such a group is complete when it has launches, and all its instances are healthy, in service and launched within two minutes
  of each other; the README asks for health and service only.
\<close>. A group of maximum size 0 is reported as scaled down, a missing or empty group as an
  error; any other group is checked against its last 20 activities, of which only launches count.
\<close>

theorem check_spec:
  assumes "reply E (calls s) DescribeAutoScalingGroups = Inr (pages_json pages)"
    and "\<And>name. reply E (calls s @ [DescribeAutoScalingGroups]) (DescribeScalingActivities (PStr name) 20) =
      Inr (PDict [(''Activities'', PList (map activity_json (acts name)))])"
  shows "check E (PStr component) s =
    (let s1 = s\<lparr>calls := calls s @ [DescribeAutoScalingGroups]\<rparr>;
         missing = (Inl (py_exception (''No ASG found for '' @ component)), s1)
     in case filter (\<lambda>g. prefix (component @ ''-asg'') (group_name g)) (concat pages) of
          [] \<Rightarrow> missing
        | g # _ \<Rightarrow>
            if max_size g = 0 then (Inl (Exn ScaledDownASGException None), s1)
            else if members g = [] then missing
            else (Inr (recycle_complete (acts (group_name g)) (members g)),
                  s\<lparr>calls := calls s @ [DescribeAutoScalingGroups, DescribeScalingActivities (PStr (group_name g)) 20]\<rparr>))"
proof (cases "filter (\<lambda>g. prefix (component @ ''-asg'') (group_name g)) (concat pages)")
  case Nil
  then show ?thesis
    by (simp add: check_def monitor_describe_asg_def io_eval assms(1) monitor_find_asg_json)
next
  case (Cons g gs)
  show ?thesis
  proof (cases "max_size g = 0 \<or> members g = []")
    case True
    with Cons show ?thesis
      by (auto simp: check_def monitor_describe_asg_def io_eval assms(1) monitor_find_asg_json)
  next
    case False
    let ?s1 = "s\<lparr>calls := calls s @ [DescribeAutoScalingGroups]\<rparr>"
    have asg: "monitor_describe_asg E (PStr component) s = (Inr (group_json g), ?s1)"
      using False Cons by (simp add: monitor_describe_asg_def io_eval assms(1) monitor_find_asg_json)
    have acts: "monitor_scaling_activities E (PStr (group_name g)) ?s1 =
        (Inr (PList (map activity_json (acts (group_name g)))),
         s\<lparr>calls := calls s @ [DescribeAutoScalingGroups, DescribeScalingActivities (PStr (group_name g)) 20]\<rparr>)"
      by (simp add: monitor_scaling_activities_def io_eval assms(2) py_item_PDict)
    show ?thesis
      using False Cons
      by (simp add: check_def io_bind_def io_res_def io_return_def asg acts group_json_items get_launching_activities_json
          check_instances_complete [OF group_json_items(3)] recycle_complete_def Let_def)
  qed
qed

section \<open>A component with one instance\<close>

definition sample_group :: asg_group where
  "sample_group = \<lparr>group_name = ''api-asg-1'', max_size = 1,
     members = [\<lparr>member_id = ''i-1'', health = ''Healthy'', lifecycle = ''InService''\<rparr>]\<rparr>"

definition sample_activities :: "string \<Rightarrow> activity list" where
  "sample_activities name = [\<lparr>description = ''Launching a new EC2 instance: i-1'', start_time = 5\<rparr>]"

definition sample_scaling :: env where
  "sample_scaling = \<lparr>reply = (\<lambda>h c. case c of
       DescribeAutoScalingGroups \<Rightarrow> Inr (pages_json [[sample_group]])
     | DescribeScalingActivities name _ \<Rightarrow>
         Inr (PDict [(''Activities'', PList (map activity_json (sample_activities (py_str name))))])
     | _ \<Rightarrow> Inr PNone),
     environ = (\<lambda>_. None)\<rparr>"

lemma sample_complete: "recycle_complete (sample_activities name) (members sample_group)"
  by (simp add: recycle_complete_def sample_activities_def sample_group_def settled_def last_launch_def launches_of_def)

lemma check_spec_witness:
  "check sample_scaling (PStr ''api'') fresh_world =
     (Inr True, \<lparr>calls = [DescribeAutoScalingGroups, DescribeScalingActivities (PStr ''api-asg-1'') 20]\<rparr>)"
proof -
  have "reply sample_scaling (calls fresh_world) DescribeAutoScalingGroups = Inr (pages_json [[sample_group]])"
    and "reply sample_scaling (calls fresh_world @ [DescribeAutoScalingGroups]) (DescribeScalingActivities (PStr name) 20) =
      Inr (PDict [(''Activities'', PList (map activity_json (sample_activities name)))])" for name
    by (simp_all add: sample_scaling_def)
  from check_spec [OF this, of "''api''"] sample_complete [of "''api-asg-1''"] show ?thesis
    by (simp add: fresh_world_def sample_group_def)
qed

lemma monitor_outcome_witness:
  "\<exists>out. monitor_lambda_handler sample_scaling (PDict [(''component'', PStr ''api''), (''counter'', PInt 20), (''channels'', PStr ''team'')])
     fresh_world = (Inr (PDict out), fresh_world) \<and> map_of out ''status'' = Some (PStr ''fail'')"
  using monitor_outcome [of "[(''component'', PStr ''api''), (''counter'', PInt 20), (''channels'', PStr ''team'')]" 20
      "PStr ''api''" sample_scaling fresh_world]
  by (auto simp: monitored_def)

end
