(* ===== verification/Poll.thy ===== *)
theory Poll
  imports LambdaIO
begin

text \<open>
  Retrying: \<open>utils/poll.py\<close> of the Mongo recycler, and the interface it shares with the
  \<open>tenacity\<close> decorator of \<open>connectors/mongo.py\<close>.

  \<open>attempts m n s r\<close> is the contract of a bounded retry: the result and state \<open>r\<close> come from at
  most \<open>n\<close> runs of \<open>m\<close> from \<open>s\<close>, with nothing but sleeps between them, the last run being the
  first that returned, or the \<open>n\<close>-th. The locale \<open>bounded_retry\<close> proves what a client may use
  of a retry that keeps it; \<open>poll\<close> is interpreted as one, and \<open>tenacity\<close>, which is not code of
  the repository, is a parameter assumed to be one.
\<close>

section \<open>The contract of a bounded retry\<close>

inductive attempts :: "('z world_scheme, 'a) io \<Rightarrow> nat \<Rightarrow> 'z world_scheme \<Rightarrow> 'a res \<times> 'z world_scheme \<Rightarrow> bool"
  for m where
  attempts_done: "m s = (Inr x, t) \<Longrightarrow> attempts m (Suc n) s (Inr x, t)"
| attempts_last: "m s = (Inl e, t) \<Longrightarrow> attempts m (Suc 0) s (Inl e, t)"
| attempts_again:
    "m s = (Inl e, t) \<Longrightarrow> attempts m (Suc n) (t\<lparr>calls := calls t @ map Sleep ds\<rparr>) r \<Longrightarrow>
     attempts m (Suc (Suc n)) s r"

inductive_cases attempts_zeroE: "attempts m 0 s r"

lemma attempts_final:
  "attempts m n s r \<Longrightarrow> \<exists>u. m u = r"
  by (induction rule: attempts.induct) auto

lemma attempts_extends:
  assumes "attempts m n s r" and "footprint m S" and "range Sleep \<subseteq> S"
  shows "extends S s (snd r)"
  using assms(1)
proof (induction rule: attempts.induct)
  case (attempts_done s x t n)
  with footprintD [OF assms(2), of s] show ?case by simp
next
  case (attempts_last s e t)
  with footprintD [OF assms(2), of s] show ?case by simp
next
  case (attempts_again s e t n ds r)
  have "extends S s t" using footprintD [OF assms(2), of s] attempts_again.hyps(1) by simp
  moreover have "extends S t (t\<lparr>calls := calls t @ map Sleep ds\<rparr>)"
    using assms(3) by (auto simp: extends_def)
  ultimately show ?case using attempts_again.IH by (blast intro: extends_trans)
qed

text \<open>An invariant that every attempt and every sleep keep holds where the last attempt starts.\<close>

lemma attempts_invariant:
  assumes "attempts m n s r" and "I s"
    and step: "\<And>u e t. I u \<Longrightarrow> m u = (Inl e, t) \<Longrightarrow> I t"
    and pause: "\<And>u ds. I u \<Longrightarrow> I (u\<lparr>calls := calls u @ map Sleep ds\<rparr>)"
  shows "\<exists>u. I u \<and> m u = r"
  using assms(1,2)
proof (induction rule: attempts.induct)
  case (attempts_again s e t n ds r)
  then show ?case using step pause by blast
qed auto

text \<open>The number of attempts: a weight that every attempt adds at most once is bounded by the limit.\<close>

lemma attempts_weight:
  assumes "attempts m n s r"
    and step: "\<And>u. (f :: 'z world_scheme \<Rightarrow> nat) (snd (m u)) \<le> f u + c"
    and pause: "\<And>u ds. f (u\<lparr>calls := calls u @ map Sleep ds\<rparr>) = f u"
  shows "f (snd r) \<le> f s + n * c"
  using assms(1)
proof (induction rule: attempts.induct)
  case (attempts_done s x t n)
  with step [of s] show ?case by simp
next
  case (attempts_last s e t)
  with step [of s] show ?case by simp
next
  case (attempts_again s e t n ds r)
  with step [of s] show ?case by (simp add: pause)
qed

locale bounded_retry =
  fixes run :: "('z world_scheme, 'a) io \<Rightarrow> ('z world_scheme, 'a) io"
    and limit :: nat
  assumes run_attempts: "attempts m limit s (run m s)"
begin

lemma run_final: "\<exists>u. m u = run m s"
  using attempts_final [OF run_attempts] .

lemma run_footprint: "footprint m S \<Longrightarrow> range Sleep \<subseteq> S \<Longrightarrow> footprint (run m) S"
  by (auto intro: footprintI attempts_extends [OF run_attempts])

lemma run_wp:
  assumes "I s"
    and body: "\<And>u. I u \<Longrightarrow> wp m Q (\<lambda>e t. R e t \<and> I t) u"
    and pause: "\<And>u ds. I u \<Longrightarrow> I (u\<lparr>calls := calls u @ map Sleep ds\<rparr>)"
  shows "wp (run m) Q R s"
proof -
  obtain u where "I u" and eq: "m u = run m s"
    using attempts_invariant [OF run_attempts, of I s m] assms by (auto dest: wp_Inl)
  with body [of u] have "wp m Q R u" by (auto elim: wp_mono)
  with eq show ?thesis by (simp add: wp_def)
qed

lemma run_weight:
  assumes "\<And>u. (f :: 'z world_scheme \<Rightarrow> nat) (snd (m u)) \<le> f u + c"
    and "\<And>u ds. f (u\<lparr>calls := calls u @ map Sleep ds\<rparr>) = f u"
  shows "f (snd (run m s)) \<le> f s + limit * c"
  using attempts_weight [OF run_attempts assms] .

end

section \<open>poll\<close>

definition fails_with :: "('s, unit) io \<Rightarrow> ('s, exn option) io" where
  "fails_with fn = io_catch (io_then fn (io_return None)) (\<lambda>e. io_return (Some e))"

text \<open>
  The loop \<open>for i in itertools.count(start=1)\<close> from its iteration \<open>i\<close> on. The test
  \<open>i >= max_iters\<close> after a failed iteration bounds it. The time to sleep is one that \<open>time.sleep\<close> takes, not
  a negative number; the callers pass 10.
\<close>

definition sleep_if_set :: "int option \<Rightarrow> ('z world_scheme, unit) io" where
  "sleep_if_set sleep_for_seconds =
     (case sleep_for_seconds of
        None \<Rightarrow> io_return ()
      | Some n \<Rightarrow> if n \<noteq> 0 then io_sleep n else io_return ())"

function poll_from :: "('z world_scheme, unit) io \<Rightarrow> int \<Rightarrow> int option \<Rightarrow> int \<Rightarrow> ('z world_scheme, unit) io" where
  "poll_from fn max_iters sleep_for_seconds i =
     io_bind (fails_with fn) (\<lambda>error.
       case error of
         None \<Rightarrow> io_return ()
       | Some e \<Rightarrow>
           if i \<ge> max_iters then io_raise e
           else io_then (sleep_if_set sleep_for_seconds) (poll_from fn max_iters sleep_for_seconds (i + 1)))"
  by pat_completeness auto
termination
  by (relation "measure (\<lambda>(fn, max_iters, sl, i). nat (max_iters - i))") auto

declare poll_from.simps [simp del]

definition poll :: "('z world_scheme, unit) io \<Rightarrow> int \<Rightarrow> int option \<Rightarrow> ('z world_scheme, unit) io" where
  "poll fn max_iters sleep_for_seconds = poll_from fn max_iters sleep_for_seconds 1"

definition poll_default_max_iters :: int where
  "poll_default_max_iters = 50"

lemma sleep_if_set_run: "\<exists>ds. sleep_if_set sl t = (Inr (), t\<lparr>calls := calls t @ map Sleep ds\<rparr>) \<and> length ds \<le> 1"
proof (cases "sl = None \<or> sl = Some 0")
  case True
  then show ?thesis by (intro exI [of _ "[]"]) (auto simp: sleep_if_set_def io_eval)
next
  case False
  then obtain n where "sl = Some n" "n \<noteq> 0" by auto
  then show ?thesis by (intro exI [of _ "[n]"]) (simp add: sleep_if_set_def io_eval)
qed

lemma poll_from_unfold:
  "poll_from fn mi sl i s =
     (case fn s of
        (Inr x, t) \<Rightarrow> (Inr (), t)
      | (Inl e, t) \<Rightarrow>
          if i \<ge> mi then (Inl e, t) else poll_from fn mi sl (i + 1) (snd (sleep_if_set sl t)))"
proof (cases "fn s")
  case (Pair r t)
  obtain ds where "sleep_if_set sl t = (Inr (), t\<lparr>calls := calls t @ map Sleep ds\<rparr>)"
    using sleep_if_set_run by blast
  with Pair show ?thesis
    by (cases r) (simp_all add: poll_from.simps [of fn mi sl i] fails_with_def io_bind_def io_catch_def
        io_then_def io_return_def io_raise_def)
qed

lemma poll_from_attempts: "attempts fn (Suc (nat (mi - i))) s (poll_from fn mi sl i s)"
proof (induction "nat (mi - i)" arbitrary: i s)
  case 0
  then have le: "i \<ge> mi" by simp
  obtain r t where "fn s = (r, t)" by (cases "fn s")
  with le show ?case
    by (cases r) (auto simp: poll_from_unfold [of fn mi sl i] intro: attempts_done attempts_last)
next
  case (Suc k)
  then have lt: "\<not> i \<ge> mi" and k: "k = nat (mi - (i + 1))" by simp_all
  obtain r t where r: "fn s = (r, t)" by (cases "fn s")
  obtain ds where ds: "sleep_if_set sl t = (Inr (), t\<lparr>calls := calls t @ map Sleep ds\<rparr>)"
    using sleep_if_set_run by blast
  show ?case
  proof (cases r)
    case (Inl e)
    let ?t = "t\<lparr>calls := calls t @ map Sleep ds\<rparr>"
    have "attempts fn (Suc k) ?t (poll_from fn mi sl (i + 1) ?t)"
      using Suc.hyps(1) [OF k] k by simp
    with Inl r have "attempts fn (Suc (Suc k)) s (poll_from fn mi sl (i + 1) ?t)"
      by (blast intro: attempts_again)
    with Inl r ds lt Suc.hyps(2) show ?thesis by (simp add: poll_from_unfold [of fn mi sl i])
  next
    case (Inr x)
    with r show ?thesis by (auto simp: poll_from_unfold [of fn mi sl i] intro: attempts_done)
  qed
qed

interpretation polling: bounded_retry "\<lambda>fn. poll fn mi sl" "nat (max 1 mi)" for mi sl
proof
  fix m :: "('z world_scheme, unit) io" and s
  have "Suc (nat (mi - 1)) = nat (max 1 mi)" by auto
  with poll_from_attempts [of m mi 1 s sl] show "attempts m (nat (max 1 mi)) s (poll m mi sl s)"
    by (simp add: poll_def)
qed

section \<open>How long a poll waits\<close>

lemma sleep_if_set_slept:
  "\<exists>ds. sleep_if_set sl t = (Inr (), t\<lparr>calls := calls t @ map Sleep ds\<rparr>) \<and>
     slept (map Sleep ds) = (case sl of None \<Rightarrow> 0 | Some n \<Rightarrow> n)"
proof (cases "sl = None \<or> sl = Some 0")
  case True
  then show ?thesis by (intro exI [of _ "[]"]) (auto simp: sleep_if_set_def io_eval)
next
  case False
  then obtain n where "sl = Some n" "n \<noteq> 0" by auto
  then show ?thesis by (intro exI [of _ "[n]"]) (simp add: sleep_if_set_def io_eval)
qed

lemma sleepless_slept: "set cs \<subseteq> {c. slept_by c = 0} \<Longrightarrow> slept cs = 0"
  by (induction cs) auto

lemma poll_from_sleeps:
  assumes quiet: "footprint fn {c. slept_by c = 0}" and "i \<le> max i mi"
  shows "\<exists>k. k \<le> nat (mi - i) \<and>
    slept (calls (snd (poll_from fn mi sl i s))) =
      slept (calls s) + int k * (case sl of None \<Rightarrow> 0 | Some n \<Rightarrow> n) \<and>
    (case fst (poll_from fn mi sl i s) of Inl _ \<Rightarrow> k = nat (mi - i) | Inr _ \<Rightarrow> True)"
  using assms(2)
proof (induction "nat (mi - i)" arbitrary: i s)
  case 0
  then have le: "i \<ge> mi" by simp
  obtain r t where fn: "fn s = (r, t)" by (cases "fn s")
  with footprintD [OF quiet, of s] have "slept (calls t) = slept (calls s)"
    by (auto simp: extends_def sleepless_slept)
  with fn le show ?case by (cases r) (simp_all add: poll_from_unfold [of fn mi sl i])
next
  case (Suc n)
  then have lt: "\<not> i \<ge> mi" and n: "n = nat (mi - (i + 1))" by simp_all
  obtain r t where fn: "fn s = (r, t)" by (cases "fn s")
  with footprintD [OF quiet, of s] have t: "slept (calls t) = slept (calls s)"
    by (auto simp: extends_def sleepless_slept)
  show ?case
  proof (cases r)
    case (Inr x)
    with fn t show ?thesis
      by (intro exI [of _ 0]) (simp add: poll_from_unfold [of fn mi sl i])
  next
    case (Inl e)
    obtain ds where ds: "sleep_if_set sl t = (Inr (), t\<lparr>calls := calls t @ map Sleep ds\<rparr>)"
      "slept (map Sleep ds) = (case sl of None \<Rightarrow> 0 | Some n \<Rightarrow> n)" using sleep_if_set_slept by blast
    let ?u = "t\<lparr>calls := calls t @ map Sleep ds\<rparr>"
    have go: "poll_from fn mi sl i s = poll_from fn mi sl (i + 1) ?u"
      using fn Inl lt ds(1) by (simp add: poll_from_unfold [of fn mi sl i])
    from Suc.hyps(1) [OF n, of ?u] obtain k where k: "k \<le> n"
      "slept (calls (snd (poll_from fn mi sl (i + 1) ?u))) =
         slept (calls ?u) + int k * (case sl of None \<Rightarrow> 0 | Some n \<Rightarrow> n)"
      "case fst (poll_from fn mi sl (i + 1) ?u) of Inl _ \<Rightarrow> k = n | Inr _ \<Rightarrow> True"
      using n by auto
    have "slept (calls (snd (poll_from fn mi sl i s))) =
        slept (calls s) + int (Suc k) * (case sl of None \<Rightarrow> 0 | Some n \<Rightarrow> n)"
      unfolding go k(2) using ds(2) t by (simp add: algebra_simps)
    moreover have "case fst (poll_from fn mi sl i s) of Inl _ \<Rightarrow> Suc k = nat (mi - i) | Inr _ \<Rightarrow> True"
      using k(3) Suc.hyps(2) unfolding go by (auto split: sum.splits)
    ultimately show ?thesis
      using k(1) Suc.hyps(2) by (intro exI [of _ "Suc k"]) simp
  qed
qed

text \<open>
  C36. poll runs its function at least once and at most \<open>max_iters\<close> times, the last run deciding the
  result, and never runs it again after a success. Between two runs it sleeps exactly the
  given time, so a poll of a function that does not sleep itself waits \<open>k\<close> times that long for
  some \<open>k\<close> below \<open>max_iters\<close>, and exactly \<open>max_iters - 1\<close> times when it gives up.
\<close>

theorem poll_bounded:
  assumes "1 \<le> mi" and "footprint fn {c. slept_by c = 0}" and "poll fn mi (Some n) s = (r, t)"
  shows "attempts fn (nat mi) s (r, t) \<and>
    (\<exists>k. k < nat mi \<and> slept (calls t) = slept (calls s) + int k * n \<and>
       (case r of Inl _ \<Rightarrow> k = nat mi - 1 | Inr _ \<Rightarrow> True))"
proof -
  have "attempts fn (nat mi) s (r, t)"
    using polling.run_attempts [of fn mi s "Some n"] assms(1,3) by (simp add: max_def)
  moreover from poll_from_sleeps [OF assms(2), of 1 mi "Some n" s] assms(3) obtain k where
    k: "k \<le> nat (mi - 1)" "slept (calls t) = slept (calls s) + int k * n"
      "case r of Inl _ \<Rightarrow> k = nat (mi - 1) | Inr _ \<Rightarrow> True" by (auto simp: poll_def)
  moreover have "nat (mi - 1) = nat mi - 1" "0 < nat mi" using assms(1) by simp_all
  ultimately show ?thesis by (intro conjI exI [of _ k]) (simp_all split: sum.splits)
qed

text \<open>A function that always fails, polled three times with pauses of 10 seconds.\<close>

lemma poll_bounded_witness:
  "attempts (io_raise (py_exception ''no'') :: (world, unit) io) 3 fresh_world
     (Inl (py_exception ''no''), fresh_world\<lparr>calls := [Sleep 10, Sleep 10]\<rparr>)"
proof -
  have "poll (io_raise (py_exception ''no'')) 3 (Some 10) fresh_world =
      (Inl (py_exception ''no''), fresh_world\<lparr>calls := [Sleep 10, Sleep 10]\<rparr>)"
    by (simp add: poll_def poll_from_unfold io_eval sleep_if_set_def fresh_world_def)
  from poll_bounded [OF _ _ this] show ?thesis by (simp add: footprint_raise)
qed

end
