(* ===== verification/MongoDecision.thy ===== *)
theory MongoDecision
  imports LambdaIO
begin

text \<open>
  The Mongo recycler's data and its pure decisions: \<open>models/instances.py\<close>, \<open>models/decision.py\<close>,
  \<open>process/decision.py\<close> and \<open>process/pre_step_checks.py\<close>. The lemmas say which instance a step
  picks (an outdated secondary before an outdated primary, the first of its kind), when there is
  nothing left to do, and when a step is refused before it acts.
\<close>

section \<open>Instances and decisions\<close>

record Instance =
  instance_id :: pyval
  image_id :: pyval
  ip_address :: pyval
  mongo_state :: string
  replica_set_name :: pyval

definition find_instances :: "Instance list \<Rightarrow> string \<Rightarrow> Instance list" where
  "find_instances instances st = filter (\<lambda>i. mongo_state i = st) instances"

record Decision =
  action :: string
  target :: "Instance option"

definition STEP_DOWN_AND_RECYCLE_PRIMARY :: string where
  "STEP_DOWN_AND_RECYCLE_PRIMARY = ''STEP_DOWN_AND_RECYCLE_PRIMARY''"

definition RECYCLE_SECONDARY :: string where
  "RECYCLE_SECONDARY = ''RECYCLE_SECONDARY''"

definition DONE :: string where
  "DONE = ''DONE''"

lemma actions_distinct [simp]:
  "STEP_DOWN_AND_RECYCLE_PRIMARY \<noteq> RECYCLE_SECONDARY" "RECYCLE_SECONDARY \<noteq> STEP_DOWN_AND_RECYCLE_PRIMARY"
  "STEP_DOWN_AND_RECYCLE_PRIMARY \<noteq> DONE" "DONE \<noteq> STEP_DOWN_AND_RECYCLE_PRIMARY"
  "RECYCLE_SECONDARY \<noteq> DONE" "DONE \<noteq> RECYCLE_SECONDARY"
  by (simp_all add: STEP_DOWN_AND_RECYCLE_PRIMARY_def RECYCLE_SECONDARY_def DONE_def)

definition done_decision :: Decision where
  "done_decision = \<lparr>action = DONE, target = None\<rparr>"

definition recycle_secondary :: "Instance \<Rightarrow> Decision" where
  "recycle_secondary i = \<lparr>action = RECYCLE_SECONDARY, target = Some i\<rparr>"

definition step_down_and_recycle_primary :: "Instance \<Rightarrow> Decision" where
  "step_down_and_recycle_primary i = \<lparr>action = STEP_DOWN_AND_RECYCLE_PRIMARY, target = Some i\<rparr>"

section \<open>Deciding\<close>

definition candidate_states :: "string list" where
  "candidate_states = [''PRIMARY'', ''SECONDARY'']"

definition find_candidates :: "Instance list \<Rightarrow> pyval \<Rightarrow> Instance list" where
  "find_candidates instances target_ami =
     filter (\<lambda>i. \<not> py_eq (image_id i) target_ami \<and> mongo_state i \<in> set candidate_states) instances"

definition decide_on_action :: "Instance list \<Rightarrow> pyval \<Rightarrow> Decision" where
  "decide_on_action replica_set_status target_ami =
     (let candidates = find_candidates replica_set_status target_ami;
          secondaries = find_instances candidates ''SECONDARY'';
          primaries = find_instances candidates ''PRIMARY''
      in case secondaries of
           i # _ \<Rightarrow> recycle_secondary i
         | [] \<Rightarrow>
             (case primaries of
                i # _ \<Rightarrow> step_down_and_recycle_primary i
              | [] \<Rightarrow> done_decision))"

section \<open>Reporting\<close>

text \<open>
  The status report of the log. The colours are functions of the \<open>colors\<close> package: \<open>paint c s\<close>
  is the text \<open>s\<close> in colour or style \<open>c\<close>.
\<close>

datatype colour = Faint | Green | Red | Yellow | Bold

definition choose_color :: "Instance \<Rightarrow> pyval \<Rightarrow> colour" where
  "choose_color i target_ami =
     (if mongo_state i \<notin> set candidate_states then Faint
      else if py_eq (image_id i) target_ami then Green
      else Red)"

definition instance_to_string :: "Instance \<Rightarrow> string" where
  "instance_to_string i =
     py_str (instance_id i) @ '' | '' @ mongo_state i @ '' | '' @ py_str (ip_address i) @ '' | '' @ py_str (image_id i)"

definition report_cluster_status :: "(colour \<Rightarrow> string \<Rightarrow> string) \<Rightarrow> Instance list \<Rightarrow> pyval \<Rightarrow> string" where
  "report_cluster_status paint instances target_ami =
     str_join [CHR 0x0A] (map (\<lambda>i. paint (choose_color i target_ami) (instance_to_string i)) instances)"

definition report_outcome :: "(colour \<Rightarrow> string \<Rightarrow> string) \<Rightarrow> Decision \<Rightarrow> string option res" where
  "report_outcome paint d =
     (let outcome_string =
        (case target d of
           None \<Rightarrow> Inl (no_attribute PNone ''instance_id'')
         | Some i \<Rightarrow> Inr (action d @ '' : '' @ py_str (instance_id i)))
      in if action d = STEP_DOWN_AND_RECYCLE_PRIMARY
           then res_bind outcome_string (\<lambda>t. Inr (Some (paint Bold (paint Yellow t))))
         else if action d = RECYCLE_SECONDARY
           then res_bind outcome_string (\<lambda>t. Inr (Some (paint Yellow t)))
         else if action d = DONE then Inr (Some (paint Bold (paint Green (action d))))
         else Inr None)"

section \<open>Checks before a step\<close>

definition assert_amis_match_and_get_ami :: "string \<Rightarrow> pyval list \<Rightarrow> pyval res" where
  "assert_amis_match_and_get_ami component launch_template_image_ids =
     (if launch_template_image_ids = []
        then Inl (Exn NoLaunchTemplatesFound (Some (PStr (''No launch templates start with `'' @ component @ ''`''))))
      else res_bind (py_set launch_template_image_ids) (\<lambda>image_ids.
        case image_ids of
          [ami] \<Rightarrow> Inr ami
        | _ \<Rightarrow> Inl (Exn LaunchTemplateAmiMismatch
                  (Some (PStr (''AMI IDs do not match in '' @ component @ '' launch templates''))))))"

definition assert_all_nodes_in_same_replica_set :: "Instance list \<Rightarrow> unit res" where
  "assert_all_nodes_in_same_replica_set instances =
     res_bind (py_set (map replica_set_name instances)) (\<lambda>result_set.
       if length result_set \<noteq> 1 then Inl (Exn MongoReplicaSetMismatch None) else Inr ())"

section \<open>What is decided\<close>

definition outdated :: "pyval \<Rightarrow> Instance \<Rightarrow> bool" where
  "outdated target_ami i = (\<not> py_eq (image_id i) target_ami \<and> mongo_state i \<in> {''PRIMARY'', ''SECONDARY''})"

lemma candidates_outdated: "find_candidates instances ami = filter (outdated ami) instances"
  by (simp add: find_candidates_def outdated_def candidate_states_def cong: filter_cong)

lemma filter_eq_Cons_split:
  "filter P xs = y # ys \<Longrightarrow> \<exists>pre post. xs = pre @ y # post \<and> P y \<and> (\<forall>x \<in> set pre. \<not> P x)"
  by (auto simp: filter_eq_Cons_iff)

lemma secondaries_eq:
  "find_instances (find_candidates instances ami) st =
     filter (\<lambda>i. outdated ami i \<and> mongo_state i = st) instances"
  by (simp add: candidates_outdated find_instances_def conj_commute)

text \<open>The three outcomes of a decision, as a case rule for the proofs about the steps.\<close>

lemma decide_cases [case_names Secondary Primary Done]:
  obtains (Secondary) pre i post where
      "decide_on_action instances ami = recycle_secondary i" "instances = pre @ i # post"
      "outdated ami i" "mongo_state i = ''SECONDARY''"
      "\<forall>j \<in> set pre. \<not> (outdated ami j \<and> mongo_state j = ''SECONDARY'')"
  | (Primary) pre i post where
      "decide_on_action instances ami = step_down_and_recycle_primary i" "instances = pre @ i # post"
      "outdated ami i" "mongo_state i = ''PRIMARY''" "\<forall>j \<in> set pre. \<not> outdated ami j"
      "\<forall>j \<in> set instances. outdated ami j \<longrightarrow> mongo_state j = ''PRIMARY''"
  | (Done) "decide_on_action instances ami = done_decision" "\<forall>j \<in> set instances. \<not> outdated ami j"
proof (cases "filter (\<lambda>i. outdated ami i \<and> mongo_state i = ''SECONDARY'') instances")
  case (Cons i js)
  then show thesis
    using filter_eq_Cons_split [OF Cons]
    by (auto simp: decide_on_action_def secondaries_eq Let_def intro: Secondary)
next
  case Nil
  then have prim: "outdated ami j \<Longrightarrow> mongo_state j = ''PRIMARY''" if "j \<in> set instances" for j
    using that by (auto simp: filter_empty_conv outdated_def)
  show thesis
  proof (cases "filter (\<lambda>i. outdated ami i \<and> mongo_state i = ''PRIMARY'') instances")
    case (Cons i js)
    from filter_eq_Cons_split [OF Cons] obtain pre post where
      split: "instances = pre @ i # post" "outdated ami i" "mongo_state i = ''PRIMARY''"
      and pre: "\<forall>x \<in> set pre. \<not> (outdated ami x \<and> mongo_state x = ''PRIMARY'')" by blast
    have "decide_on_action instances ami = step_down_and_recycle_primary i"
      using Nil Cons by (simp add: decide_on_action_def secondaries_eq Let_def)
    with split pre prim show thesis by (intro Primary) auto
  next
    case Nil2: Nil
    have "decide_on_action instances ami = done_decision"
      using Nil Nil2 by (simp add: decide_on_action_def secondaries_eq Let_def)
    with Nil2 prim show thesis by (intro Done) (auto simp: filter_empty_conv)
  qed
qed

section \<open>Properties\<close>

text \<open>
  C16. A decision that acts picks an instance of the replica set that runs an outdated image and is
  PRIMARY or SECONDARY. A secondary is always taken before a primary: the primary is stepped
  down only when no outdated secondary is left, and of its kind the first listed is taken.
\<close>

theorem decide_on_action_choice:
  assumes "target (decide_on_action st ami) = Some i"
  shows "\<exists>pre post. st = pre @ i # post \<and> outdated ami i \<and>
    (action (decide_on_action st ami) = RECYCLE_SECONDARY \<and> mongo_state i = ''SECONDARY'' \<and>
       list_all (\<lambda>j. \<not> (outdated ami j \<and> mongo_state j = ''SECONDARY'')) pre
     \<or> action (decide_on_action st ami) = STEP_DOWN_AND_RECYCLE_PRIMARY \<and> mongo_state i = ''PRIMARY'' \<and>
       list_all (\<lambda>j. \<not> outdated ami j) pre \<and>
       list_all (\<lambda>j. \<not> (outdated ami j \<and> mongo_state j = ''SECONDARY'')) st)"
proof (cases st ami rule: decide_cases)
  case (Secondary pre k post)
  with assms have [simp]: "k = i" by (simp add: recycle_secondary_def)
  from Secondary show ?thesis
    by (intro exI [of _ pre] exI [of _ post]) (simp add: recycle_secondary_def list_all_iff)
next
  case (Primary pre k post)
  with assms have [simp]: "k = i" by (simp add: step_down_and_recycle_primary_def)
  from Primary show ?thesis
    by (intro exI [of _ pre] exI [of _ post]) (auto simp: step_down_and_recycle_primary_def list_all_iff)
next
  case Done
  with assms show ?thesis by (simp add: done_decision_def)
qed

definition sample_instance :: "string \<Rightarrow> string \<Rightarrow> string \<Rightarrow> Instance" where
  "sample_instance n img st =
     \<lparr>instance_id = PStr (''i-'' @ n), image_id = PStr img, ip_address = PStr (''10.0.0.'' @ n),
      mongo_state = st, replica_set_name = PStr ''rs''\<rparr>"

definition sample_cluster :: "Instance list" where
  "sample_cluster =
     [sample_instance ''1'' ''ami-old'' ''PRIMARY'', sample_instance ''2'' ''ami-new'' ''SECONDARY'',
      sample_instance ''3'' ''ami-old'' ''SECONDARY'']"

lemma decide_on_action_choice_witness:
  "\<exists>pre post. sample_cluster = pre @ sample_instance ''3'' ''ami-old'' ''SECONDARY'' # post \<and>
     action (decide_on_action sample_cluster (PStr ''ami-new'')) = RECYCLE_SECONDARY"
proof -
  have d: "decide_on_action sample_cluster (PStr ''ami-new'') =
      recycle_secondary (sample_instance ''3'' ''ami-old'' ''SECONDARY'')"
    by (simp add: decide_on_action_def sample_cluster_def sample_instance_def find_candidates_def
        find_instances_def candidate_states_def)
  from decide_on_action_choice [of sample_cluster "PStr ''ami-new''" "sample_instance ''3'' ''ami-old'' ''SECONDARY''"] d
  show ?thesis by (auto simp: recycle_secondary_def sample_instance_def)
qed

text \<open>
  A step ends with DONE exactly when no PRIMARY or SECONDARY instance runs an outdated image;
  the instances in other states (an arbiter, a recovering node) never keep it from ending.
\<close>

theorem decide_on_action_done_iff:
  "action (decide_on_action st ami) = DONE \<longleftrightarrow>
     filter (\<lambda>i. mongo_state i \<in> {''PRIMARY'', ''SECONDARY''} \<and> \<not> py_eq (image_id i) ami) st = []"
proof (cases st ami rule: decide_cases)
  case (Secondary pre k post)
  then show ?thesis by (auto simp: recycle_secondary_def outdated_def)
next
  case (Primary pre k post)
  then show ?thesis by (auto simp: step_down_and_recycle_primary_def outdated_def)
next
  case Done
  then show ?thesis by (auto simp: done_decision_def outdated_def filter_empty_conv)
qed

text \<open>
  The AMI check returns an AMI exactly when the component has launch templates and all of
  them name that AMI; with none it raises NoLaunchTemplatesFound, with two different ones
  LaunchTemplateAmiMismatch.
\<close>

theorem assert_amis_match_spec:
  assumes "list_all hashable ids"
  shows "assert_amis_match_and_get_ami component ids =
    (case ids of
       [] \<Rightarrow> Inl (Exn NoLaunchTemplatesFound (Some (PStr (''No launch templates start with `'' @ component @ ''`''))))
     | ami # rest \<Rightarrow>
         if list_all (py_eq ami) rest then Inr ami
         else Inl (Exn LaunchTemplateAmiMismatch
                (Some (PStr (''AMI IDs do not match in '' @ component @ '' launch templates'')))))"
proof (cases ids)
  case (Cons ami rest)
  from assms obtain ys where ys: "py_set ids = Inr ys"
    using py_set_from_hashable [of ids "[]"] by (auto simp: py_set_def list_all_iff)
  show ?thesis
  proof (cases "list_all (py_eq ami) rest")
    case True
    with Cons assms have "py_set ids = Inr [ami]" by (auto simp: py_set_single_iff list_all_iff)
    with Cons True show ?thesis by (simp add: assert_amis_match_and_get_ami_def)
  next
    case False
    then have "ys \<noteq> [z]" for z
      using ys Cons py_set_single_iff [of ids z] by (auto simp: list_all_iff)
    with Cons False ys show ?thesis
      by (simp add: assert_amis_match_and_get_ami_def split: list.splits)
  qed
qed (simp add: assert_amis_match_and_get_ami_def)

lemma assert_amis_match_spec_witness:
  "assert_amis_match_and_get_ami ''c'' [PStr ''a'', PStr ''a''] = Inr (PStr ''a'')"
  using assert_amis_match_spec [of "[PStr ''a'', PStr ''a'']" "''c''"] by (simp add: hashable_def)

text \<open>
  The replica-set check passes exactly when there is an instance and all instances report one
  replica set.
\<close>

lemma assert_same_replica_set_iff:
  "assert_all_nodes_in_same_replica_set instances = Inr () \<longleftrightarrow>
     (\<exists>i rest. instances = i # rest \<and> hashable (replica_set_name i) \<and>
        (\<forall>j \<in> set rest. hashable (replica_set_name j) \<and> py_eq (replica_set_name i) (replica_set_name j)))"
  (is "_ = ?R")
proof -
  have "assert_all_nodes_in_same_replica_set instances = Inr () \<longleftrightarrow>
      (\<exists>z. py_set (map replica_set_name instances) = Inr [z])"
    by (auto simp: assert_all_nodes_in_same_replica_set_def res_simps length_Suc_conv split: if_splits)
  also have "\<dots> \<longleftrightarrow> ?R"
    by (cases instances) (auto simp: py_set_single_iff)
  finally show ?thesis .
qed

end
