(* ===== verification/MongoAWS.thy ===== *)
theory MongoAWS
  imports Poll MongoDecision
begin

text \<open>
  The Mongo recycler's AWS connector, \<open>connectors/aws.py\<close>: the names it looks instances up by,
  the description of the running instances, and the recycling of one instance. The lemmas say
  what the description yields, and that \<open>recycle_instance\<close> terminates at most one instance and
  returns only after it has seen that instance terminated.

  An instance object of boto3's resource interface is the value by which the environment identifies
  it, its id: the code reads no other attribute of it.
\<close>

section \<open>Instance names\<close>

definition create_instance_name_filters :: "string \<Rightarrow> string list" where
  "create_instance_name_filters component =
     map (\<lambda>az. re_sub_end az_suffix component @ az) [''_a'', ''_b'', ''_c'']"

section \<open>The running instances\<close>

text \<open>
  A generator is the list of what it yields, with an \<open>Inl\<close> for the exception that ends it; what
  stands after the first \<open>Inl\<close> is never reached.
\<close>

fun gen_stop :: "'a res list \<Rightarrow> 'a res list" where
  "gen_stop [] = []"
| "gen_stop (Inr x # rs) = Inr x # gen_stop rs"
| "gen_stop (Inl e # rs) = [Inl e]"

definition gen_of :: "'a list res \<Rightarrow> ('a \<Rightarrow> 'b res list) \<Rightarrow> 'b res list" where
  "gen_of xs f = (case xs of Inl e \<Rightarrow> [Inl e] | Inr ys \<Rightarrow> concat (map f ys))"

definition describe_ip_address_from_instance :: "pyval \<Rightarrow> pyval res" where
  "describe_ip_address_from_instance i =
     (let addresses =
        res_bind (py_item i ''NetworkInterfaces'') (\<lambda>nis.
        res_bind (py_iter nis) (\<lambda>ifaces.
        res_bind (res_comp
            (\<lambda>iface.
              res_bind (py_item iface ''Attachment'') (\<lambda>att.
              res_bind (py_item att ''DeleteOnTermination'') (\<lambda>d. Inr (\<not> py_truth d))))
            (\<lambda>iface. py_item iface ''PrivateIpAddress'') ifaces) (\<lambda>ips.
        list_index ips 0)))
      in case addresses of
           Inr ip \<Rightarrow> Inr ip
         | Inl e \<Rightarrow>
             if exn_cls e = IndexError
             then res_bind (py_item i ''InstanceId'') (\<lambda>iid.
               Inl (Exn NoENIFound (Some (PStr (''No ENI found for instance : '' @ py_str iid)))))
             else Inl e)"

definition describe_running :: "pyval \<Rightarrow> pyval res list" where
  "describe_running i =
     (case res_bind (py_item i ''State'') (\<lambda>st. py_item st ''Name'') of
        Inl e \<Rightarrow> [Inl e]
      | Inr name \<Rightarrow>
          if py_eq name (PStr ''running'')
          then [res_bind (py_item i ''InstanceId'') (\<lambda>iid.
                res_bind (py_item i ''ImageId'') (\<lambda>img.
                res_bind (describe_ip_address_from_instance i) (\<lambda>ip.
                Inr (PDict [(''InstanceId'', iid), (''ImageId'', img), (''IpAddress'', ip)]))))]
          else [])"

definition describe_mongodb_instances :: "pyval \<Rightarrow> pyval res list" where
  "describe_mongodb_instances reservations =
     gen_stop (gen_of (res_bind (py_item reservations ''Reservations'') py_iter) (\<lambda>reservation.
       gen_of (res_bind (py_item reservation ''Instances'') py_iter) describe_running))"

definition instance_state :: "pyval \<Rightarrow> pyval res" where
  "instance_state instance_descriptions =
     res_bind (py_item instance_descriptions ''Reservations'') (\<lambda>reservations.
     res_bind (py_len reservations) (\<lambda>n.
     if n = 0 then Inl (Exn NoInstancesFound None)
     else if n > 1 then Inl (Exn TooManyReservationsFound None)
     else
       res_bind (py_index reservations 0) (\<lambda>reservation.
       res_bind (py_item reservation ''Instances'') (\<lambda>instances.
       res_bind (py_len instances) (\<lambda>m.
       if m = 0 then Inl (Exn NoInstancesFound None)
       else if m > 1 then Inl (Exn TooManyInstancesFound None)
       else
         res_bind (py_index instances 0) (\<lambda>i.
         res_bind (py_item i ''State'') (\<lambda>st. py_item st ''Name'')))))))"

definition assert_terminated :: "pyval \<Rightarrow> bool res" where
  "assert_terminated st =
     (if py_eq st (PStr ''terminated'') then Inr True
      else Inl (Exn AssertionError (Some (PStr (''instance is in state '' @ py_str st)))))"

section \<open>The AWS client\<close>

definition get_launch_template_image_ids :: "env \<Rightarrow> string \<Rightarrow> ('z world_scheme, pyval list) io" where
  "get_launch_template_image_ids E component =
     io_bind (request E (DescribeLaunchTemplates (component @ ''*''))) (\<lambda>launch_templates.
     io_bind (io_res (res_bind (py_item launch_templates ''LaunchTemplates'') py_iter)) (\<lambda>templates.
     io_bind (io_map (\<lambda>launch_template.
         io_bind (io_res (py_item launch_template ''LaunchTemplateId'')) (\<lambda>ltid.
         io_bind (io_res (py_item launch_template ''LatestVersionNumber'')) (\<lambda>latest.
         io_bind (request E (DescribeLaunchTemplateVersions ltid (py_str latest))) (\<lambda>versions.
         io_res (res_bind (py_item versions ''LaunchTemplateVersions'') (\<lambda>vs. py_index vs 0)))))) templates)
       (\<lambda>launch_templates_versions.
     io_res (res_map (\<lambda>v.
         res_bind (py_item v ''LaunchTemplateData'') (\<lambda>d. py_item d ''ImageId'')) launch_templates_versions))))"

definition get_instance_state :: "env \<Rightarrow> pyval \<Rightarrow> ('z world_scheme, pyval) io" where
  "get_instance_state E iid =
     io_bind (request E (DescribeInstancesById iid)) (\<lambda>descriptions. io_res (instance_state descriptions))"

definition get_mongo_db_instances :: "env \<Rightarrow> string \<Rightarrow> ('z world_scheme, pyval res list) io" where
  "get_mongo_db_instances E component =
     io_bind (request E (DescribeInstancesByName (create_instance_name_filters component))) (\<lambda>reservations.
     io_return (describe_mongodb_instances reservations))"

definition is_terminated :: "env \<Rightarrow> pyval \<Rightarrow> ('z world_scheme, unit) io" where
  "is_terminated E iid =
     io_bind (get_instance_state E iid) (\<lambda>st.
     io_then (io_res (assert_terminated st)) (io_return ()))"

definition recycle_instance :: "env \<Rightarrow> Instance \<Rightarrow> ('z world_scheme, unit) io" where
  "recycle_instance E i =
     io_bind
       (io_catch_class ClientError
         (io_bind (request E (FilterInstances (instance_id i))) (\<lambda>found. io_res (py_iter found)))
         (\<lambda>_. io_raise (Exn NoInstancesFound None))) (\<lambda>instances.
     if length instances > 1 then io_raise (Exn TooManyInstancesFound None)
     else
       io_bind (io_res (list_index instances 0)) (\<lambda>inst.
       io_then (request E (InstanceTerminate inst))
         (poll (is_terminated E inst) poll_default_max_iters (Some 10))))"

text \<open>
  The three zone names of a component do not depend on which zone's name it was given by.
\<close>

theorem create_instance_name_filters_suffix:
  assumes "az \<in> set [''_a'', ''_b'', ''_c'']"
  shows "create_instance_name_filters (component @ az) = [component @ ''_a'', component @ ''_b'', component @ ''_c'']"
  using az_suffix_match [OF assms, of component] by (simp add: create_instance_name_filters_def)

lemma create_instance_name_filters_suffix_witness:
  "create_instance_name_filters ''protected_mongo_b'' =
     [''protected_mongo_a'', ''protected_mongo_b'', ''protected_mongo_c'']"
  using create_instance_name_filters_suffix [of "''_b''" "''protected_mongo''"] by simp

section \<open>What the description of the instances yields\<close>

text \<open>
  A typed EC2 instance and the part of the \<open>describe_instances\<close> response that shows it. The
  address of an instance is the one on its first interface that outlives it.
\<close>

record ec2_instance =
  ec2_id :: string
  ec2_image :: string
  ec2_state :: string
  ec2_nics :: "(string \<times> bool) list"

definition nic_json :: "string \<times> bool \<Rightarrow> pyval" where
  "nic_json n = PDict [(''Attachment'', PDict [(''DeleteOnTermination'', PBool (snd n))]),
                       (''PrivateIpAddress'', PStr (fst n))]"

definition ec2_json :: "ec2_instance \<Rightarrow> pyval" where
  "ec2_json i = PDict [(''ImageId'', PStr (ec2_image i)), (''InstanceId'', PStr (ec2_id i)),
                       (''State'', PDict [(''Name'', PStr (ec2_state i))]),
                       (''NetworkInterfaces'', PList (map nic_json (ec2_nics i)))]"

definition reservations_json :: "ec2_instance list list \<Rightarrow> pyval" where
  "reservations_json rs =
     PDict [(''Reservations'', PList (map (\<lambda>r. PDict [(''Instances'', PList (map ec2_json r))]) rs))]"

definition lasting_address :: "ec2_instance \<Rightarrow> string option" where
  "lasting_address i = (case filter (Not \<circ> snd) (ec2_nics i) of [] \<Rightarrow> None | n # _ \<Rightarrow> Some (fst n))"

definition described :: "ec2_instance \<Rightarrow> pyval res" where
  "described i =
     (case lasting_address i of
        None \<Rightarrow> Inl (Exn NoENIFound (Some (PStr (''No ENI found for instance : '' @ ec2_id i))))
      | Some ip \<Rightarrow> Inr (PDict [(''InstanceId'', PStr (ec2_id i)), (''ImageId'', PStr (ec2_image i)),
                                (''IpAddress'', PStr ip)]))"

lemma describe_ip_json:
  "describe_ip_address_from_instance (ec2_json i) =
     (case lasting_address i of
        None \<Rightarrow> Inl (Exn NoENIFound (Some (PStr (''No ENI found for instance : '' @ ec2_id i))))
      | Some ip \<Rightarrow> Inr (PStr ip))"
proof -
  have comp: "res_comp
      (\<lambda>iface. res_bind (py_item iface ''Attachment'') (\<lambda>att.
         res_bind (py_item att ''DeleteOnTermination'') (\<lambda>d. Inr (\<not> py_truth d))))
      (\<lambda>iface. py_item iface ''PrivateIpAddress'') (map nic_json ns)
    = Inr (map (PStr \<circ> fst) (filter (Not \<circ> snd) ns))" for ns
    by (induction ns) (auto simp: nic_json_def py_item_PDict)
  show ?thesis
    by (simp add: describe_ip_address_from_instance_def Let_def ec2_json_def py_item_PDict comp
        list_index_zero lasting_address_def split: list.splits)
qed

lemma describe_running_json:
  "describe_running (ec2_json i) = (if ec2_state i = ''running'' then [described i] else [])"
proof -
  have "py_item (ec2_json i) ''State'' = Inr (PDict [(''Name'', PStr (ec2_state i))])"
    and "py_item (ec2_json i) ''InstanceId'' = Inr (PStr (ec2_id i))"
    and "py_item (ec2_json i) ''ImageId'' = Inr (PStr (ec2_image i))"
    by (simp_all add: ec2_json_def py_item_PDict)
  then show ?thesis
    by (auto simp: describe_running_def describe_ip_json described_def py_item_PDict split: option.splits)
qed

lemma concat_map_if: "concat (map (\<lambda>x. if P x then [f x] else []) xs) = map f (filter P xs)"
  by (induction xs) auto

text \<open>
  On every EC2 response, the generator yields exactly the running instances, in the order of
  the response, each with its id, image and the address of its first lasting interface; it ends
  with NoENIFound at the first running instance that has no such interface.
\<close>

theorem describe_mongodb_instances_spec:
  "describe_mongodb_instances (reservations_json rs) =
     gen_stop (map described (filter (\<lambda>i. ec2_state i = ''running'') (concat rs)))"
proof -
  have "gen_of (res_bind (py_item (reservations_json rs) ''Reservations'') py_iter)
      (\<lambda>reservation. gen_of (res_bind (py_item reservation ''Instances'') py_iter) describe_running)
    = map described (filter (\<lambda>i. ec2_state i = ''running'') (concat rs))"
    by (simp add: reservations_json_def gen_of_def py_item_PDict o_def describe_running_json
        concat_map_if map_concat filter_concat)
  then show ?thesis by (simp add: describe_mongodb_instances_def)
qed

section \<open>Recycling one instance\<close>

lemma instance_state_terminated:
  "assert_terminated st = Inr b \<longleftrightarrow> b \<and> st = PStr ''terminated''"
  by (auto simp: assert_terminated_def)

definition shows_terminated :: "env \<Rightarrow> call list \<Rightarrow> pyval \<Rightarrow> bool" where
  "shows_terminated E h iid =
     (\<exists>d. reply E h (DescribeInstancesById iid) = Inr d \<and> instance_state d = Inr (PStr ''terminated''))"

lemma is_terminated_wp:
  "wp (is_terminated E iid)
     (\<lambda>_ t. t = s\<lparr>calls := calls s @ [DescribeInstancesById iid]\<rparr> \<and> shows_terminated E (calls s) iid)
     (\<lambda>_ t. t = s\<lparr>calls := calls s @ [DescribeInstancesById iid]\<rparr>) s"
  by (auto simp: is_terminated_def get_instance_state_def wp_simps shows_terminated_def
      instance_state_terminated split: sum.splits)

lemma is_terminated_footprint: "footprint (is_terminated E iid) (insert (DescribeInstancesById iid) S)"
  by (auto simp: is_terminated_def get_instance_state_def intro!: footprint_intros)

text \<open>Waiting for one instance: only describing it and sleeping, and a terminated last reply.\<close>

lemma poll_terminated_wp:
  fixes s :: "'z world_scheme" and iid :: pyval
  defines "S \<equiv> insert (DescribeInstancesById iid) (range Sleep)"
  shows "wp (poll (is_terminated E iid) n sl)
     (\<lambda>_ t. \<exists>cs. calls t = calls s @ cs @ [DescribeInstancesById iid] \<and> set cs \<subseteq> S \<and>
        shows_terminated E (calls s @ cs) iid)
     (\<lambda>_. extends S s) s"
proof -
  let ?Q = "\<lambda>_ t. \<exists>cs. calls t = calls s @ cs @ [DescribeInstancesById iid] \<and> set cs \<subseteq> S \<and>
        shows_terminated E (calls s @ cs) iid"
  have "wp (poll (is_terminated E iid) n sl) ?Q (\<lambda>_. extends S s) s"
  proof (rule polling.run_wp [where I = "extends S s"])
    fix u :: "'z world_scheme"
    assume u: "extends S s u"
    show "wp (is_terminated E iid) ?Q (\<lambda>_ t. extends S s t \<and> extends S s t) u"
    proof (rule wp_mono [OF is_terminated_wp])
      fix x and t :: "'z world_scheme"
      assume "t = u\<lparr>calls := calls u @ [DescribeInstancesById iid]\<rparr> \<and> shows_terminated E (calls u) iid"
      with u show "?Q x t" by (auto simp: extends_def)
    next
      fix e and t :: "'z world_scheme"
      assume "t = u\<lparr>calls := calls u @ [DescribeInstancesById iid]\<rparr>"
      then have "extends S u t" by (auto simp: S_def intro: extends_call)
      with u show "extends S s t \<and> extends S s t" by (blast intro: extends_trans)
    qed
  next
    fix u :: "'z world_scheme" and ds
    assume "extends S s u"
    then show "extends S s (u\<lparr>calls := calls u @ map Sleep ds\<rparr>)" by (auto simp: extends_def S_def)
  qed simp
  then show ?thesis .
qed

text \<open>
  The one call that ends an instance stands right after the lookup that found it, and everything
  after it is waiting. \<open>recycled E i h t\<close> says so of the log \<open>t\<close> of a recycling started after \<open>h\<close>.
\<close>

definition waiting :: "pyval \<Rightarrow> call set" where
  "waiting iid = insert (DescribeInstancesById iid) (range Sleep)"

definition terminate_log :: "env \<Rightarrow> Instance \<Rightarrow> call list \<Rightarrow> call list \<Rightarrow> bool" where
  "terminate_log E i h t =
     (\<exists>obj cs. t = h @ [FilterInstances (instance_id i), InstanceTerminate obj] @ cs \<and>
        reply E h (FilterInstances (instance_id i)) = Inr (PList [obj]) \<and> set cs \<subseteq> waiting obj)"

definition no_terminate_log :: "Instance \<Rightarrow> call list \<Rightarrow> call list \<Rightarrow> bool" where
  "no_terminate_log i h t = (t = h @ [FilterInstances (instance_id i)])"

definition saw_terminated :: "env \<Rightarrow> Instance \<Rightarrow> call list \<Rightarrow> call list \<Rightarrow> bool" where
  "saw_terminated E i h t =
     (\<exists>cs obj. t = cs @ [DescribeInstancesById obj] \<and> shows_terminated E cs obj \<and>
        reply E h (FilterInstances (instance_id i)) = Inr (PList [obj]))"

text \<open>The client library answers a lookup with a list of instance objects.\<close>

definition instances_are_lists :: "env \<Rightarrow> bool" where
  "instances_are_lists E =
     (\<forall>h i v. reply E h (FilterInstances i) = Inr v \<longrightarrow> (\<exists>xs. v = PList xs))"

lemma recycle_instance_wp:
  assumes "instances_are_lists E"
  shows "wp (recycle_instance E i)
     (\<lambda>_ t. terminate_log E i (calls s) (calls t) \<and> saw_terminated E i (calls s) (calls t))
     (\<lambda>_ t. terminate_log E i (calls s) (calls t) \<or> no_terminate_log i (calls s) (calls t)) s"
proof -
  let ?F = "FilterInstances (instance_id i)"
  have poll: "wp (poll (is_terminated E obj) poll_default_max_iters (Some 10))
      (\<lambda>_ t. terminate_log E i (calls s) (calls t) \<and> saw_terminated E i (calls s) (calls t))
      (\<lambda>_ t. terminate_log E i (calls s) (calls t) \<or> no_terminate_log i (calls s) (calls t)) u"
    if "reply E (calls s) ?F = Inr (PList [obj])" and "calls u = calls s @ [?F, InstanceTerminate obj]" for obj u
    using that
    by (intro wp_mono [OF poll_terminated_wp [of E obj]])
      (fastforce simp: terminate_log_def saw_terminated_def waiting_def extends_def)+
  have only: "v = PList [obj]"
    if "reply E (calls s) ?F = Inr v" "py_iter v = Inr ys" "\<not> Suc 0 < length ys" "list_index ys 0 = Inr obj" for v ys obj
  proof -
    from assms that(1) obtain xs where "v = PList xs" unfolding instances_are_lists_def by blast
    with that show ?thesis by (cases ys) (auto simp: list_index_zero)
  qed
  have none: "no_terminate_log i (calls s) (calls s @ [?F])"
    by (simp add: no_terminate_log_def)
  have found: "reply E (calls s) ?F = Inr (PList [obj])"
    if "reply E (calls s) ?F = Inr v" "py_iter v = Inr ys" "\<not> Suc 0 < length ys" "list_index ys 0 = Inr obj" for v ys obj
    using only [OF that] that(1) by simp
  have started: "terminate_log E i (calls s) (calls s @ [?F, InstanceTerminate obj])"
    if "reply E (calls s) ?F = Inr (PList [obj])" for obj
    using that by (simp add: terminate_log_def)
  show ?thesis
    unfolding recycle_instance_def
    by (auto simp: wp_simps none split: sum.splits intro!: started [OF found] poll [OF found])
qed

lemma terminations_waiting: "set cs \<subseteq> waiting obj \<Longrightarrow> terminations cs = []"
  by (rule terminations_none) (auto simp: waiting_def)

lemma terminate_log_terminations:
  "terminate_log E i h t \<Longrightarrow>
     \<exists>new obj. t = h @ new \<and> terminations new = [obj] \<and>
       reply E h (FilterInstances (instance_id i)) = Inr (PList [obj])"
  by (auto simp: terminate_log_def terminations_waiting)

text \<open>
  C23. Recycling an instance ends at most one EC2 instance, the one the lookup of its id found;
  when it returns, it has ended it, and its last call was a description that shows it
  terminated. When the lookup fails or finds none or several, nothing is ended.
\<close>

theorem recycle_instance_safe:
  assumes "instances_are_lists E" and "recycle_instance E i s = (r, t)"
  shows "\<exists>new. calls t = calls s @ new \<and>
    (terminations new = [] \<and> r \<noteq> Inr () \<or>
     (\<exists>obj. reply E (calls s) (FilterInstances (instance_id i)) = Inr (PList [obj]) \<and> terminations new = [obj] \<and>
        (r = Inr () \<longrightarrow> (\<exists>cs d. new = cs @ [DescribeInstancesById obj] \<and>
           reply E (calls s @ cs) (DescribeInstancesById obj) = Inr d \<and> instance_state d = Inr (PStr ''terminated'')))))"
proof (cases r)
  case (Inr u)
  with wp_Inr [OF recycle_instance_wp [OF assms(1)], of i s u t] assms(2)
  have log: "terminate_log E i (calls s) (calls t)" and saw: "saw_terminated E i (calls s) (calls t)" by simp_all
  from log obtain obj cs where t: "calls t = calls s @ [FilterInstances (instance_id i), InstanceTerminate obj] @ cs"
    and obj: "reply E (calls s) (FilterInstances (instance_id i)) = Inr (PList [obj])" and cs: "set cs \<subseteq> waiting obj"
    by (auto simp: terminate_log_def)
  from saw obj obtain h where h: "calls t = h @ [DescribeInstancesById obj]" "shows_terminated E h obj"
    by (auto simp: saw_terminated_def)
  with t have "cs \<noteq> []" by auto
  then obtain cs' where "cs = cs' @ [DescribeInstancesById obj]"
    using t h(1) by (cases cs rule: rev_cases) auto
  with t h have "h = calls s @ [FilterInstances (instance_id i), InstanceTerminate obj] @ cs'" by simp
  with \<open>cs = _\<close> t h cs obj show ?thesis
    by (intro exI [of _ "[FilterInstances (instance_id i), InstanceTerminate obj] @ cs"])
      (auto simp: shows_terminated_def terminations_waiting)
next
  case (Inl e)
  with wp_Inl [OF recycle_instance_wp [OF assms(1)], of i s e t] assms(2)
  have "terminate_log E i (calls s) (calls t) \<or> no_terminate_log i (calls s) (calls t)" by simp
  then show ?thesis
  proof
    assume "terminate_log E i (calls s) (calls t)"
    with Inl show ?thesis by (auto dest: terminate_log_terminations)
  next
    assume "no_terminate_log i (calls s) (calls t)"
    with Inl show ?thesis by (auto simp: no_terminate_log_def)
  qed
qed

text \<open>An environment where instance \<open>i-1\<close> exists and is terminated when asked.\<close>

definition sample_aws :: env where
  "sample_aws = \<lparr>reply = (\<lambda>h c. case c of
       FilterInstances i \<Rightarrow> Inr (PList [i])
     | DescribeInstancesById i \<Rightarrow>
         Inr (reservations_json [[\<lparr>ec2_id = py_str i, ec2_image = ''ami'', ec2_state = ''terminated'', ec2_nics = []\<rparr>]])
     | _ \<Rightarrow> Inr PNone),
     environ = (\<lambda>_. None)\<rparr>"

lemma sample_aws_state:
  "instance_state (reservations_json [[i]]) = Inr (PStr (ec2_state i))"
  by (simp add: instance_state_def reservations_json_def ec2_json_def py_item_PDict py_index_def list_index_def)

lemma sample_aws_lists: "instances_are_lists sample_aws"
  by (simp add: instances_are_lists_def sample_aws_def)

lemma sample_aws_recycle:
  "recycle_instance sample_aws (sample_instance ''1'' ''ami-old'' ''SECONDARY'') fresh_world =
     (Inr (), \<lparr>calls = [FilterInstances (PStr ''i-1''), InstanceTerminate (PStr ''i-1''), DescribeInstancesById (PStr ''i-1'')]\<rparr>)"
  by (simp add: recycle_instance_def poll_def poll_from_unfold is_terminated_def get_instance_state_def
      io_eval sample_aws_def sample_instance_def fresh_world_def list_index_def sample_aws_state assert_terminated_def)

lemma recycle_instance_safe_witness:
  "\<exists>new obj cs d. [FilterInstances (PStr ''i-1''), InstanceTerminate (PStr ''i-1''), DescribeInstancesById (PStr ''i-1'')] = new \<and>
     terminations new = [obj] \<and> new = cs @ [DescribeInstancesById obj] \<and>
     reply sample_aws cs (DescribeInstancesById obj) = Inr d \<and> instance_state d = Inr (PStr ''terminated'')"
  using recycle_instance_safe [OF sample_aws_lists sample_aws_recycle] by (simp add: fresh_world_def)

end
