(* ===== verification/MongoConn.thy ===== *)
theory MongoConn
  imports Poll
begin

text \<open>
  The Mongo recycler's MongoDB connector, \<open>connectors/mongo.py\<close>. A client is identified by its
  connection string. \<open>retry\<close> is the decorator that \<open>tenacity\<close> gives \<open>_connect\<close>: a parameter,
  which the properties assume to be a \<open>bounded_retry\<close> of 10 attempts, its documented behaviour
  for \<open>stop_after_attempt(10)\<close> with \<open>reraise=True\<close>. The lemmas say what a node's state number
  is read as, and how \<open>set_chaining\<close> changes the replica-set configuration.
\<close>

section \<open>The state of a node\<close>

definition member_states :: "string list" where
  "member_states =
     [''STARTUP'', ''PRIMARY'', ''SECONDARY'', ''RECOVERING'', ''STARTUP2'', ''UNKNOWN'', ''ARBITER'', ''DOWN'',
      ''ROLLBACK'', ''REMOVED'']"

text \<open>\<open>states[v]\<close> for an object \<open>v\<close>: an int or a bool indexes the list, any other object raises.\<close>

definition states_item :: "pyval \<Rightarrow> string res" where
  "states_item v =
     (case v of
        PInt i \<Rightarrow> list_index member_states i
      | PBool b \<Rightarrow> list_index member_states (if b then 1 else 0)
      | _ \<Rightarrow> Inl (type_error (''list indices must be integers or slices, not '' @ type_name v)))"

definition state_string_from_status :: "pyval \<Rightarrow> string res" where
  "state_string_from_status instance_status =
     (case res_bind (py_item instance_status ''myState'') states_item of
        Inr st \<Rightarrow> Inr st
      | Inl e \<Rightarrow> if exn_cls e = KeyError then Inl (Exn InstanceStateNotFound None) else Inl e)"

record NodeDetails =
  node_state :: string
  node_set :: pyval

definition node_details :: "pyval \<Rightarrow> NodeDetails res" where
  "node_details instance_status =
     res_bind (py_item instance_status ''ok'') (\<lambda>ok.
     if \<not> py_eq ok (PInt 1) then Inl (Exn MongoRequestFailed None)
     else
       res_bind (state_string_from_status instance_status) (\<lambda>st.
       res_bind (py_item instance_status ''set'') (\<lambda>rs.
       Inr \<lparr>node_state = st, node_set = rs\<rparr>)))"

section \<open>The client\<close>

type_synonym 'z retrier = "('z world_scheme, pyval) io \<Rightarrow> ('z world_scheme, pyval) io"

definition connect_once :: "env \<Rightarrow> pyval \<Rightarrow> ('z world_scheme, pyval) io" where
  "connect_once E connection_string =
     io_then (request E (MongoClient connection_string))
       (io_then (request E (ReplSetGetStatus connection_string)) (io_return connection_string))"

definition connect :: "env \<Rightarrow> 'z retrier \<Rightarrow> pyval \<Rightarrow> ('z world_scheme, pyval) io" where
  "connect E retry connection_string = retry (connect_once E connection_string)"

definition replica_set_status :: "env \<Rightarrow> 'z retrier \<Rightarrow> pyval \<Rightarrow> ('z world_scheme, pyval) io" where
  "replica_set_status E retry connection_string =
     io_bind (connect E retry connection_string) (\<lambda>client. request E (ReplSetGetStatus client))"

definition new_chaining_config :: "pyval \<Rightarrow> bool \<Rightarrow> pyval res" where
  "new_chaining_config config new_chaining_status =
     res_bind (py_item config ''settings'') (\<lambda>settings.
     res_bind (py_set_item settings ''chainingAllowed'' (PBool new_chaining_status)) (\<lambda>settings'.
     res_bind (py_set_item config ''settings'' settings') (\<lambda>config'.
     res_bind (py_item config' ''version'') (\<lambda>version.
     res_bind (py_add_one version) (\<lambda>version'.
     py_set_item config' ''version'' version')))))"

definition chaining_of :: "pyval \<Rightarrow> pyval res" where
  "chaining_of config = res_bind (py_item config ''settings'') (\<lambda>settings. py_item settings ''chainingAllowed'')"

definition set_chaining :: "env \<Rightarrow> 'z retrier \<Rightarrow> pyval \<Rightarrow> bool \<Rightarrow> ('z world_scheme, pyval) io" where
  "set_chaining E retry connection_string new_chaining_status =
     io_bind (connect E retry connection_string) (\<lambda>client.
     io_bind (request E (ReplSetGetConfig client)) (\<lambda>answer.
     io_bind (io_res (py_item answer ''config'')) (\<lambda>config.
     io_bind (io_res (chaining_of config)) (\<lambda>current_chaining_status.
     if py_eq current_chaining_status (PBool new_chaining_status) then io_return config
     else
       io_bind (io_res (new_chaining_config config new_chaining_status)) (\<lambda>config'.
       io_then (request E (ReplSetReconfig client config')) (io_return config'))))))"

definition get_node_details :: "env \<Rightarrow> 'z retrier \<Rightarrow> pyval \<Rightarrow> ('z world_scheme, NodeDetails) io" where
  "get_node_details E retry ip =
     io_bind (connect E retry ip) (\<lambda>client.
     io_bind (request E (ReplSetGetStatus client)) (\<lambda>instance_status.
     io_res (node_details instance_status)))"

definition step_down :: "env \<Rightarrow> 'z retrier \<Rightarrow> pyval \<Rightarrow> ('z world_scheme, unit) io" where
  "step_down E retry ip =
     io_bind (connect E retry ip) (\<lambda>client.
     io_catch_class AutoReconnect
       (io_then (request E (ReplSetStepDown client 100)) (io_return ()))
       (\<lambda>_. io_return ()))"

definition mongo_suffix :: "string \<Rightarrow> bool" where
  "mongo_suffix m = (m \<in> set [''_mongo'', ''_mongo_a'', ''_mongo_b'', ''_mongo_c''])"

text \<open>\<open>Mongo(component)\<close>: \<open>re.sub\<close> raises for a component that is not a string.\<close>

definition mongo_init :: "pyval \<Rightarrow> string res" where
  "mongo_init component =
     res_bind (need_str component (type_error (''expected string or bytes-like object, got '' @ quoted (type_name component))))
       (\<lambda>c. Inr (re_sub_end mongo_suffix c))"

section \<open>Node states\<close>

text \<open>
  The numbers of the member states in MongoDB's documentation of \<open>replSetGetStatus\<close>, which
  \<open>myState\<close> carries. There is no state 4.
\<close>

definition documented_state :: "int \<Rightarrow> string option" where
  "documented_state n =
     map_of [(0, ''STARTUP''), (1, ''PRIMARY''), (2, ''SECONDARY''), (3, ''RECOVERING''), (5, ''STARTUP2''),
       (6, ''UNKNOWN''), (7, ''ARBITER''), (8, ''DOWN''), (9, ''ROLLBACK''), (10, ''REMOVED'')] n"

definition status_doc :: "int \<Rightarrow> pyval" where
  "status_doc n = PDict [(''myState'', PInt n)]"

lemma state_string_status:
  "state_string_from_status (status_doc n) =
     (if 0 \<le> n \<and> n < 10 then Inr (member_states ! nat n)
      else if -10 \<le> n \<and> n < 0 then Inr (member_states ! nat (10 + n))
      else Inl (Exn IndexError (Some (PStr ''list index out of range''))))"
  by (auto simp: state_string_from_status_def status_doc_def py_item_PDict states_item_def list_index_def
      member_states_def Let_def)

text \<open>
  C39. The state names the recycler decides by are right: a node is read as PRIMARY exactly for
  MongoDB's state 1 and as SECONDARY exactly for its state 2. Every documented state from 5 on is
  misread: the table has no gap at 4, so an arbiter (7) is read as DOWN, a node that is down (8)
  as ROLLBACK, and a removed node (10) ends the step with IndexError.
\<close>

theorem state_string_documented:
  assumes "documented_state n = Some name"
  shows "(state_string_from_status (status_doc n) = Inr ''PRIMARY'') = (name = ''PRIMARY'') \<and>
         (state_string_from_status (status_doc n) = Inr ''SECONDARY'') = (name = ''SECONDARY'') \<and>
         (state_string_from_status (status_doc n) = Inr name) = (n \<le> 3)"
proof -
  from assms have "n \<in> {0, 1, 2, 3, 5, 6, 7, 8, 9, 10}"
    by (auto simp: documented_state_def split: if_splits)
  with assms show ?thesis
    by (auto simp: state_string_status member_states_def documented_state_def)
qed

lemma state_string_documented_witness:
  "documented_state 7 = Some ''ARBITER'' \<and> state_string_from_status (status_doc 7) = Inr ''DOWN'' \<and>
   state_string_from_status (status_doc 7) \<noteq> Inr ''ARBITER''"
  using state_string_documented [of 7 "''ARBITER''"]
  by (simp add: documented_state_def state_string_status member_states_def)

section \<open>The configuration change\<close>

text \<open>
  \<open>chaining_changed config b config'\<close>: \<open>config'\<close> allows chaining as \<open>b\<close> says, its version is one
  more, and every other key of the configuration and of its settings is as it was.
\<close>

definition chaining_changed :: "pyval \<Rightarrow> bool \<Rightarrow> pyval \<Rightarrow> bool" where
  "chaining_changed config b config' =
     (\<exists>settings settings' version version'.
        py_item config ''settings'' = Inr settings \<and> py_item config' ''settings'' = Inr settings' \<and>
        (\<forall>k. py_item settings' k = (if k = ''chainingAllowed'' then Inr (PBool b) else py_item settings k)) \<and>
        py_item config ''version'' = Inr version \<and> py_add_one version = Inr version' \<and>
        py_item config' ''version'' = Inr version' \<and>
        (\<forall>k. k \<notin> {''settings'', ''version''} \<longrightarrow> py_item config' k = py_item config k))"

lemma new_chaining_config_changed:
  assumes "new_chaining_config config b = Inr config'"
  shows "chaining_changed config b config'"
proof -
  from assms obtain settings settings' config1 version version' where
    1: "py_item config ''settings'' = Inr settings" "py_set_item settings ''chainingAllowed'' (PBool b) = Inr settings'"
       "py_set_item config ''settings'' settings' = Inr config1"
    and 2: "py_item config1 ''version'' = Inr version" "py_add_one version = Inr version'"
       "py_set_item config1 ''version'' version' = Inr config'"
    by (auto simp: new_chaining_config_def res_simps)
  note set = py_item_set_item [OF 1(2)] py_item_set_item [OF 1(3)] py_item_set_item [OF 2(3)]
  from 2(1) set(2) [of "''version''"] have "py_item config ''version'' = Inr version" by simp
  with 1(1) 2(2) set show ?thesis by (simp add: chaining_changed_def)
qed

lemma chaining_changed_of: "chaining_changed config b config' \<Longrightarrow> chaining_of config' = Inr (PBool b)"
  unfolding chaining_changed_def chaining_of_def by (elim exE conjE) simp

lemma connect_once_footprint: "footprint (connect_once E cs) {MongoClient cs, ReplSetGetStatus cs}"
  by (auto simp: connect_once_def intro!: footprint_intros)

definition connecting :: "pyval \<Rightarrow> call set" where
  "connecting cs = {MongoClient cs, ReplSetGetStatus cs} \<union> range Sleep"

text \<open>
  What a successful connection is worth: the client is the one asked for, and the last call was a
  status request that it answered.
\<close>

lemma connect_footprint:
  assumes "bounded_retry retry n"
  shows "footprint (connect E retry cs) (connecting cs)"
  unfolding connect_def
  by (rule bounded_retry.run_footprint [OF assms footprint_mono [OF connect_once_footprint]])
    (auto simp: connecting_def)

lemma connect_wp:
  assumes retry: "bounded_retry retry n"
  shows "wp (connect E retry cs) (\<lambda>client t. client = cs \<and> extends (connecting cs) s t)
    (\<lambda>_. extends (connecting cs) s) s"
proof -
  have fp: "footprint (connect E retry cs) (connecting cs)"
    by (rule connect_footprint [OF retry])
  have val: "wp (retry (connect_once E cs)) (\<lambda>client _. client = cs) (\<lambda>_ _. True) s"
    by (rule bounded_retry.run_wp [OF retry, where I = "\<lambda>_. True"])
      (auto simp: connect_once_def wp_simps split: sum.splits)
  show ?thesis
    using wp_conj [OF footprint_wp [OF fp] val [folded connect_def]]
    by (auto elim: wp_mono)
qed

section \<open>Setting the chaining status\<close>

text \<open>
  The log of \<open>set_chaining\<close> that returned \<open>c\<close>: connecting, reading the configuration, and one
  reconfiguration, as its last call, exactly when the setting was not the wanted one.
\<close>

definition chaining_log :: "env \<Rightarrow> pyval \<Rightarrow> bool \<Rightarrow> call list \<Rightarrow> pyval \<Rightarrow> call list \<Rightarrow> bool" where
  "chaining_log E cs b h c t =
     (\<exists>conn answer config current.
        set conn \<subseteq> connecting cs \<and>
        reply E (h @ conn) (ReplSetGetConfig cs) = Inr answer \<and> py_item answer ''config'' = Inr config \<and>
        chaining_of config = Inr current \<and>
        (if py_eq current (PBool b)
         then t = h @ conn @ [ReplSetGetConfig cs] \<and> c = config
         else t = h @ conn @ [ReplSetGetConfig cs, ReplSetReconfig cs c] \<and> chaining_changed config b c))"

definition chaining_calls :: "pyval \<Rightarrow> call set" where
  "chaining_calls cs = connecting cs \<union> {ReplSetGetConfig cs} \<union> range (ReplSetReconfig cs)"

lemma set_chaining_footprint:
  assumes "bounded_retry retry n"
  shows "footprint (set_chaining E retry cs b) (chaining_calls cs)"
proof (rule footprintI)
  fix s
  have "wp (set_chaining E retry cs b) (\<lambda>_. extends (chaining_calls cs) s) (\<lambda>_. extends (chaining_calls cs) s) s"
    unfolding set_chaining_def wp_bind
    by (rule wp_mono [OF connect_wp [OF assms]])
      (auto simp: wp_simps extends_def chaining_calls_def split: sum.splits)
  then show "extends (chaining_calls cs) s (snd (set_chaining E retry cs b s))"
    by (auto simp: wp_def split: prod.splits sum.splits)
qed

lemma chaining_log_same:
  "set conn \<subseteq> connecting cs \<Longrightarrow> reply E (h @ conn) (ReplSetGetConfig cs) = Inr answer \<Longrightarrow>
   py_item answer ''config'' = Inr c \<Longrightarrow> chaining_of c = Inr current \<Longrightarrow> py_eq current (PBool b) \<Longrightarrow>
   chaining_log E cs b h c (h @ conn @ [ReplSetGetConfig cs])"
  unfolding chaining_log_def by (intro exI conjI, assumption+) simp

lemma chaining_log_new:
  "set conn \<subseteq> connecting cs \<Longrightarrow> reply E (h @ conn) (ReplSetGetConfig cs) = Inr answer \<Longrightarrow>
   py_item answer ''config'' = Inr config \<Longrightarrow> chaining_of config = Inr current \<Longrightarrow> \<not> py_eq current (PBool b) \<Longrightarrow>
   new_chaining_config config b = Inr c \<Longrightarrow>
   chaining_log E cs b h c (h @ conn @ [ReplSetGetConfig cs, ReplSetReconfig cs c])"
  unfolding chaining_log_def by (intro exI conjI, assumption+) (simp add: new_chaining_config_changed)

lemma set_chaining_wp:
  assumes "bounded_retry retry n"
  shows "wp (set_chaining E retry cs b) (\<lambda>c t. chaining_log E cs b (calls s) c (calls t)) (\<lambda>_ _. True) s"
  unfolding set_chaining_def wp_bind
  by (rule wp_mono [OF connect_wp [OF assms]])
    (auto simp: wp_simps extends_def split: sum.splits intro: chaining_log_same chaining_log_new)

text \<open>
  A call of set_chaining that returns leaves the replica set with the wanted chaining setting:
  either the configuration it read already had it, and nothing was written, or its last call
  was one reconfiguration that changes that setting, raises the version by one and keeps every
  other key.
\<close>

theorem set_chaining_effect:
  assumes "bounded_retry retry n" and "set_chaining E retry cs b s = (Inr c, t)"
  shows "chaining_log E cs b (calls s) c (calls t) \<and>
    (\<exists>v. chaining_of c = Inr v \<and> py_eq v (PBool b))"
proof -
  have log: "chaining_log E cs b (calls s) c (calls t)"
    using wp_Inr [OF set_chaining_wp [OF assms(1)] assms(2)] .
  then have "\<exists>v. chaining_of c = Inr v \<and> py_eq v (PBool b)"
    by (auto simp: chaining_log_def split: if_splits dest: chaining_changed_of)
  with log show ?thesis by blast
qed

text \<open>A retry that tries again at once, and a replica set that answers.\<close>

fun retry_now :: "nat \<Rightarrow> ('z world_scheme, 'a) io \<Rightarrow> ('z world_scheme, 'a) io" where
  "retry_now 0 m = m"
| "retry_now (Suc n) m = io_catch m (\<lambda>_. retry_now n m)"

lemma retry_now_attempts: "attempts m (Suc n) s (retry_now n m s)"
proof (induction n arbitrary: s)
  case 0
  show ?case by (cases "m s"; cases "fst (m s)") (auto intro: attempts_done attempts_last)
next
  case (Suc n)
  show ?case
  proof (cases "m s")
    case (Pair r t)
    show ?thesis
    proof (cases r)
      case (Inl e)
      with Pair Suc.IH [of t] show ?thesis
        using attempts_again [of m s e t n "[]" "retry_now n m t"] by (simp add: io_catch_def)
    next
      case (Inr x)
      with Pair show ?thesis by (auto simp: io_catch_def intro: attempts_done)
    qed
  qed
qed

lemma retry_now_bounded: "bounded_retry (retry_now 9) 10"
  using retry_now_attempts [of _ 9] by unfold_locales simp

definition sample_config :: "bool \<Rightarrow> int \<Rightarrow> pyval" where
  "sample_config b v = PDict [(''version'', PInt v), (''settings'', PDict [(''chainingAllowed'', PBool b)])]"

definition sample_mongo :: env where
  "sample_mongo = \<lparr>reply = (\<lambda>h c. case c of
       ReplSetGetConfig _ \<Rightarrow> Inr (PDict [(''config'', sample_config True 7)])
     | _ \<Rightarrow> Inr PNone),
     environ = (\<lambda>_. None)\<rparr>"

lemma connect_sample_mongo:
  "connect sample_mongo (retry_now 9) cs s =
     (Inr cs, s\<lparr>calls := calls s @ [MongoClient cs, ReplSetGetStatus cs]\<rparr>)"
  by (simp add: connect_def connect_once_def io_eval sample_mongo_def numeral_eq_Suc)

lemma set_chaining_effect_witness:
  "\<exists>c. chaining_log sample_mongo (PStr ''h'') False [] c
      [MongoClient (PStr ''h''), ReplSetGetStatus (PStr ''h''), ReplSetGetConfig (PStr ''h''),
       ReplSetReconfig (PStr ''h'') c] \<and>
    chaining_of c = Inr (PBool False)"
proof -
  let ?c = "sample_config False 8"
  have "set_chaining sample_mongo (retry_now 9) (PStr ''h'') False fresh_world =
      (Inr ?c, \<lparr>calls = [MongoClient (PStr ''h''), ReplSetGetStatus (PStr ''h''), ReplSetGetConfig (PStr ''h''),
         ReplSetReconfig (PStr ''h'') ?c]\<rparr>)"
    by (simp add: set_chaining_def io_bind_def connect_sample_mongo)
      (simp add: io_eval sample_mongo_def sample_config_def fresh_world_def
        py_item_PDict chaining_of_def new_chaining_config_def py_add_one_def)
  from set_chaining_effect [OF retry_now_bounded this] show ?thesis
    by (intro exI [of _ ?c]) (simp add: fresh_world_def chaining_of_def sample_config_def py_item_PDict)
qed

end
