(* ===== verification/MongoHealth.thy ===== *)
theory MongoHealth
  imports MongoAWS MongoConn
begin

text \<open>
  The health of a replica set, \<open>process/replica_set_health.py\<close>: the assertions on the answer of
  \<open>replSetGetStatus\<close>, and waiting until they hold. The lemmas characterise a healthy status and
  say that a wait that returns has just seen one. The locale \<open>health_gate\<close> is what the execution
  of a decision relies on.
\<close>

section \<open>The assertions\<close>

definition healthy_states :: "string list" where
  "healthy_states = [''PRIMARY'', ''SECONDARY'', ''ARBITER'']"

definition assert_one_primary_node :: "pyval list \<Rightarrow> unit res" where
  "assert_one_primary_node replica_set_members =
     res_bind (res_filter (\<lambda>member. res_bind (py_item member ''stateStr'') (\<lambda>st.
         Inr (py_eq st (PStr ''PRIMARY'')))) replica_set_members) (\<lambda>primary_nodes.
     if length primary_nodes \<noteq> 1
       then Inl (Exn PrimaryError (Some (PStr (''primary error, '' @ nat_str (length primary_nodes) @ '' primaries found''))))
     else Inr ())"

definition assert_node_healthy :: "pyval \<Rightarrow> unit res" where
  "assert_node_healthy member =
     res_bind (py_item member ''stateStr'') (\<lambda>state.
     if \<not> hashable state then Inl (type_error (''unhashable type: '' @ quoted (type_name state)))
     else if \<not> list_ex (\<lambda>h. py_eq state (PStr h)) healthy_states
       then res_bind (py_item member ''name'') (\<lambda>name.
         Inl (Exn NodeNotHealthy (Some (PStr (py_str name @ '' is in unhealthy state '' @ py_str state)))))
     else if py_eq state (PStr ''SECONDARY'')
       then res_bind (py_in ''syncSourceHost'' member) (\<lambda>has_source.
         if has_source
         then res_bind (py_item member ''syncSourceHost'') (\<lambda>source.
           if py_eq source (PStr '''')
           then res_bind (py_item member ''name'') (\<lambda>name.
             Inl (Exn SecondaryNotHealthy (Some (PStr (py_str name @ '' is secondary but has no syncSourceHost'')))))
           else Inr ())
         else Inr ())
     else Inr ())"

fun assert_all_nodes_healthy :: "pyval list \<Rightarrow> unit res" where
  "assert_all_nodes_healthy [] = Inr ()"
| "assert_all_nodes_healthy (member # members) =
     res_bind (assert_node_healthy member) (\<lambda>_. assert_all_nodes_healthy members)"

definition assert_replica_set_healthy :: "pyval \<Rightarrow> unit res" where
  "assert_replica_set_healthy rs_status =
     res_bind (py_item rs_status ''members'') (\<lambda>replica_set_members.
     res_bind (py_iter replica_set_members) (\<lambda>members.
     res_bind (assert_all_nodes_healthy members) (\<lambda>_.
     assert_one_primary_node members)))"

section \<open>Waiting\<close>

text \<open>
  \<open>",".join(i["IpAddress"] for i in instances)\<close>: the generator is read to its end first; an address
  that is not a string is reported with its position.
\<close>

fun host_names :: "nat \<Rightarrow> pyval list \<Rightarrow> string list res" where
  "host_names n [] = Inr []"
| "host_names n (ip # ips) =
     res_bind (need_str ip (type_error
         (''sequence item '' @ nat_str n @ '': expected str instance, '' @ type_name ip @ '' found''))) (\<lambda>host.
     res_bind (host_names (n + 1) ips) (\<lambda>hosts. Inr (host # hosts)))"

definition addresses_of :: "pyval res list \<Rightarrow> string res" where
  "addresses_of instances =
     res_bind (res_map (\<lambda>i. res_bind i (\<lambda>d. py_item d ''IpAddress'')) instances) (\<lambda>ips.
     res_bind (host_names 0 ips) (\<lambda>hosts.
     Inr (str_join '','' hosts)))"

definition assert_healthy :: "env \<Rightarrow> 'z retrier \<Rightarrow> string \<Rightarrow> ('z world_scheme, unit) io" where
  "assert_healthy E retry component =
     io_bind (get_mongo_db_instances E component) (\<lambda>instances.
     io_bind (io_res (addresses_of instances)) (\<lambda>host.
     io_bind (replica_set_status E retry (PStr host)) (\<lambda>status.
     io_res (assert_replica_set_healthy status))))"

definition wait_until_cluster_healthy :: "env \<Rightarrow> 'z retrier \<Rightarrow> string \<Rightarrow> ('z world_scheme, unit) io" where
  "wait_until_cluster_healthy E retry component = poll (assert_healthy E retry component) 60 (Some 10)"

section \<open>A healthy status\<close>

text \<open>
  A typed member of a replica set and its JSON. \<open>source\<close> is its \<open>syncSourceHost\<close>, a field that
  some servers leave out.
\<close>

record member =
  member_name :: string
  state_str :: string
  source :: "string option"

definition member_json :: "member \<Rightarrow> pyval" where
  "member_json m = PDict ([(''name'', PStr (member_name m)), (''stateStr'', PStr (state_str m))] @
     (case source m of None \<Rightarrow> [] | Some h \<Rightarrow> [(''syncSourceHost'', PStr h)]))"

definition status_json :: "member list \<Rightarrow> pyval" where
  "status_json ms = PDict [(''members'', PList (map member_json ms)), (''ok'', PInt 1)]"

definition healthy_member :: "member \<Rightarrow> bool" where
  "healthy_member m =
     (state_str m \<in> {''PRIMARY'', ''ARBITER''} \<or> state_str m = ''SECONDARY'' \<and> source m \<noteq> Some '''')"

definition member_error :: "member \<Rightarrow> exn" where
  "member_error m =
     (if state_str m = ''SECONDARY''
      then Exn SecondaryNotHealthy (Some (PStr (member_name m @ '' is secondary but has no syncSourceHost'')))
      else Exn NodeNotHealthy (Some (PStr (member_name m @ '' is in unhealthy state '' @ state_str m))))"

lemma member_json_items:
  "py_item (member_json m) ''name'' = Inr (PStr (member_name m))"
  "py_item (member_json m) ''stateStr'' = Inr (PStr (state_str m))"
  "py_in ''syncSourceHost'' (member_json m) = Inr (source m \<noteq> None)"
  "source m = Some h \<Longrightarrow> py_item (member_json m) ''syncSourceHost'' = Inr (PStr h)"
  by (cases "source m"; simp add: member_json_def py_item_PDict)+

lemma assert_node_healthy_json:
  "assert_node_healthy (member_json m) = (if healthy_member m then Inr () else Inl (member_error m))"
  by (cases "source m")
    (auto simp: assert_node_healthy_def member_json_items hashable_def healthy_states_def healthy_member_def member_error_def)

lemma assert_all_nodes_healthy_json:
  "assert_all_nodes_healthy (map member_json ms) =
     (case find (\<lambda>m. \<not> healthy_member m) ms of None \<Rightarrow> Inr () | Some m \<Rightarrow> Inl (member_error m))"
  by (induction ms) (auto simp: assert_node_healthy_json)

lemma assert_one_primary_node_json:
  "assert_one_primary_node (map member_json ms) =
     (let n = length (filter (\<lambda>m. state_str m = ''PRIMARY'') ms)
      in if n = 1 then Inr ()
         else Inl (Exn PrimaryError (Some (PStr (''primary error, '' @ nat_str n @ '' primaries found'')))))"
proof -
  have "res_filter (\<lambda>member. res_bind (py_item member ''stateStr'') (\<lambda>st. Inr (py_eq st (PStr ''PRIMARY''))))
      (map member_json ms) = Inr (map member_json (filter (\<lambda>m. state_str m = ''PRIMARY'') ms))"
    by (induction ms) (auto simp: member_json_items)
  then show ?thesis by (simp add: assert_one_primary_node_def Let_def)
qed

text \<open>
  C33. A replica-set status is accepted exactly when every member is PRIMARY, ARBITER, or a
  SECONDARY that does not report an empty sync source, and exactly one member is PRIMARY. The
  first member that is not healthy decides the error, before the primaries are counted.
\<close>

theorem assert_replica_set_healthy_spec:
  "assert_replica_set_healthy (status_json ms) =
     (case find (\<lambda>m. \<not> (state_str m \<in> {''PRIMARY'', ''ARBITER''} \<or>
                        state_str m = ''SECONDARY'' \<and> source m \<noteq> Some '''')) ms of
        Some m \<Rightarrow> Inl (member_error m)
      | None \<Rightarrow>
          let n = length (filter (\<lambda>m. state_str m = ''PRIMARY'') ms)
          in if n = 1 then Inr ()
             else Inl (Exn PrimaryError (Some (PStr (''primary error, '' @ nat_str n @ '' primaries found'')))))"
proof -
  have "find (\<lambda>m. \<not> (state_str m \<in> {''PRIMARY'', ''ARBITER''} \<or>
      state_str m = ''SECONDARY'' \<and> source m \<noteq> Some '''')) ms = find (\<lambda>m. \<not> healthy_member m) ms"
    by (simp only: healthy_member_def)
  then show ?thesis
    by (simp only:) (simp add: assert_replica_set_healthy_def status_json_def py_item_PDict
        assert_all_nodes_healthy_json assert_one_primary_node_json split: option.splits)
qed

section \<open>What a wait has seen\<close>

definition healthy_seen :: "env \<Rightarrow> call list \<Rightarrow> bool" where
  "healthy_seen E h =
     (\<exists>pre host answer. h = pre @ [ReplSetGetStatus host] \<and>
        reply E pre (ReplSetGetStatus host) = Inr answer \<and> assert_replica_set_healthy answer = Inr ())"

text \<open>The calls that only look at the cluster.\<close>

definition observing :: "call set" where
  "observing = range DescribeInstancesByName \<union> range MongoClient \<union> range ReplSetGetStatus \<union> range Sleep"

lemma connecting_observing: "connecting cs \<subseteq> observing"
  by (auto simp: connecting_def observing_def)

lemma observing_members [simp]:
  "DescribeInstancesByName ns \<in> observing" "MongoClient v \<in> observing" "ReplSetGetStatus v \<in> observing"
  "Sleep n \<in> observing"
  by (auto simp: observing_def)

lemma observing_harmless: "observing \<subseteq> harmless"
  by (auto simp: observing_def harmless_def)

lemma replica_set_status_wp:
  assumes "bounded_retry retry n"
  shows "wp (replica_set_status E retry cs)
    (\<lambda>v t. extends observing s t \<and> (\<exists>pre. calls t = pre @ [ReplSetGetStatus cs] \<and> reply E pre (ReplSetGetStatus cs) = Inr v))
    (\<lambda>_. extends observing s) s"
  unfolding replica_set_status_def wp_bind
proof (rule wp_mono [OF connect_wp [OF assms]])
  fix client and t :: "'a world_scheme"
  assume "client = cs \<and> extends (connecting cs) s t"
  then have "client = cs" and "extends observing s t"
    using extends_mono connecting_observing by blast+
  then show "wp (request E (ReplSetGetStatus client))
    (\<lambda>v t. extends observing s t \<and> (\<exists>pre. calls t = pre @ [ReplSetGetStatus cs] \<and> reply E pre (ReplSetGetStatus cs) = Inr v))
    (\<lambda>_. extends observing s) t"
    by (auto simp: wp_simps extends_def split: sum.splits)
next
  fix e and t :: "'a world_scheme"
  assume "extends (connecting cs) s t"
  then show "extends observing s t" using extends_mono connecting_observing by blast
qed

lemma assert_healthy_wp:
  assumes "bounded_retry retry n"
  shows "wp (assert_healthy E retry component)
    (\<lambda>_ t. extends observing s t \<and> healthy_seen E (calls t)) (\<lambda>_. extends observing s) s"
proof -
  let ?u = "s\<lparr>calls := calls s @ [DescribeInstancesByName (create_instance_name_filters component)]\<rparr>"
  have u: "extends observing s ?u" by (rule extends_call) simp
  have "wp (replica_set_status E retry (PStr host))
      (\<lambda>v. wp (io_res (assert_replica_set_healthy v))
          (\<lambda>_ t. extends observing s t \<and> healthy_seen E (calls t)) (\<lambda>_. extends observing s))
      (\<lambda>_. extends observing s) ?u" for host
    by (rule wp_mono [OF replica_set_status_wp [OF assms]])
      (auto simp: wp_simps healthy_seen_def intro: extends_trans [OF u] split: sum.splits)
  with u show ?thesis
    by (simp add: assert_healthy_def get_mongo_db_instances_def wp_simps split: sum.splits)
qed

lemma wait_until_cluster_healthy_wp:
  assumes "bounded_retry retry n"
  shows "wp (wait_until_cluster_healthy E retry component)
    (\<lambda>_ t. extends observing s t \<and> healthy_seen E (calls t)) (\<lambda>_. extends observing s) s"
  unfolding wait_until_cluster_healthy_def
proof (rule polling.run_wp [where I = "extends observing s"])
  fix u
  assume u: "extends observing s u"
  show "wp (assert_healthy E retry component)
    (\<lambda>_ t. extends observing s t \<and> healthy_seen E (calls t))
    (\<lambda>e t. extends observing s t \<and> extends observing s t) u"
    by (rule wp_mono [OF assert_healthy_wp [OF assms]]) (auto intro: extends_trans [OF u])
next
  fix u ds
  assume u: "extends observing s u"
  have "extends observing u (u\<lparr>calls := calls u @ map Sleep ds\<rparr>)" by (auto simp: extends_def)
  with u show "extends observing s (u\<lparr>calls := calls u @ map Sleep ds\<rparr>)" by (rule extends_trans)
qed simp

section \<open>The interfaces the execution of a decision relies on\<close>

text \<open>
  \<open>health_gate\<close>: a wait only looks at the cluster, and returns only when the status it has just
  seen is healthy. \<open>instance_recycler\<close>: recycling an instance ends the one instance its lookup
  finds. \<open>gated_recycler\<close> joins the two, for the sequences that \<open>execute_action\<close> runs.
\<close>

locale health_gate =
  fixes E :: env and retry :: "'z retrier" and wait :: "('z world_scheme, unit) io"
  assumes gate: "bounded_retry retry 10 \<Longrightarrow>
    wp wait (\<lambda>_ t. extends observing s t \<and> healthy_seen E (calls t)) (\<lambda>_. extends observing s) s"

locale instance_recycler =
  fixes E :: env and recycle :: "Instance \<Rightarrow> ('z world_scheme, unit) io"
  assumes recycle: "instances_are_lists E \<Longrightarrow>
    wp (recycle i)
      (\<lambda>_ t. terminate_log E i (calls s) (calls t) \<and> saw_terminated E i (calls s) (calls t))
      (\<lambda>_ t. terminate_log E i (calls s) (calls t) \<or> no_terminate_log i (calls s) (calls t)) s"

locale gated_recycler = health_gate E retry wait + instance_recycler E recycle
  for E :: env and retry :: "'z retrier" and wait :: "('z world_scheme, unit) io"
    and recycle :: "Instance \<Rightarrow> ('z world_scheme, unit) io"

interpretation cluster_health: health_gate E retry "wait_until_cluster_healthy E retry component"
  for E retry component
  by unfold_locales (rule wait_until_cluster_healthy_wp)

interpretation aws_recycler: instance_recycler E "recycle_instance E" for E
  by unfold_locales (rule recycle_instance_wp)

interpretation cluster_recycler:
  gated_recycler E retry "wait_until_cluster_healthy E retry component" "recycle_instance E"
  for E retry component
  by unfold_locales

end
