(* ===== verification/MongoStep.thy ===== *)
theory MongoStep
  imports MongoHealth
begin

text \<open>
  One step of the Mongo recycler: \<open>process/instances.py\<close>, \<open>process/execute.py\<close> and
  \<open>process/step.py\<close>, with the Lambda's handler. The lemmas say in which order a step acts: the
  checks come before anything is changed, chaining is off and (for a primary) the replica set
  healthy again after the step-down before the one instance is terminated, and a step that
  returns leaves a healthy replica set.
\<close>

section \<open>The status of the replica set\<close>

fun fetch_from :: "env \<Rightarrow> 'z retrier \<Rightarrow> pyval res list \<Rightarrow> ('z world_scheme, Instance list) io" where
  "fetch_from E retry [] = io_return []"
| "fetch_from E retry (Inl e # rest) = io_raise e"
| "fetch_from E retry (Inr inst # rest) =
     io_bind (io_res (py_item inst ''IpAddress'')) (\<lambda>ip.
     io_bind (get_node_details E retry ip) (\<lambda>details.
     io_bind (io_res (py_item inst ''InstanceId'')) (\<lambda>iid.
     io_bind (io_res (py_item inst ''ImageId'')) (\<lambda>img.
     io_bind (fetch_from E retry rest) (\<lambda>more.
     io_return
       (\<lparr>instance_id = iid, image_id = img, ip_address = ip, mongo_state = node_state details,
         replica_set_name = node_set details\<rparr> # more))))))"

definition fetch_replica_set_status :: "env \<Rightarrow> 'z retrier \<Rightarrow> string \<Rightarrow> ('z world_scheme, Instance list) io" where
  "fetch_replica_set_status E retry component =
     io_bind (get_mongo_db_instances E component) (fetch_from E retry)"

section \<open>Executing a decision\<close>

definition execute_action :: "env \<Rightarrow> 'z retrier \<Rightarrow> string \<Rightarrow> Decision \<Rightarrow> ('z world_scheme, unit) io" where
  "execute_action E retry component d =
     io_bind (get_mongo_db_instances E component) (\<lambda>instances.
     io_bind (io_res (addresses_of instances)) (\<lambda>connection_string.
     if action d = DONE
       then io_then (set_chaining E retry (PStr connection_string) True) (io_return ())
     else
       io_then (set_chaining E retry (PStr connection_string) False)
         (io_then
           (if action d = STEP_DOWN_AND_RECYCLE_PRIMARY
            then
              (case target d of
                 None \<Rightarrow> io_raise (no_attribute PNone ''ip_address'')
               | Some i \<Rightarrow>
                   io_then (step_down E retry (ip_address i))
                     (wait_until_cluster_healthy E retry component))
            else io_return ())
           (case target d of
              None \<Rightarrow> io_raise (no_attribute PNone ''instance_id'')
            | Some i \<Rightarrow>
                io_then (recycle_instance E i) (wait_until_cluster_healthy E retry component)))))"

section \<open>The step\<close>

definition get_ami_and_check_all_amis_match :: "env \<Rightarrow> string \<Rightarrow> ('z world_scheme, pyval) io" where
  "get_ami_and_check_all_amis_match E component =
     io_bind (get_launch_template_image_ids E component) (\<lambda>ids.
     io_res (assert_amis_match_and_get_ami component ids))"

definition step :: "env \<Rightarrow> 'z retrier \<Rightarrow> pyval \<Rightarrow> ('z world_scheme, Decision) io" where
  "step E retry component_value =
     io_then (io_res (mongo_init component_value))
     (io_bind (io_res (need_str component_value (type_error ''component''))) (\<lambda>component.
      io_bind (get_ami_and_check_all_amis_match E component) (\<lambda>target_ami.
      io_bind (fetch_replica_set_status E retry component) (\<lambda>status.
      io_then (io_res (assert_all_nodes_in_same_replica_set status))
        (let outcome = decide_on_action status target_ami
         in io_then (execute_action E retry component outcome) (io_return outcome))))))"

section \<open>The handler\<close>

definition int_of_time :: "pyval \<Rightarrow> int res" where
  "int_of_time v =
     (case v of
        PInt i \<Rightarrow> Inr i
      | PFloat m k \<Rightarrow> Inr (if m < 0 then - ((- m) div 2 ^ k) else m div 2 ^ k)
      | _ \<Rightarrow> Inl (type_error (''int() argument must be a number, not '' @ quoted (type_name v))))"

definition record_recycle_starting :: "env \<Rightarrow> pyval \<Rightarrow> ('z world_scheme, unit) io" where
  "record_recycle_starting E component =
     io_bind (request E ReadTime) (\<lambda>now.
     io_bind (io_res (int_of_time now)) (\<lambda>seconds.
     io_catch
       (io_then
         (request E (DynamoPutItem ''mongo_recycle_in_progress''
           (PDict [(''replicaset_name'', component), (''ExpiryTime'', PInt (seconds + 900))])))
         (io_return ()))
       (\<lambda>e. io_raise e)))"

definition increment_counter :: "pyval \<Rightarrow> pyval res" where
  "increment_counter event =
     res_bind (py_in ''counter'' event) (\<lambda>has_counter.
     res_bind (if has_counter then Inr event else py_set_item event ''counter'' (PInt 0)) (\<lambda>event1.
     res_bind (py_item event1 ''counter'') (\<lambda>c.
     res_bind (py_add_one c) (\<lambda>c'.
     py_set_item event1 ''counter'' c'))))"

definition is_first_run :: "pyval \<Rightarrow> bool res" where
  "is_first_run event = res_bind (py_get event ''counter'' PNone) (\<lambda>c. Inr (\<not> py_truth c))"

text \<open>A decision in the event: the instance is a named tuple, which the runtime serialises as a list.\<close>

definition instance_json :: "Instance \<Rightarrow> pyval" where
  "instance_json i =
     PList [instance_id i, image_id i, ip_address i, PStr (mongo_state i), replica_set_name i]"

definition decision_json :: "Decision \<Rightarrow> pyval" where
  "decision_json d =
     PDict [(''action'', PStr (action d)),
            (''instance'', case target d of None \<Rightarrow> PNone | Some i \<Rightarrow> instance_json i)]"

definition set_message_text :: "pyval \<Rightarrow> string \<Rightarrow> pyval res" where
  "set_message_text event txt =
     res_bind (py_item event ''message_content'') (\<lambda>content.
     res_bind (py_set_item content ''text'' (PStr txt)) (\<lambda>content'.
     py_set_item event ''message_content'' content'))"

definition after_step :: "pyval \<Rightarrow> Decision \<Rightarrow> pyval res" where
  "after_step event step_result =
     res_bind (py_set_item event ''decision'' (decision_json step_result)) (\<lambda>event1.
     res_bind
       (if action step_result = DONE
        then
          res_bind (py_in ''counter'' event1) (\<lambda>has_counter.
          if has_counter
          then res_bind (py_item event1 ''counter'') (\<lambda>c.
            set_message_text event1
              (''Autorecycling has successfully completed. Recycled '' @ py_str c @ '' mongo instances.''))
          else set_message_text event1 ''No instances were recycled, because there was nothing to do'')
        else Inr event1) increment_counter)"

definition mongo_lambda_handler :: "env \<Rightarrow> 'z retrier \<Rightarrow> pyval \<Rightarrow> ('z world_scheme, pyval) io" where
  "mongo_lambda_handler E retry event =
     io_bind (io_res (py_item event ''component'')) (\<lambda>component.
     io_bind (io_res (is_first_run event)) (\<lambda>first.
     io_then (if first then record_recycle_starting E component else io_return ())
     (io_bind (step E retry component) (\<lambda>step_result.
      io_res (after_step event step_result)))))"

section \<open>What an execution ends\<close>

text \<open>
  \<open>ended_none h t\<close>: from the log \<open>h\<close> to the log \<open>t\<close> no instance was ended. \<open>ended_one E i h t\<close>: the
  recycling of \<open>i\<close> started at \<open>h\<close> ended its one instance, and nothing else was ended after it.
\<close>

definition ended_none :: "call list \<Rightarrow> call list \<Rightarrow> bool" where
  "ended_none h t = (\<exists>new. t = h @ new \<and> terminations new = [])"

definition ended_one :: "env \<Rightarrow> Instance \<Rightarrow> call list \<Rightarrow> call list \<Rightarrow> bool" where
  "ended_one E i h t = (\<exists>u. terminate_log E i h u \<and> ended_none u t)"

lemma ended_none_refl [simp]: "ended_none h h"
  by (simp add: ended_none_def)

lemma ended_none_trans: "ended_none h t \<Longrightarrow> ended_none t u \<Longrightarrow> ended_none h u"
  by (fastforce simp: ended_none_def)

lemma ended_none_call: "terminated_by c = [] \<Longrightarrow> ended_none h t \<Longrightarrow> ended_none h (t @ [c])"
  by (auto simp: ended_none_def)

lemma ended_one_none: "ended_one E i h t \<Longrightarrow> ended_none t u \<Longrightarrow> ended_one E i h u"
  by (auto simp: ended_one_def intro: ended_none_trans)

lemma terminate_log_ended_one: "terminate_log E i h t \<Longrightarrow> ended_one E i h t"
  by (auto simp: ended_one_def)

lemma no_terminate_log_ended_none: "no_terminate_log i h t \<Longrightarrow> ended_none h t"
  by (auto simp: no_terminate_log_def ended_none_def)

lemma extends_ended_none: "extends S s t \<Longrightarrow> S \<subseteq> harmless \<Longrightarrow> ended_none (calls s) (calls t)"
  by (auto simp: extends_def ended_none_def harmless_def intro!: terminations_none)

lemma connecting_harmless: "connecting cs \<subseteq> harmless"
  by (auto simp: connecting_def harmless_def)

lemma chaining_calls_harmless: "chaining_calls cs \<subseteq> harmless"
  by (auto simp: chaining_calls_def connecting_def harmless_def)

lemma chaining_log_ended_none: "chaining_log E cs b h c t \<Longrightarrow> ended_none h t"
  using connecting_harmless [of cs]
  by (fastforce simp: chaining_log_def ended_none_def harmless_def intro!: terminations_none split: if_splits)

text \<open>Recycling an instance and waiting for health, over the interfaces it relies on.\<close>

context gated_recycler begin

lemma recycle_then_wait:
  assumes "bounded_retry retry 10" and "instances_are_lists E"
  shows "wp (io_then (recycle i) wait)
    (\<lambda>_ t. ended_one E i (calls s) (calls t) \<and> healthy_seen E (calls t))
    (\<lambda>_ t. ended_one E i (calls s) (calls t) \<or> ended_none (calls s) (calls t)) s"
  unfolding wp_then
proof (rule wp_mono [OF recycle [OF assms(2)]])
  fix x and t :: "'z world_scheme"
  assume "terminate_log E i (calls s) (calls t) \<and> saw_terminated E i (calls s) (calls t)"
  then have one: "ended_one E i (calls s) (calls t)" by (simp add: terminate_log_ended_one)
  have later: "extends observing t u \<Longrightarrow> ended_one E i (calls s) (calls u)" for u :: "'z world_scheme"
    using ended_one_none [OF one] extends_ended_none observing_harmless by blast
  show "wp wait (\<lambda>_ t. ended_one E i (calls s) (calls t) \<and> healthy_seen E (calls t))
    (\<lambda>_ t. ended_one E i (calls s) (calls t) \<or> ended_none (calls s) (calls t)) t"
    by (rule wp_mono [OF gate [OF assms(1)]]) (auto intro: later)
next
  fix e and t :: "'z world_scheme"
  assume "terminate_log E i (calls s) (calls t) \<or> no_terminate_log i (calls s) (calls t)"
  then show "ended_one E i (calls s) (calls t) \<or> ended_none (calls s) (calls t)"
    using terminate_log_ended_one no_terminate_log_ended_none by blast
qed

end

section \<open>The order of an execution\<close>

lemma step_down_wp:
  assumes "bounded_retry retry n"
  shows "wp (step_down E retry ip)
    (\<lambda>_ t. \<exists>conn. calls t = calls s @ conn @ [ReplSetStepDown ip 100] \<and> set conn \<subseteq> connecting ip)
    (\<lambda>_ t. ended_none (calls s) (calls t)) s"
  unfolding step_down_def wp_bind
proof (rule wp_mono [OF connect_wp [OF assms]])
  fix client and t :: "'a world_scheme"
  assume c: "client = ip \<and> extends (connecting ip) s t"
  then have "ended_none (calls s) (calls t)" using extends_ended_none connecting_harmless by blast
  with c show "wp (io_catch_class AutoReconnect (io_then (request E (ReplSetStepDown client 100)) (io_return ()))
      (\<lambda>_. io_return ()))
    (\<lambda>_ t. \<exists>conn. calls t = calls s @ conn @ [ReplSetStepDown ip 100] \<and> set conn \<subseteq> connecting ip)
    (\<lambda>_ t. ended_none (calls s) (calls t)) t"
    by (auto simp: wp_simps extends_def intro: ended_none_call split: sum.splits)
next
  fix e and t :: "'a world_scheme"
  assume "extends (connecting ip) s t"
  then show "ended_none (calls s) (calls t)" using extends_ended_none connecting_harmless by blast
qed

text \<open>
  \<open>ready E d i h p\<close>: \<open>i\<close> is the target of the decision, and between the start \<open>h\<close> of an execution and the log \<open>p\<close>, chaining was found or
  set off, nothing was ended, and for a primary the step-down was sent and a healthy status was
  the last thing seen.
\<close>

definition ready :: "env \<Rightarrow> Decision \<Rightarrow> Instance \<Rightarrow> call list \<Rightarrow> call list \<Rightarrow> bool" where
  "ready E d i h p =
     (target d = Some i \<and> (\<exists>names cs c q.
        chaining_log E cs False (h @ [DescribeInstancesByName names]) c q \<and> ended_none q p \<and>
        (if action d = STEP_DOWN_AND_RECYCLE_PRIMARY
         then (\<exists>conn post. p = q @ conn @ [ReplSetStepDown (ip_address i) 100] @ post \<and> set post \<subseteq> observing) \<and>
           healthy_seen E p
         else p = q)))"

lemma ready_ended_none: "ready E d i h p \<Longrightarrow> ended_none h p"
  unfolding ready_def
  by (elim exE conjE)
    (blast intro: ended_none_trans chaining_log_ended_none ended_none_call [OF _ ended_none_refl] terminated_by.simps)

text \<open>An execution that was refused or failed: it ended nothing, or its one instance when ready.\<close>

definition execution_safe :: "env \<Rightarrow> Decision \<Rightarrow> call list \<Rightarrow> call list \<Rightarrow> bool" where
  "execution_safe E d h t =
     (ended_none h t \<or>
      (\<exists>i p. target d = Some i \<and> action d \<noteq> DONE \<and> ready E d i h p \<and> ended_one E i p t))"

definition execution_done :: "env \<Rightarrow> Decision \<Rightarrow> call list \<Rightarrow> call list \<Rightarrow> bool" where
  "execution_done E d h t =
     (if action d = DONE
      then (\<exists>names cs c. chaining_log E cs True (h @ [DescribeInstancesByName names]) c t)
      else (\<exists>i p. target d = Some i \<and> ready E d i h p \<and> ended_one E i p t) \<and> healthy_seen E t)"

lemma execution_safeI: "ended_none h t \<Longrightarrow> execution_safe E d h t"
  by (simp add: execution_safe_def)

lemma prepare_wp:
  fixes s :: "'z world_scheme"
  assumes retry: "bounded_retry retry 10" and target: "target d = Some i"
    and off: "chaining_log E cs False (h @ [DescribeInstancesByName names]) c (calls s)"
  shows "wp (if action d = STEP_DOWN_AND_RECYCLE_PRIMARY
       then (case target d of
               None \<Rightarrow> io_raise (no_attribute PNone ''ip_address'')
             | Some i \<Rightarrow> io_then (step_down E retry (ip_address i)) (wait_until_cluster_healthy E retry component))
       else io_return ())
     (\<lambda>_ t. ready E d i h (calls t)) (\<lambda>_ t. ended_none (calls s) (calls t)) s"
proof (cases "action d = STEP_DOWN_AND_RECYCLE_PRIMARY")
  case True
  have "wp (io_then (step_down E retry (ip_address i)) (wait_until_cluster_healthy E retry component))
     (\<lambda>_ t. ready E d i h (calls t)) (\<lambda>_ t. ended_none (calls s) (calls t)) s"
    unfolding wp_then
  proof (rule wp_mono [OF step_down_wp [OF retry]])
    fix x and t :: "'z world_scheme"
    assume "\<exists>conn. calls t = calls s @ conn @ [ReplSetStepDown (ip_address i) 100] \<and> set conn \<subseteq> connecting (ip_address i)"
    then obtain conn where t: "calls t = calls s @ conn @ [ReplSetStepDown (ip_address i) 100]"
      and conn: "set conn \<subseteq> connecting (ip_address i)" by blast
    from conn have "terminations conn = []"
      using connecting_harmless by (auto simp: harmless_def intro!: terminations_none)
    with t have none: "ended_none (calls s) (calls t)" by (simp add: ended_none_def)
    show "wp (wait_until_cluster_healthy E retry component)
       (\<lambda>_ t. ready E d i h (calls t)) (\<lambda>_ t. ended_none (calls s) (calls t)) t"
    proof (rule wp_mono [OF cluster_health.gate [OF retry]])
      fix y and u :: "'z world_scheme"
      assume u: "extends observing t u \<and> healthy_seen E (calls u)"
      then have "ended_none (calls s) (calls u)"
        using ended_none_trans [OF none] extends_ended_none observing_harmless by blast
      with u off True t show "ready E d i h (calls u)"
        using target unfolding ready_def extends_def by fastforce
    next
      fix e and u :: "'z world_scheme"
      assume "extends observing t u"
      then show "ended_none (calls s) (calls u)"
        using ended_none_trans [OF none] extends_ended_none observing_harmless by blast
    qed
  qed
  with True target show ?thesis by simp
next
  case False
  with off target show ?thesis by (auto simp: wp_simps ready_def)
qed

lemma finish_wp:
  fixes s :: "'z world_scheme"
  assumes "bounded_retry retry 10" and "instances_are_lists E"
    and "target d = Some i" and "action d \<noteq> DONE" and ready: "ready E d i h (calls s)"
  shows "wp (io_then (recycle_instance E i) (wait_until_cluster_healthy E retry component))
     (\<lambda>_ t. execution_done E d h (calls t)) (\<lambda>_ t. execution_safe E d h (calls t)) s"
proof (rule wp_mono [OF cluster_recycler.recycle_then_wait [OF assms(1,2)]])
  fix x and t :: "'z world_scheme"
  assume "ended_one E i (calls s) (calls t) \<and> healthy_seen E (calls t)"
  with assms(3-) show "execution_done E d h (calls t)" by (auto simp: execution_done_def)
next
  fix e and t :: "'z world_scheme"
  assume "ended_one E i (calls s) (calls t) \<or> ended_none (calls s) (calls t)"
  with assms(3-) show "execution_safe E d h (calls t)"
    unfolding execution_safe_def using ended_none_trans [OF ready_ended_none [OF ready]] by blast
qed

text \<open>Setting the chaining as the first step of an execution: what the rest of it starts from.\<close>

lemma chaining_first_wp:
  fixes s :: "'z world_scheme"
  assumes "bounded_retry retry 10" and h: "calls s = h @ [DescribeInstancesByName names]"
    and rest: "\<And>c t. chaining_log E cs b (h @ [DescribeInstancesByName names]) c (calls t) \<Longrightarrow> wp k Q (\<lambda>_ u. execution_safe E d h (calls u)) t"
  shows "wp (io_then (set_chaining E retry cs b) k) Q (\<lambda>_ u. execution_safe E d h (calls u)) s"
  unfolding wp_then
proof (rule wp_mono [OF wp_conj [OF footprint_wp [OF set_chaining_footprint] set_chaining_wp]])
  show "bounded_retry retry 10" "bounded_retry retry 10" by (rule assms(1))+
next
  fix c and t :: "'z world_scheme"
  assume "extends (chaining_calls cs) s t \<and> chaining_log E cs b (calls s) c (calls t)"
  with h show "wp k Q (\<lambda>_ u. execution_safe E d h (calls u)) t" by (auto intro: rest)
next
  fix e and t :: "'z world_scheme"
  assume "extends (chaining_calls cs) s t \<and> True"
  then have "ended_none (calls s) (calls t)" using extends_ended_none chaining_calls_harmless by blast
  moreover have "ended_none h (calls s)" by (simp add: h ended_none_def)
  ultimately show "execution_safe E d h (calls t)" by (blast intro: execution_safeI ended_none_trans)
qed

lemma prepared_then_finish_wp:
  fixes s :: "'z world_scheme"
  assumes retry: "bounded_retry retry 10" and aws: "instances_are_lists E" and more: "action d \<noteq> DONE"
    and off: "chaining_log E cs False (h @ [DescribeInstancesByName names]) c (calls s)"
  shows "wp (io_then
          (if action d = STEP_DOWN_AND_RECYCLE_PRIMARY
           then (case target d of
                   None \<Rightarrow> io_raise (no_attribute PNone ''ip_address'')
                 | Some i \<Rightarrow> io_then (step_down E retry (ip_address i)) (wait_until_cluster_healthy E retry component))
           else io_return ())
          (case target d of
             None \<Rightarrow> io_raise (no_attribute PNone ''instance_id'')
           | Some i \<Rightarrow> io_then (recycle_instance E i) (wait_until_cluster_healthy E retry component)))
     (\<lambda>_ t. execution_done E d h (calls t)) (\<lambda>_ t. execution_safe E d h (calls t)) s"
proof -
  have h: "ended_none h (calls s)"
    by (rule ended_none_trans [OF _ chaining_log_ended_none [OF off]]) (simp add: ended_none_def)
  show ?thesis
  proof (cases "target d")
    case None
    with h show ?thesis by (simp add: wp_simps execution_safeI)
  next
    case (Some i)
    show ?thesis
      unfolding wp_then [where k = "case target d of None \<Rightarrow> _ | Some i \<Rightarrow> _ i"]
    proof (rule wp_mono [OF prepare_wp [OF retry Some off]])
      fix x and t :: "'z world_scheme"
      assume "ready E d i h (calls t)"
      from finish_wp [OF retry aws Some more this] Some
      show "wp (case target d of
             None \<Rightarrow> io_raise (no_attribute PNone ''instance_id'')
           | Some i \<Rightarrow> io_then (recycle_instance E i) (wait_until_cluster_healthy E retry component))
          (\<lambda>_ t. execution_done E d h (calls t)) (\<lambda>_ t. execution_safe E d h (calls t)) t"
        by simp
    next
      fix e and t :: "'z world_scheme"
      assume "ended_none (calls s) (calls t)"
      with h show "execution_safe E d h (calls t)" by (blast intro: execution_safeI ended_none_trans)
    qed
  qed
qed

lemma execute_action_wp:
  fixes s :: "'z world_scheme"
  assumes retry: "bounded_retry retry 10" and aws: "instances_are_lists E"
  shows "wp (execute_action E retry component d)
     (\<lambda>_ t. execution_done E d (calls s) (calls t)) (\<lambda>_ t. execution_safe E d (calls s) (calls t)) s"
proof -
  let ?c = "DescribeInstancesByName (create_instance_name_filters component)"
  let ?u = "s\<lparr>calls := calls s @ [?c]\<rparr>"
  have u: "calls ?u = calls s @ [?c]" by simp
  have none: "execution_safe E d (calls s) (calls s @ [?c])"
    by (rule execution_safeI) (simp add: ended_none_def)
  have fin: "action d = DONE \<Longrightarrow> wp (io_then (set_chaining E retry (PStr cs) True) (io_return ()))
     (\<lambda>_ t. execution_done E d (calls s) (calls t)) (\<lambda>_ t. execution_safe E d (calls s) (calls t)) ?u" for cs
    by (rule chaining_first_wp [OF retry u]) (auto simp: wp_return execution_done_def)
  show ?thesis
  proof (cases "action d = DONE")
    case True
    with none fin show ?thesis
      by (simp add: execute_action_def get_mongo_db_instances_def wp_bind wp_request wp_res wp_return split: sum.splits)
  next
    case False
    note more = chaining_first_wp [OF retry u] prepared_then_finish_wp [OF retry aws False]
    from False none show ?thesis
      by (simp add: execute_action_def get_mongo_db_instances_def wp_bind wp_request wp_res wp_return
          split: sum.splits split del: if_split) (blast intro: more)
  qed
qed

end
