(* ===== verification/MongoSafety.thy ===== *)
theory MongoSafety
  imports MongoStep
begin

text \<open>
  What a run of the Mongo recycler may do to the cluster, as properties of its log: which
  instance is ended and what was done before, what a run that returns leaves behind, when a run
  is refused, and how many runs a component takes. An environment with a cluster of one
  instance shows that the hypotheses can hold.
\<close>

section \<open>Ended instances and the log\<close>

lemma ended_one_shape:
  "ended_one E i p t \<Longrightarrow>
     \<exists>obj rest. t = p @ [FilterInstances (instance_id i), InstanceTerminate obj] @ rest \<and> terminations rest = [] \<and>
       reply E p (FilterInstances (instance_id i)) = Inr (PList [obj])"
  by (fastforce simp: ended_one_def terminate_log_def ended_none_def terminations_waiting)

lemma only_termination:
  assumes "pre @ [InstanceTerminate x] @ post = pre' @ [InstanceTerminate y] @ post'"
    and "terminations pre' = []" and "terminations post' = []"
  shows "pre = pre' \<and> x = y \<and> post = post'"
proof -
  from assms(1) consider us where "pre = pre' @ us" "us @ InstanceTerminate x # post = InstanceTerminate y # post'"
    | us where "pre @ us = pre'" "InstanceTerminate x # post = us @ InstanceTerminate y # post'"
    by (auto simp: append_eq_append_conv2)
  then show ?thesis
  proof cases
    case 1
    with assms(3) show ?thesis by (cases us) auto
  next
    case 2
    with assms(2) show ?thesis by (cases us) auto
  qed
qed

lemma ended_none_no_termination: "ended_none h (h @ pre @ [InstanceTerminate x] @ post) \<Longrightarrow> False"
  by (auto simp: ended_none_def)

lemma ended_none_step: "ended_none (h @ [c]) t \<Longrightarrow> terminated_by c = [] \<Longrightarrow> ended_none h t"
  by (auto simp: ended_none_def)

lemma execution_done_safe: "execution_done E d h t \<Longrightarrow> execution_safe E d h t"
  unfolding execution_done_def execution_safe_def
  by (auto split: if_splits dest!: chaining_log_ended_none
      intro: ended_none_step)

lemma execute_action_safe:
  assumes "bounded_retry retry 10" and "instances_are_lists E" and "execute_action E retry component d s = (r, t)"
  shows "execution_safe E d (calls s) (calls t)"
  using wp_Inl [OF execute_action_wp [OF assms(1,2)]] wp_Inr [OF execute_action_wp [OF assms(1,2)]] assms(3)
  by (cases r) (auto intro: execution_done_safe)

lemma readyD:
  "ready E d i h p \<Longrightarrow>
     \<exists>names cs c q. chaining_log E cs False (h @ [DescribeInstancesByName names]) c q \<and>
       (if action d = STEP_DOWN_AND_RECYCLE_PRIMARY
        then healthy_seen E p \<and> (\<exists>conn seen. p = q @ conn @ [ReplSetStepDown (ip_address i) 100] @ seen)
        else p = q)"
  unfolding ready_def
  by (elim exE conjE, intro exI, rule conjI, assumption) (auto split: if_splits)

lemma execution_safe_terminations:
  assumes "execution_safe E d h t"
  shows "\<exists>new. t = h @ new \<and> length (terminations new) \<le> 1"
  using assms unfolding execution_safe_def
  by (fastforce dest!: ended_one_shape ready_ended_none simp: ended_none_def)

lemma execution_safe_order:
  assumes "execution_safe E d h (h @ pre @ [InstanceTerminate obj] @ post)"
  shows "\<exists>i p. target d = Some i \<and> action d \<noteq> DONE \<and> pre = p @ [FilterInstances (instance_id i)] \<and>
    reply E (h @ p) (FilterInstances (instance_id i)) = Inr (PList [obj]) \<and>
    ready E d i h (h @ p) \<and> terminations post = []"
proof -
  from assms obtain i q where i: "target d = Some i" "action d \<noteq> DONE" and q: "ready E d i h q"
    and one: "ended_one E i q (h @ pre @ [InstanceTerminate obj] @ post)"
    unfolding execution_safe_def using ended_none_no_termination by blast
  from ready_ended_none [OF q] obtain p where p: "q = h @ p" "terminations p = []"
    by (auto simp: ended_none_def)
  from ended_one_shape [OF one] obtain y rest where
    eq: "h @ pre @ [InstanceTerminate obj] @ post = q @ [FilterInstances (instance_id i), InstanceTerminate y] @ rest"
    and rest: "terminations rest = []"
    and y: "reply E q (FilterInstances (instance_id i)) = Inr (PList [y])" by blast
  have "pre @ [InstanceTerminate obj] @ post =
      (p @ [FilterInstances (instance_id i)]) @ [InstanceTerminate y] @ rest"
    using eq p(1) by simp
  from only_termination [OF this] p(2) rest
  have "pre = p @ [FilterInstances (instance_id i)]" "obj = y" "post = rest" by auto
  with i q y p(1) rest show ?thesis by blast
qed

section \<open>What stands before an execution\<close>

text \<open>The calls that only read: looking at the cluster, and reading the launch templates.\<close>

definition reading :: "call set" where
  "reading = observing \<union> range DescribeLaunchTemplates \<union> {c. \<exists>i v. c = DescribeLaunchTemplateVersions i v}"

lemma reading_members [simp]:
  "DescribeLaunchTemplates n \<in> reading" "DescribeLaunchTemplateVersions i v \<in> reading"
  "DescribeInstancesByName ns \<in> reading" "ReplSetGetStatus cs \<in> reading"
  by (auto simp: reading_def)

lemma reading_harmless: "reading \<subseteq> harmless"
  using observing_harmless by (auto simp: reading_def harmless_def)

lemma get_ami_footprint: "footprint (get_ami_and_check_all_amis_match E component) reading"
  by (auto simp: get_ami_and_check_all_amis_match_def get_launch_template_image_ids_def
      intro!: footprint_intros)

lemma get_node_details_footprint:
  assumes "bounded_retry retry n"
  shows "footprint (get_node_details E retry ip) reading"
  unfolding get_node_details_def
  using connecting_observing
  by (auto intro!: footprint_intros footprint_mono [OF connect_footprint [OF assms]] simp: reading_def)

lemma fetch_from_footprint:
  "bounded_retry retry n \<Longrightarrow> footprint (fetch_from E retry xs) reading"
  by (induction E retry xs rule: fetch_from.induct)
    (auto intro!: footprint_intros get_node_details_footprint)

lemma fetch_footprint:
  "bounded_retry retry n \<Longrightarrow> footprint (fetch_replica_set_status E retry component) reading"
  by (auto simp: fetch_replica_set_status_def get_mongo_db_instances_def
      intro!: footprint_intros fetch_from_footprint)

text \<open>
  \<open>cleared E retry c s ami st u\<close>: from \<open>s\<close>, the checks of a step passed with the target image
  \<open>ami\<close> and the replica-set status \<open>st\<close>, in the state \<open>u\<close>.
\<close>

definition cleared ::
    "env \<Rightarrow> 'z retrier \<Rightarrow> string \<Rightarrow> 'z world_scheme \<Rightarrow> pyval \<Rightarrow> Instance list \<Rightarrow> 'z world_scheme \<Rightarrow> bool" where
  "cleared E retry c s ami st u =
     (\<exists>t. get_ami_and_check_all_amis_match E c s = (Inr ami, t) \<and>
        fetch_replica_set_status E retry c t = (Inr st, u) \<and>
        assert_all_nodes_in_same_replica_set st = Inr ())"

lemma cleared_extends:
  assumes "bounded_retry retry n" and "cleared E retry c s ami st u"
  shows "extends reading s u"
proof -
  from assms(2) obtain t where
    1: "get_ami_and_check_all_amis_match E c s = (Inr ami, t)" and 2: "fetch_replica_set_status E retry c t = (Inr st, u)"
    by (auto simp: cleared_def)
  from footprintD [OF get_ami_footprint, of s E c] 1 have "extends reading s t" by simp
  moreover from footprintD [OF fetch_footprint [OF assms(1)], of t E c] 2 have "extends reading t u" by simp
  ultimately show ?thesis by (rule extends_trans)
qed

lemma mongo_init_PStr: "mongo_init (PStr c) = Inr (re_sub_end mongo_suffix c)"
  by (simp add: mongo_init_def)

text \<open>A step either is refused, having only read, or executes the decision its checks cleared.\<close>

lemma step_cases [consumes 2, case_names Refused Executed]:
  assumes retry: "bounded_retry retry n" and run: "step E retry (PStr c) s = (r, t)"
  obtains (Refused) e where "r = Inl e" "extends reading s t"
  | (Executed) ami st u r' where "cleared E retry c s ami st u"
      "execute_action E retry c (decide_on_action st ami) u = (r', t)"
      "r = (case r' of Inl e \<Rightarrow> Inl e | Inr _ \<Rightarrow> Inr (decide_on_action st ami))"
proof -
  obtain ra t1 where 1: "get_ami_and_check_all_amis_match E c s = (ra, t1)" by fastforce
  with footprintD [OF get_ami_footprint, of s E c] have x1: "extends reading s t1" by simp
  obtain rf u where 2: "fetch_replica_set_status E retry c t1 = (rf, u)" by fastforce
  with footprintD [OF fetch_footprint [OF retry], of t1 E c] have "extends reading t1 u" by simp
  with x1 have x2: "extends reading s u" by (rule extends_trans)
  have unfold: "step E retry (PStr c) s =
      io_bind (get_ami_and_check_all_amis_match E c) (\<lambda>ami. io_bind (fetch_replica_set_status E retry c) (\<lambda>st.
        io_then (io_res (assert_all_nodes_in_same_replica_set st))
          (io_then (execute_action E retry c (decide_on_action st ami)) (io_return (decide_on_action st ami))))) s"
    by (simp add: step_def mongo_init_PStr io_bind_def io_then_def io_res_def Let_def)
  show thesis
  proof (cases ra)
    case (Inl e)
    with run unfold 1 x1 show thesis by (intro Refused [of e]) (simp_all add: io_bind_def)
  next
    case (Inr ami)
    note ra = Inr
    show thesis
    proof (cases rf)
      case (Inl e)
      with run unfold 1 2 ra x2 show thesis by (intro Refused [of e]) (simp_all add: io_bind_def)
    next
      case (Inr st)
      show thesis
      proof (cases "assert_all_nodes_in_same_replica_set st")
        case (Inl e)
        with Inr run unfold 1 2 ra x2 show thesis
          by (intro Refused [of e]) (simp_all add: io_bind_def io_then_def io_res_def)
      next
        case ok: (Inr x)
        obtain r' v where ex: "execute_action E retry c (decide_on_action st ami) u = (r', v)" by fastforce
        have "cleared E retry c s ami st u" using 1 2 ra Inr ok by (simp add: cleared_def)
        with Inr run unfold 1 2 ra ok ex show thesis
          by (intro Executed [of ami st u r']) (auto simp: io_bind_def io_then_def io_res_def io_return_def split: sum.splits)
      qed
    qed
  qed
qed

section \<open>A cluster of one instance\<close>

definition sample_node :: ec2_instance where
  "sample_node = \<lparr>ec2_id = ''i-1'', ec2_image = ''ami-old'', ec2_state = ''running'', ec2_nics = [(''10.0.0.1'', False)]\<rparr>"

definition one_node_site :: "string \<Rightarrow> env" where
  "one_node_site ami = \<lparr>reply = (\<lambda>h c. case c of
       DescribeLaunchTemplates _ \<Rightarrow>
         Inr (PDict [(''LaunchTemplates'',
           PList [PDict [(''LaunchTemplateId'', PStr ''lt''), (''LatestVersionNumber'', PInt 1)]])])
     | DescribeLaunchTemplateVersions _ _ \<Rightarrow>
         Inr (PDict [(''LaunchTemplateVersions'',
           PList [PDict [(''LaunchTemplateData'', PDict [(''ImageId'', PStr ami)])]])])
     | DescribeInstancesByName _ \<Rightarrow> Inr (reservations_json [[sample_node]])
     | ReplSetGetStatus _ \<Rightarrow>
         Inr (PDict [(''ok'', PInt 1), (''myState'', PInt 2), (''set'', PStr ''rs''),
           (''members'', PList [member_json \<lparr>member_name = ''n'', state_str = ''PRIMARY'', source = None\<rparr>])])
     | ReplSetGetConfig _ \<Rightarrow> Inr (PDict [(''config'', sample_config False 7)])
     | ReadTime \<Rightarrow> Inr (PInt 1000)
     | FilterInstances i \<Rightarrow> Inr (PList [i])
     | DescribeInstancesById i \<Rightarrow>
         Inr (reservations_json [[\<lparr>ec2_id = py_str i, ec2_image = ''ami'', ec2_state = ''terminated'', ec2_nics = []\<rparr>]])
     | _ \<Rightarrow> Inr PNone),
     environ = (\<lambda>_. None)\<rparr>"

abbreviation sample_site :: env where
  "sample_site \<equiv> one_node_site ''ami-new''"

definition sample_secondary :: Instance where
  "sample_secondary = \<lparr>instance_id = PStr ''i-1'', image_id = PStr ''ami-old'', ip_address = PStr ''10.0.0.1'',
     mongo_state = ''SECONDARY'', replica_set_name = PStr ''rs''\<rparr>"

definition look :: call where
  "look = DescribeInstancesByName [''mongo_a'', ''mongo_b'', ''mongo_c'']"

definition connecting_calls :: "call list" where
  "connecting_calls = [MongoClient (PStr ''10.0.0.1''), ReplSetGetStatus (PStr ''10.0.0.1'')]"

lemma sample_site_lists: "instances_are_lists (one_node_site ami)"
  by (simp add: instances_are_lists_def one_node_site_def)

lemma mongo_names: "create_instance_name_filters ''mongo'' = [''mongo_a'', ''mongo_b'', ''mongo_c'']"
  by (simp add: create_instance_name_filters_def az_suffix_def)

lemma sample_site_instances:
  "get_mongo_db_instances (one_node_site ami) ''mongo'' s =
     (Inr [Inr (PDict [(''InstanceId'', PStr ''i-1''), (''ImageId'', PStr ''ami-old''), (''IpAddress'', PStr ''10.0.0.1'')])],
      s\<lparr>calls := calls s @ [look]\<rparr>)"
  by (simp add: get_mongo_db_instances_def io_eval mongo_names look_def one_node_site_def)
    (simp add: describe_mongodb_instances_spec sample_node_def described_def lasting_address_def)

lemma sample_site_connect:
  "connect (one_node_site ami) (retry_now 9) (PStr ''10.0.0.1'') s =
     (Inr (PStr ''10.0.0.1''), s\<lparr>calls := calls s @ connecting_calls\<rparr>)"
  by (simp add: connect_def connect_once_def io_eval one_node_site_def numeral_eq_Suc connecting_calls_def)

lemma sample_site_address:
  "addresses_of [Inr (PDict [(''InstanceId'', PStr ''i-1''), (''ImageId'', PStr ''ami-old''), (''IpAddress'', PStr ''10.0.0.1'')])] =
     Inr ''10.0.0.1''"
  by (simp add: addresses_of_def py_item_PDict)

lemma sample_site_healthy:
  "wait_until_cluster_healthy sample_site (retry_now 9) ''mongo'' s =
     (Inr (), s\<lparr>calls := calls s @ [look] @ connecting_calls @ [ReplSetGetStatus (PStr ''10.0.0.1'')]\<rparr>)"
proof -
  have "assert_replica_set_healthy (PDict [(''ok'', PInt 1), (''myState'', PInt 2), (''set'', PStr ''rs''),
      (''members'', PList [member_json \<lparr>member_name = ''n'', state_str = ''PRIMARY'', source = None\<rparr>])]) = Inr ()"
    using assert_all_nodes_healthy_json [of "[\<lparr>member_name = ''n'', state_str = ''PRIMARY'', source = None\<rparr>]"]
      assert_one_primary_node_json [of "[\<lparr>member_name = ''n'', state_str = ''PRIMARY'', source = None\<rparr>]"]
    by (simp add: assert_replica_set_healthy_def py_item_PDict healthy_member_def)
  then show ?thesis
    by (simp add: wait_until_cluster_healthy_def poll_def poll_from_unfold assert_healthy_def
        replica_set_status_def io_bind_def io_res_def sample_site_instances sample_site_address sample_site_connect)
      (simp add: request_def one_node_site_def)
qed

lemma sample_site_chaining:
  "set_chaining sample_site (retry_now 9) (PStr ''10.0.0.1'') False s =
     (Inr (sample_config False 7), s\<lparr>calls := calls s @ connecting_calls @ [ReplSetGetConfig (PStr ''10.0.0.1'')]\<rparr>)"
  by (simp add: set_chaining_def io_bind_def sample_site_connect)
    (simp add: io_eval one_node_site_def sample_config_def py_item_PDict chaining_of_def)

lemma sample_site_recycle:
  "recycle_instance sample_site sample_secondary s =
     (Inr (), s\<lparr>calls := calls s @
        [FilterInstances (PStr ''i-1''), InstanceTerminate (PStr ''i-1''), DescribeInstancesById (PStr ''i-1'')]\<rparr>)"
  by (simp add: recycle_instance_def poll_def poll_from_unfold is_terminated_def get_instance_state_def
      io_eval one_node_site_def sample_secondary_def list_index_def sample_aws_state assert_terminated_def)

definition sample_before :: "call list" where
  "sample_before = [look] @ connecting_calls @ [ReplSetGetConfig (PStr ''10.0.0.1''), FilterInstances (PStr ''i-1'')]"

definition sample_after :: "call list" where
  "sample_after = [DescribeInstancesById (PStr ''i-1''), look] @ connecting_calls @ [ReplSetGetStatus (PStr ''10.0.0.1'')]"

lemma sample_site_execute:
  "execute_action sample_site (retry_now 9) ''mongo'' (recycle_secondary sample_secondary) s =
     (Inr (), s\<lparr>calls := calls s @ sample_before @ [InstanceTerminate (PStr ''i-1'')] @ sample_after\<rparr>)"
  by (simp add: execute_action_def io_bind_def io_then_def io_res_def io_return_def sample_site_instances
      sample_site_address sample_site_chaining sample_site_recycle sample_site_healthy recycle_secondary_def
      sample_before_def sample_after_def)

lemma one_str: "py_str (PInt 1) = ''1''"
  by (simp add: py_str_def int_str_def nat_str.simps) (simp add: char_of_def bit_simps)

lemma sample_site_ami:
  "get_ami_and_check_all_amis_match (one_node_site ami) ''mongo'' s =
     (Inr (PStr ami),
      s\<lparr>calls := calls s @ [DescribeLaunchTemplates ''mongo*'', DescribeLaunchTemplateVersions (PStr ''lt'') ''1'']\<rparr>)"
  by (simp add: get_ami_and_check_all_amis_match_def get_launch_template_image_ids_def io_eval one_node_site_def
      py_item_PDict py_index_def list_index_def assert_amis_match_and_get_ami_def hashable_def py_set_def set_add_def one_str)

lemma sample_site_details:
  "get_node_details (one_node_site ami) (retry_now 9) (PStr ''10.0.0.1'') s =
     (Inr \<lparr>node_state = ''SECONDARY'', node_set = PStr ''rs''\<rparr>,
      s\<lparr>calls := calls s @ connecting_calls @ [ReplSetGetStatus (PStr ''10.0.0.1'')]\<rparr>)"
  by (simp add: get_node_details_def io_bind_def sample_site_connect)
    (simp add: io_eval one_node_site_def node_details_def py_item_PDict state_string_from_status_def states_item_def
      list_index_def member_states_def)

lemma sample_site_status:
  "fetch_replica_set_status (one_node_site ami) (retry_now 9) ''mongo'' s =
     (Inr [sample_secondary],
      s\<lparr>calls := calls s @ [look] @ connecting_calls @ [ReplSetGetStatus (PStr ''10.0.0.1'')]\<rparr>)"
  by (simp add: fetch_replica_set_status_def io_bind_def io_res_def io_return_def sample_site_instances
      py_item_PDict sample_site_details sample_secondary_def)

lemma sample_site_decision:
  "decide_on_action [sample_secondary] (PStr ''ami-new'') = recycle_secondary sample_secondary"
  by (simp add: decide_on_action_def find_candidates_def find_instances_def candidate_states_def sample_secondary_def)

lemma sample_site_same_set: "assert_all_nodes_in_same_replica_set [sample_secondary] = Inr ()"
  by (simp add: assert_same_replica_set_iff sample_secondary_def hashable_def)

definition sample_checked :: "call list" where
  "sample_checked = [DescribeLaunchTemplates ''mongo*'', DescribeLaunchTemplateVersions (PStr ''lt'') ''1'', look]
     @ connecting_calls @ [ReplSetGetStatus (PStr ''10.0.0.1'')]"

lemma sample_site_step:
  "step sample_site (retry_now 9) (PStr ''mongo'') s =
     (Inr (recycle_secondary sample_secondary),
      s\<lparr>calls := calls s @ (sample_checked @ sample_before) @ [InstanceTerminate (PStr ''i-1'')] @ sample_after\<rparr>)"
  by (simp add: step_def mongo_init_PStr io_bind_def io_then_def io_res_def io_return_def Let_def sample_site_ami
      sample_site_status sample_site_same_set sample_site_decision sample_site_execute sample_checked_def)

section \<open>Properties of an execution\<close>

text \<open>
  C11. Executing a decision ends at most one instance: the one that the lookup of the decided
  instance's id found immediately before. By then chaining was off, and for a primary the
  step-down had been sent and the status read last was healthy. A DONE decision ends nothing.
\<close>

theorem execute_action_order:
  assumes "bounded_retry retry 10" and "instances_are_lists E"
    and "execute_action E retry component d s = (r, t)"
    and "calls t = calls s @ pre @ [InstanceTerminate obj] @ post"
  shows "\<exists>i p. target d = Some i \<and> action d \<noteq> DONE \<and> pre = p @ [FilterInstances (instance_id i)] \<and>
    reply E (calls s @ p) (FilterInstances (instance_id i)) = Inr (PList [obj]) \<and>
    terminations p = [] \<and> terminations post = [] \<and>
    (\<exists>names cs c q.
       chaining_log E cs False (calls s @ [DescribeInstancesByName names]) c q \<and>
       (if action d = STEP_DOWN_AND_RECYCLE_PRIMARY
        then healthy_seen E (calls s @ p) \<and>
          (\<exists>conn seen. calls s @ p = q @ conn @ [ReplSetStepDown (ip_address i) 100] @ seen)
        else calls s @ p = q))"
proof -
  from execute_action_safe [OF assms(1-3)] assms(4)
  have "execution_safe E d (calls s) (calls s @ pre @ [InstanceTerminate obj] @ post)" by simp
  from execution_safe_order [OF this] obtain i p where
    ip: "target d = Some i" "action d \<noteq> DONE" "pre = p @ [FilterInstances (instance_id i)]"
      "reply E (calls s @ p) (FilterInstances (instance_id i)) = Inr (PList [obj])" "terminations post = []"
    and ready: "ready E d i (calls s) (calls s @ p)" by blast
  from ready_ended_none [OF ready] have "terminations p = []" by (auto simp: ended_none_def)
  with ip readyD [OF ready] show ?thesis by (intro exI [of _ i] exI [of _ p] conjI)
qed

lemma execute_action_order_witness:
  "\<exists>p. sample_before = p @ [FilterInstances (PStr ''i-1'')] \<and> terminations p = [] \<and> terminations sample_after = []"
proof -
  have "execute_action sample_site (retry_now 9) ''mongo'' (recycle_secondary sample_secondary) fresh_world =
      (Inr (), \<lparr>calls = sample_before @ [InstanceTerminate (PStr ''i-1'')] @ sample_after\<rparr>)"
    by (simp add: sample_site_execute fresh_world_def)
  from execute_action_order [OF retry_now_bounded sample_site_lists this, of sample_before "PStr ''i-1''" sample_after]
  show ?thesis by (auto simp: fresh_world_def recycle_secondary_def sample_secondary_def)
qed

text \<open>
  C14. An execution that returns has done its work. For DONE, chaining is allowed again. Otherwise
  exactly one instance, the decided one, was ended, and the last call is a status request
  whose answer is a healthy replica set.
\<close>

theorem execute_action_result:
  assumes "bounded_retry retry 10" and "instances_are_lists E"
    and "execute_action E retry component d s = (Inr u, t)"
  shows "\<exists>new. calls t = calls s @ new \<and>
    (if action d = DONE
     then terminations new = [] \<and>
       (\<exists>names cs c. chaining_log E cs True (calls s @ [DescribeInstancesByName names]) c (calls t))
     else healthy_seen E (calls t) \<and>
       (\<exists>i obj pre. target d = Some i \<and> terminations new = [obj] \<and>
          reply E (calls s @ pre) (FilterInstances (instance_id i)) = Inr (PList [obj])))"
proof -
  have res: "execution_done E d (calls s) (calls t)"
    using wp_Inr [OF execute_action_wp [OF assms(1,2)] assms(3)] .
  show ?thesis
  proof (cases "action d = DONE")
    case True
    with res obtain names cs c where log: "chaining_log E cs True (calls s @ [DescribeInstancesByName names]) c (calls t)"
      by (auto simp: execution_done_def)
    from chaining_log_ended_none [OF log] obtain new where
      new: "calls t = calls s @ DescribeInstancesByName names # new" "terminations new = []"
      by (auto simp: ended_none_def)
    have "\<exists>names cs c. chaining_log E cs True (calls s @ [DescribeInstancesByName names]) c (calls t)"
      using log by blast
    with True new show ?thesis by (intro exI [of _ "DescribeInstancesByName names # new"]) simp
  next
    case False
    with res obtain i p where i: "target d = Some i" and p: "ready E d i (calls s) p"
      and one: "ended_one E i p (calls t)" and healthy: "healthy_seen E (calls t)"
      by (auto simp: execution_done_def)
    from ready_ended_none [OF p] obtain q where q: "p = calls s @ q" "terminations q = []"
      by (auto simp: ended_none_def)
    from ended_one_shape [OF one] False i healthy q show ?thesis by fastforce
  qed
qed

lemma execute_action_result_witness:
  "healthy_seen sample_site (sample_before @ [InstanceTerminate (PStr ''i-1'')] @ sample_after) \<and>
   (\<exists>obj. terminations (sample_before @ [InstanceTerminate (PStr ''i-1'')] @ sample_after) = [obj])"
proof -
  have "execute_action sample_site (retry_now 9) ''mongo'' (recycle_secondary sample_secondary) fresh_world =
      (Inr (), \<lparr>calls = sample_before @ [InstanceTerminate (PStr ''i-1'')] @ sample_after\<rparr>)"
    by (simp add: sample_site_execute fresh_world_def)
  from execute_action_result [OF retry_now_bounded sample_site_lists this]
  show ?thesis by (auto simp: fresh_world_def recycle_secondary_def)
qed

section \<open>Properties of a step\<close>

text \<open>
  C22. The checks come first: when a step makes any call that is not a read (a reconfiguration, a
  step-down, a termination), the AMIs of the component's launch templates matched, the status
  of the cluster was read, and all its nodes were in one replica set.
\<close>

theorem step_checks_first:
  assumes "bounded_retry retry n" and "step E retry (PStr c) s = (r, t)"
    and "calls t = calls s @ new" and "\<not> set new \<subseteq> reading"
  shows "\<exists>ami st s1 u seen rest.
    get_ami_and_check_all_amis_match E c s = (Inr ami, s1) \<and> fetch_replica_set_status E retry c s1 = (Inr st, u) \<and>
    assert_all_nodes_in_same_replica_set st = Inr () \<and>
    calls u = calls s @ seen \<and> set seen \<subseteq> reading \<and>
    execute_action E retry c (decide_on_action st ami) u = (rest, t)"
  using assms(1,2)
proof (cases rule: step_cases)
  case (Refused e)
  with assms(3,4) show ?thesis by (auto simp: extends_def)
next
  case (Executed ami st u r')
  from cleared_extends [OF assms(1) Executed(1)] obtain seen where
    "calls u = calls s @ seen" "set seen \<subseteq> reading" by (auto simp: extends_def)
  with Executed show ?thesis unfolding cleared_def by blast
qed

lemma not_reading: "InstanceTerminate v \<notin> reading"
  by (auto simp: reading_def observing_def)

lemma step_checks_first_witness:
  "\<exists>ami st u seen. cleared sample_site (retry_now 9) ''mongo'' fresh_world ami st u \<and> calls u = seen \<and> set seen \<subseteq> reading"
proof -
  let ?new = "(sample_checked @ sample_before) @ [InstanceTerminate (PStr ''i-1'')] @ sample_after"
  have run: "step sample_site (retry_now 9) (PStr ''mongo'') fresh_world =
      (Inr (recycle_secondary sample_secondary), \<lparr>calls = ?new\<rparr>)"
    using sample_site_step [of fresh_world] by (simp add: fresh_world_def)
  have "\<not> set ?new \<subseteq> reading" using not_reading by auto
  from step_checks_first [OF retry_now_bounded run _ this] show ?thesis
    by (auto simp: fresh_world_def cleared_def)
qed

text \<open>The instance a decision is ready to end: an outdated secondary, or the last outdated node.\<close>

lemma decided_kind:
  assumes "target (decide_on_action st ami) = Some i" and "ready E (decide_on_action st ami) i h p"
  shows "i \<in> set st \<and> \<not> py_eq (image_id i) ami \<and> (mongo_state i = ''SECONDARY'' \<or>
    mongo_state i = ''PRIMARY'' \<and> healthy_seen E p \<and>
    list_all (\<lambda>j. \<not> (outdated ami j \<and> mongo_state j = ''SECONDARY'')) st)"
proof (cases st ami rule: decide_cases)
  case (Secondary a k b)
  with assms(1) have "k = i" by (simp add: recycle_secondary_def)
  with Secondary show ?thesis by (auto simp: outdated_def)
next
  case (Primary a k b)
  with assms(1) have [simp]: "k = i" by (simp add: step_down_and_recycle_primary_def)
  from readyD [OF assms(2)] Primary(1) have "healthy_seen E p"
    by (auto simp: step_down_and_recycle_primary_def)
  moreover from Primary(2) have "i \<in> set st" by simp
  moreover from Primary(3) have "\<not> py_eq (image_id i) ami" by (simp add: outdated_def)
  moreover from Primary(6) have "list_all (\<lambda>j. \<not> (outdated ami j \<and> mongo_state j = ''SECONDARY'')) st"
    by (fastforce simp: list_all_iff)
  ultimately show ?thesis using Primary(4) by simp
next
  case Done
  with assms(1) show ?thesis by (simp add: done_decision_def)
qed

text \<open>A termination in a log comes after a first part that has none.\<close>

lemma termination_after:
  assumes "seen @ new = pre @ [InstanceTerminate obj] @ post" and "terminations seen = []"
  obtains p where "pre = seen @ p" and "new = p @ [InstanceTerminate obj] @ post"
proof -
  have "\<nexists>us. seen = pre @ InstanceTerminate obj # us"
    using assms(2) by (metis append_is_Nil_conv terminated_by.simps(1) terminations_append terminations_simps(2) list.distinct(1))
  with assms(1) that show ?thesis
    by (auto simp: append_eq_append_conv2 Cons_eq_append_conv append_eq_Cons_conv)
qed

text \<open>What a log of a step says about a termination in it.\<close>

lemma step_replaces:
  assumes "bounded_retry retry 10" and "instances_are_lists E"
    and "step E retry (PStr c) s = (r, t)" and "calls t = calls s @ pre @ [InstanceTerminate obj] @ post"
  shows "\<exists>ami st u i p.
    cleared E retry c s ami st u \<and> target (decide_on_action st ami) = Some i \<and> i \<in> set st \<and>
    \<not> py_eq (image_id i) ami \<and>
    calls s @ pre = p @ [FilterInstances (instance_id i)] \<and>
    reply E p (FilterInstances (instance_id i)) = Inr (PList [obj]) \<and>
    ready E (decide_on_action st ami) i (calls u) p \<and>
    (mongo_state i = ''SECONDARY'' \<or>
     mongo_state i = ''PRIMARY'' \<and> healthy_seen E p \<and>
       list_all (\<lambda>j. \<not> (outdated ami j \<and> mongo_state j = ''SECONDARY'')) st) \<and>
    terminations pre = [] \<and> terminations post = []"
  using assms(1,3)
proof (cases rule: step_cases)
  case (Refused e)
  with assms(4) not_reading have False by (auto simp: extends_def)
  then show ?thesis ..
next
  case (Executed ami st u r')
  from cleared_extends [OF assms(1) Executed(1)] obtain seen where
    seen: "calls u = calls s @ seen" "set seen \<subseteq> reading" by (auto simp: extends_def)
  then have quiet: "terminations seen = []"
    using reading_harmless by (auto simp: harmless_def intro!: terminations_none)
  from execute_action_safe [OF assms(1,2) Executed(2)]
  have safe: "execution_safe E (decide_on_action st ami) (calls u) (calls t)" .
  then obtain new where new: "calls t = calls u @ new"
    using execution_safe_terminations by blast
  with assms(4) seen have "seen @ new = pre @ [InstanceTerminate obj] @ post" by simp
  from termination_after [OF this quiet] obtain p' where
    p': "pre = seen @ p'" "new = p' @ [InstanceTerminate obj] @ post" .
  with safe new have "execution_safe E (decide_on_action st ami) (calls u) (calls u @ p' @ [InstanceTerminate obj] @ post)"
    by simp
  from execution_safe_order [OF this] obtain i p where
    i: "target (decide_on_action st ami) = Some i" and p: "p' = p @ [FilterInstances (instance_id i)]"
    "reply E (calls u @ p) (FilterInstances (instance_id i)) = Inr (PList [obj])"
    and ready: "ready E (decide_on_action st ami) i (calls u) (calls u @ p)" and post: "terminations post = []"
    by blast
  from ready_ended_none [OF ready] have "terminations p = []" by (auto simp: ended_none_def)
  with p(1) p'(1) quiet have none: "terminations pre = []" by simp
  have "calls s @ pre = (calls u @ p) @ [FilterInstances (instance_id i)]" by (simp add: p(1) p'(1) seen(1))
  with Executed(1) i decided_kind [OF i ready] ready p(2) none post show ?thesis by blast
qed

text \<open>
  C1. A step ends an instance only to replace an outdated one. The ended object is what the lookup
  of the instance returned that the step decided on from the status just read; that instance runs another image than the
  one AMI of the launch templates, all nodes were in one replica set, a primary is ended only
  when no secondary is outdated and the replica set was healthy after the step-down, and nothing
  else is ended in the step.
\<close>

theorem step_ends_outdated:
  assumes "bounded_retry retry 10" and "instances_are_lists E"
    and "step E retry (PStr c) s = (r, t)" and "calls t = calls s @ pre @ [InstanceTerminate obj] @ post"
  shows "\<exists>ami st u i p.
    cleared E retry c s ami st u \<and> target (decide_on_action st ami) = Some i \<and> i \<in> set st \<and>
    \<not> py_eq (image_id i) ami \<and>
    calls s @ pre = p @ [FilterInstances (instance_id i)] \<and>
    reply E p (FilterInstances (instance_id i)) = Inr (PList [obj]) \<and>
    ready E (decide_on_action st ami) i (calls u) p \<and>
    (mongo_state i = ''SECONDARY'' \<or>
     mongo_state i = ''PRIMARY'' \<and> healthy_seen E p \<and>
       list_all (\<lambda>j. \<not> (outdated ami j \<and> mongo_state j = ''SECONDARY'')) st) \<and>
    terminations pre = [] \<and> terminations post = []"
  by (rule step_replaces [OF assms])

lemma step_ends_outdated_witness:
  "\<exists>ami st u i. cleared sample_site (retry_now 9) ''mongo'' fresh_world ami st u \<and>
     target (decide_on_action st ami) = Some i \<and> i \<in> set st \<and>
     \<not> py_eq (image_id i) ami \<and> terminations (sample_checked @ sample_before) = []"
proof -
  let ?pre = "sample_checked @ sample_before"
  have run: "step sample_site (retry_now 9) (PStr ''mongo'') fresh_world =
      (Inr (recycle_secondary sample_secondary), \<lparr>calls = ?pre @ [InstanceTerminate (PStr ''i-1'')] @ sample_after\<rparr>)"
    using sample_site_step [of fresh_world] by (simp add: fresh_world_def)
  from step_ends_outdated [OF retry_now_bounded sample_site_lists run, of ?pre "PStr ''i-1''" sample_after]
  show ?thesis by (auto simp: fresh_world_def)
qed

end
