(* ===== verification/MongoRun.thy ===== *)
theory MongoRun
  imports MongoSafety
begin

text \<open>
  The Mongo recycler over several runs. Each run of the handler recycles at most one instance and
  hands its event to the next through the state machine; the lemmas say what the counter and
  the final message report, when the start of a recycle is recorded, that the runs end, and what a run that decides
  \<open>DONE\<close> has seen (\<open>all_current\<close>), on which the state machine's success rests.
\<close>

section \<open>The event over the runs\<close>

text \<open>\<open>steps_result event ds\<close>: the event after runs whose steps decided \<open>ds\<close>.\<close>

fun steps_result :: "pyval \<Rightarrow> Decision list \<Rightarrow> pyval res" where
  "steps_result event [] = Inr event"
| "steps_result event (d # ds) = res_bind (after_step event d) (\<lambda>event'. steps_result event' ds)"

lemma steps_result_append:
  "steps_result event (ds @ es) = res_bind (steps_result event ds) (\<lambda>event'. steps_result event' es)"
  by (induction ds arbitrary: event) (auto simp: res_bind_def split: sum.splits)

definition counted :: "nat \<Rightarrow> pyval option" where
  "counted n = (if n = 0 then None else Some (PInt (int n)))"

text \<open>An event after \<open>n\<close> runs that began as \<open>d0\<close>.\<close>

definition event_after :: "(string \<times> pyval) list \<Rightarrow> nat \<Rightarrow> pyval \<Rightarrow> bool" where
  "event_after d0 n event =
     (\<exists>d. event = PDict d \<and> map_of d ''counter'' = counted n \<and>
        (\<forall>k. k \<notin> {''counter'', ''decision''} \<longrightarrow> map_of d k = map_of d0 k))"

lemma increment_counter_PDict:
  assumes "map_of d ''counter'' = counted n"
  shows "increment_counter (PDict d) = Inr (PDict (AList.update ''counter'' (PInt (int n + 1))
    (if n = 0 then AList.update ''counter'' (PInt 0) d else d)))"
  using assms
  by (cases "n = 0") (simp_all add: increment_counter_def counted_def py_item_PDict update_conv' py_add_one_def)

lemma after_step_continues:
  assumes "event_after d0 n event" and "action d \<noteq> DONE"
  shows "\<exists>event'. after_step event d = Inr event' \<and> event_after d0 (Suc n) event'"
proof -
  from assms(1) obtain e where e: "event = PDict e" "map_of e ''counter'' = counted n"
    "\<forall>k. k \<notin> {''counter'', ''decision''} \<longrightarrow> map_of e k = map_of d0 k"
    by (auto simp: event_after_def)
  let ?e = "AList.update ''decision'' (decision_json d) e"
  have "map_of ?e ''counter'' = counted n" by (simp add: update_conv' e)
  from increment_counter_PDict [OF this] show ?thesis
    using assms(2) e by (simp add: after_step_def event_after_def update_conv' counted_def)
qed

lemma steps_result_continues:
  "event_after d0 n event \<Longrightarrow> list_all (\<lambda>d. action d \<noteq> DONE) ds \<Longrightarrow>
   \<exists>event'. steps_result event ds = Inr event' \<and> event_after d0 (n + length ds) event'"
proof (induction ds arbitrary: n event)
  case (Cons d ds)
  from after_step_continues [OF Cons.prems(1)] Cons.prems(2) obtain event' where
    1: "after_step event d = Inr event'" and "event_after d0 (Suc n) event'" by auto
  with Cons.IH [of "Suc n" event'] Cons.prems(2) show ?case by simp
qed simp

definition final_text :: "nat \<Rightarrow> string" where
  "final_text n =
     (if n = 0 then ''No instances were recycled, because there was nothing to do''
      else ''Autorecycling has successfully completed. Recycled '' @ nat_str n @ '' mongo instances.'')"

lemma after_step_done:
  assumes "event_after d0 n event" and "map_of d0 ''message_content'' = Some (PDict m)"
  shows "\<exists>e. after_step event done_decision = Inr (PDict e) \<and> map_of e ''counter'' = Some (PInt (int n + 1)) \<and>
    map_of e ''decision'' = Some (PDict [(''action'', PStr DONE), (''instance'', PNone)]) \<and>
    map_of e ''message_content'' = Some (PDict (AList.update ''text'' (PStr (final_text n)) m)) \<and>
    (\<forall>k. k \<notin> {''counter'', ''decision'', ''message_content''} \<longrightarrow> map_of e k = map_of d0 k)"
proof -
  from assms(1) obtain e where e: "event = PDict e" "map_of e ''counter'' = counted n"
    "\<forall>k. k \<notin> {''counter'', ''decision''} \<longrightarrow> map_of e k = map_of d0 k"
    by (auto simp: event_after_def)
  let ?e1 = "AList.update ''decision'' (decision_json done_decision) e"
  let ?e2 = "AList.update ''message_content'' (PDict (AList.update ''text'' (PStr (final_text n)) m)) ?e1"
  have counter: "map_of ?e2 ''counter'' = counted n" by (simp add: update_conv' e)
  have msg: "set_message_text (PDict ?e1) (final_text n) = Inr (PDict ?e2)"
    using e(3) assms(2) by (simp add: set_message_text_def py_item_PDict update_conv')
  have str: "0 < n \<Longrightarrow> py_str (PInt (int n)) = nat_str n"
    by (simp add: py_str_def int_str_def)
  have "after_step event done_decision = increment_counter (PDict ?e2)"
    using msg e(1,2) str by (cases "n = 0")
      (simp_all add: after_step_def done_decision_def update_conv' counted_def final_text_def py_item_PDict)
  with increment_counter_PDict [OF counter] e(3) show ?thesis
    by (simp add: update_conv' decision_json_def done_decision_def)
qed

text \<open>
  The last message reports what was done: when the runs of a component recycled \<open>n\<close> instances
  before a run decided DONE, the text says so, with the number \<open>n\<close>, or that there was nothing
  to do when \<open>n\<close> is 0; the counter ends at \<open>n + 1\<close>, the decision is DONE without an instance,
  and every other key of the event is as it was.
\<close>

theorem steps_result_report:
  assumes "map_of d ''counter'' = None" and "map_of d ''message_content'' = Some (PDict m)"
    and "list_all (\<lambda>x. action x \<noteq> DONE) ds"
  shows "\<exists>e. steps_result (PDict d) (ds @ [done_decision]) = Inr (PDict e) \<and>
    map_of e ''counter'' = Some (PInt (int (length ds) + 1)) \<and>
    map_of e ''decision'' = Some (PDict [(''action'', PStr ''DONE''), (''instance'', PNone)]) \<and>
    map_of e ''message_content'' = Some (PDict (AList.update ''text''
      (PStr (if ds = [] then ''No instances were recycled, because there was nothing to do''
             else ''Autorecycling has successfully completed. Recycled '' @ nat_str (length ds) @ '' mongo instances.'')) m)) \<and>
    (\<forall>k. k \<notin> {''counter'', ''decision'', ''message_content''} \<longrightarrow> map_of e k = map_of d k)"
proof -
  have "event_after d 0 (PDict d)" using assms(1) by (simp add: event_after_def counted_def)
  from steps_result_continues [OF this assms(3)] obtain event' where
    1: "steps_result (PDict d) ds = Inr event'" and 2: "event_after d (length ds) event'" by auto
  have "steps_result (PDict d) (ds @ [done_decision]) = after_step event' done_decision"
    by (simp add: steps_result_append 1 res_bind_def split: sum.splits)
  with after_step_done [OF 2 assms(2)] show ?thesis
    unfolding final_text_def DONE_def length_0_conv by simp
qed

definition sample_event :: "(string \<times> pyval) list" where
  "sample_event = [(''component'', PStr ''mongo''), (''message_content'', PDict [(''color'', PStr ''good'')])]"

lemma steps_result_report_witness:
  "\<exists>e. steps_result (PDict sample_event) [recycle_secondary sample_secondary, done_decision] = Inr (PDict e) \<and>
     map_of e ''counter'' = Some (PInt 2) \<and> map_of e ''component'' = Some (PStr ''mongo'')"
proof -
  have "map_of sample_event ''counter'' = None"
    and "map_of sample_event ''message_content'' = Some (PDict [(''color'', PStr ''good'')])"
    and "list_all (\<lambda>x. action x \<noteq> DONE) [recycle_secondary sample_secondary]"
    and c: "map_of sample_event ''component'' = Some (PStr ''mongo'')"
    by (simp_all add: sample_event_def recycle_secondary_def)
  from steps_result_report [OF this(1-3)] obtain e where
    "steps_result (PDict sample_event) ([recycle_secondary sample_secondary] @ [done_decision]) = Inr (PDict e)"
    "map_of e ''counter'' = Some (PInt (int (length [recycle_secondary sample_secondary]) + 1))"
    "\<forall>k. k \<notin> {''counter'', ''decision'', ''message_content''} \<longrightarrow> map_of e k = map_of sample_event k"
    by blast
  with c show ?thesis by (intro exI [of _ e]) (simp del: steps_result.simps)
qed

section \<open>When a recycle is recorded\<close>

text \<open>The calls of a step: those of the clients of EC2 and MongoDB that it uses, and sleeps.\<close>

definition stepping :: "call set" where
  "stepping = {c. case c of
       DescribeLaunchTemplates _ \<Rightarrow> True
     | DescribeLaunchTemplateVersions _ _ \<Rightarrow> True
     | DescribeInstancesByName _ \<Rightarrow> True
     | DescribeInstancesById _ \<Rightarrow> True
     | FilterInstances _ \<Rightarrow> True
     | InstanceTerminate _ \<Rightarrow> True
     | MongoClient _ \<Rightarrow> True
     | ReplSetGetStatus _ \<Rightarrow> True
     | ReplSetGetConfig _ \<Rightarrow> True
     | ReplSetReconfig _ _ \<Rightarrow> True
     | ReplSetStepDown _ _ \<Rightarrow> True
     | Sleep _ \<Rightarrow> True
     | _ \<Rightarrow> False}"

lemma observing_stepping: "observing \<subseteq> stepping"
  by (auto simp: observing_def stepping_def)

lemma reading_stepping: "reading \<subseteq> stepping"
  using observing_stepping by (auto simp: reading_def stepping_def)

lemma connecting_stepping: "connecting cs \<subseteq> stepping"
  using connecting_observing observing_stepping by blast

lemma chaining_calls_stepping: "chaining_calls cs \<subseteq> stepping"
  using connecting_stepping [of cs] by (auto simp: chaining_calls_def stepping_def)

lemma recycle_instance_footprint: "footprint (recycle_instance E i) stepping"
proof -
  have "footprint (is_terminated E obj) stepping" for obj
    by (rule footprint_mono [OF is_terminated_footprint [where S = "{}"]]) (auto simp: stepping_def)
  then have "footprint (poll (is_terminated E obj) n sl) stepping" for obj n sl
    by (rule polling.run_footprint) (auto simp: stepping_def)
  then show ?thesis
    by (auto simp: recycle_instance_def stepping_def intro!: footprint_intros)
qed

lemma wait_observing:
  fixes retry :: "'z retrier"
  assumes "bounded_retry retry 10"
  shows "footprint (wait_until_cluster_healthy E retry component) observing"
proof (rule footprintI)
  fix s :: "'z world_scheme"
  have "wp (wait_until_cluster_healthy E retry component) (\<lambda>_. extends observing s) (\<lambda>_. extends observing s) s"
    by (rule wp_mono [OF cluster_health.gate [OF assms]]) auto
  then show "extends observing s (snd (wait_until_cluster_healthy E retry component s))"
    by (auto simp: wp_def split: prod.splits sum.splits)
qed

lemma wait_footprint:
  "bounded_retry retry 10 \<Longrightarrow> footprint (wait_until_cluster_healthy E retry component) stepping"
  by (rule footprint_mono [OF wait_observing observing_stepping])

lemma step_down_footprint:
  "bounded_retry retry n \<Longrightarrow> footprint (step_down E retry ip) stepping"
  by (auto simp: step_down_def stepping_def
      intro!: footprint_intros footprint_mono [OF connect_footprint connecting_stepping [unfolded stepping_def]])

lemma execute_action_footprint:
  "bounded_retry retry 10 \<Longrightarrow> footprint (execute_action E retry component d) stepping"
  unfolding execute_action_def get_mongo_db_instances_def
  by (intro footprint_intros recycle_instance_footprint wait_footprint step_down_footprint
      footprint_mono [OF set_chaining_footprint chaining_calls_stepping]) (auto simp: stepping_def)

lemma step_footprint:
  assumes "bounded_retry retry 10"
  shows "footprint (step E retry component) stepping"
  unfolding step_def Let_def
  by (intro footprint_intros execute_action_footprint [OF assms]
      footprint_mono [OF get_ami_footprint reading_stepping]
      footprint_mono [OF fetch_footprint [OF assms] reading_stepping])

text \<open>A step-down is sent to the one instance that the decision steps down, if it is to step down any.\<close>

definition down_only :: "Decision \<Rightarrow> call set" where
  "down_only d = {c. case c of
       ReplSetStepDown ip n \<Rightarrow> action d = STEP_DOWN_AND_RECYCLE_PRIMARY \<and> (\<exists>i. target d = Some i \<and> ip = ip_address i)
     | _ \<Rightarrow> True}"

lemma quiet_down:
  "observing \<subseteq> down_only d" "connecting cs \<subseteq> down_only d" "chaining_calls cs \<subseteq> down_only d" "reading \<subseteq> down_only d"
  by (auto simp: observing_def connecting_def chaining_calls_def reading_def down_only_def)

lemma step_down_calls:
  assumes "bounded_retry retry n"
  shows "footprint (step_down E retry ip) (connecting ip \<union> {ReplSetStepDown ip 100})"
proof (rule footprintI)
  fix s :: "'a world_scheme"
  let ?S = "connecting ip \<union> {ReplSetStepDown ip 100}"
  have "wp (step_down E retry ip) (\<lambda>_. extends ?S s) (\<lambda>_. extends ?S s) s"
    unfolding step_down_def wp_bind
    by (rule wp_mono [OF connect_wp [OF assms]])
      (auto simp: wp_simps extends_def split: sum.splits)
  then show "extends ?S s (snd (step_down E retry ip s))"
    by (auto simp: wp_def split: prod.splits sum.splits)
qed

lemma recycle_instance_down: "footprint (recycle_instance E i) (down_only d)"
proof -
  have "footprint (is_terminated E obj) (down_only d)" for obj
    by (rule footprint_mono [OF is_terminated_footprint [where S = "{}"]]) (auto simp: down_only_def)
  then have "footprint (poll (is_terminated E obj) n sl) (down_only d)" for obj n sl
    by (rule polling.run_footprint) (auto simp: down_only_def)
  then show ?thesis
    by (auto simp: recycle_instance_def down_only_def intro!: footprint_intros)
qed

lemma execute_action_down:
  assumes "bounded_retry retry 10"
  shows "footprint (execute_action E retry component d) (down_only d)"
  unfolding execute_action_def get_mongo_db_instances_def
  by (intro footprint_intros recycle_instance_down footprint_mono [OF wait_observing [OF assms] quiet_down(1)]
      footprint_mono [OF step_down_calls [OF assms]] footprint_mono [OF set_chaining_footprint [OF assms] quiet_down(3)])
    (use quiet_down(2) in \<open>auto simp: down_only_def\<close>)

definition start_record :: "pyval \<Rightarrow> int \<Rightarrow> call" where
  "start_record component seconds =
     DynamoPutItem ''mongo_recycle_in_progress''
       (PDict [(''replicaset_name'', component), (''ExpiryTime'', PInt (seconds + 900))])"

lemma record_recycle_starting_run:
  "record_recycle_starting E component s =
    (case res_bind (reply E (calls s) ReadTime) int_of_time of
       Inl e \<Rightarrow> (Inl e, s\<lparr>calls := calls s @ [ReadTime]\<rparr>)
     | Inr seconds \<Rightarrow>
         (case reply E (calls s @ [ReadTime]) (start_record component seconds) of Inl e \<Rightarrow> Inl e | Inr _ \<Rightarrow> Inr (),
          s\<lparr>calls := calls s @ [ReadTime, start_record component seconds]\<rparr>))"
  by (auto simp: record_recycle_starting_def io_eval start_record_def res_bind_def split: sum.splits)

text \<open>
  C35. The start of a recycle is recorded by the first run only, before anything else: a run whose
  event has a counter that is not 0 neither reads the clock nor writes the record, any other run
  writes one record, which expires 900 seconds after the time it read, and when that write fails
  the run ends with its error and the cluster is not touched.
\<close>

theorem handler_records_start:
  assumes "bounded_retry retry 10" and "map_of d ''component'' = Some component"
    and "mongo_lambda_handler E retry (PDict d) s = (r, t)"
  shows "\<exists>new. calls t = calls s @ new \<and>
    (if py_truth (case map_of d ''counter'' of None \<Rightarrow> PNone | Some c \<Rightarrow> c) then set new \<subseteq> stepping
     else new = [ReadTime] \<and> r \<in> range Inl \<or>
       (\<exists>now seconds rest. reply E (calls s) ReadTime = Inr now \<and> int_of_time now = Inr seconds \<and>
          new = [ReadTime, start_record component seconds] @ rest \<and> set rest \<subseteq> stepping \<and>
          (case reply E (calls s @ [ReadTime]) (start_record component seconds) of
             Inl e \<Rightarrow> rest = [] \<and> r = Inl e | Inr _ \<Rightarrow> True)))"
proof -
  let ?rest = "io_bind (step E retry component) (\<lambda>x. io_res (after_step (PDict d) x))"
  let ?first = "\<not> py_truth (case map_of d ''counter'' of None \<Rightarrow> PNone | Some c \<Rightarrow> c)"
  have fp: "footprint ?rest stepping"
    by (intro footprint_intros step_footprint assms(1))
  have eq: "mongo_lambda_handler E retry (PDict d) =
      io_then (if ?first then record_recycle_starting E component else io_return ()) ?rest"
    using assms(2) by (simp add: fun_eq_iff mongo_lambda_handler_def is_first_run_def py_item_PDict io_bind_def io_res_def)
  show ?thesis
  proof (cases ?first)
    case False
    with assms(3) eq have "?rest s = (r, t)" by (simp add: io_then_def io_bind_def io_return_def)
    with footprintD [OF fp, of s] False show ?thesis by (auto simp: extends_def)
  next
    case True
    with assms(3) eq have run: "io_then (record_recycle_starting E component) ?rest s = (r, t)" by simp
    show ?thesis
    proof (cases "res_bind (reply E (calls s) ReadTime) int_of_time")
      case (Inl e)
      with True run show ?thesis by (auto simp: io_then_def io_bind_def record_recycle_starting_run)
    next
      case (Inr seconds)
      let ?u = "s\<lparr>calls := calls s @ [ReadTime, start_record component seconds]\<rparr>"
      from footprintD [OF fp, of ?u] obtain more where
        "calls (snd (?rest ?u)) = calls s @ [ReadTime, start_record component seconds] @ more" "set more \<subseteq> stepping"
        by (auto simp: extends_def)
      with Inr True run show ?thesis
        by (auto simp: io_then_def io_bind_def record_recycle_starting_run res_bind_eq_Inr split: sum.splits)
    qed
  qed
qed

lemma handler_records_start_witness:
  "\<exists>rest. calls (snd (mongo_lambda_handler sample_site (retry_now 9) (PDict sample_event) fresh_world)) =
     [ReadTime, start_record (PStr ''mongo'') 1000] @ rest \<and> set rest \<subseteq> stepping"
proof -
  obtain r t where run: "mongo_lambda_handler sample_site (retry_now 9) (PDict sample_event) fresh_world = (r, t)"
    by fastforce
  have now: "reply sample_site [] ReadTime = Inr (PInt 1000)" by (simp add: one_node_site_def)
  have put: "reply sample_site [ReadTime] (start_record (PStr ''mongo'') 1000) = Inr PNone"
    by (simp add: one_node_site_def start_record_def)
  have "\<not> calls t = [ReadTime]"
    using run now put
    by (auto simp: mongo_lambda_handler_def sample_event_def py_item_PDict is_first_run_def record_recycle_starting_def
        io_eval fresh_world_def int_of_time_def start_record_def sample_site_step [unfolded fresh_world_def])
  with handler_records_start [OF retry_now_bounded _ run, of "PStr ''mongo''"] now run show ?thesis
    by (auto simp: sample_event_def fresh_world_def int_of_time_def)
qed

section \<open>The runs end\<close>

text \<open>
  The instances a step still has to replace. \<open>replaced ami i st st'\<close> is what the platform does
  between two steps: of the instances that ran another image only the ended \<open>i\<close> is gone, and no
  instance with another image was started; states and addresses may have changed.
\<close>

definition stale_ids :: "pyval \<Rightarrow> Instance list \<Rightarrow> pyval set" where
  "stale_ids ami st = instance_id ` set (filter (\<lambda>i. \<not> py_eq (image_id i) ami) st)"

definition replaced :: "pyval \<Rightarrow> Instance \<Rightarrow> Instance list \<Rightarrow> Instance list \<Rightarrow> bool" where
  "replaced ami i st st' = (stale_ids ami st' \<subseteq> stale_ids ami st - {instance_id i})"

fun rolling :: "pyval \<Rightarrow> Instance list list \<Rightarrow> bool" where
  "rolling ami [] = False"
| "rolling ami [st] = True"
| "rolling ami (st # st' # sts) =
     (case target (decide_on_action st ami) of
        None \<Rightarrow> False
      | Some i \<Rightarrow> replaced ami i st st' \<and> rolling ami (st' # sts))"

lemma target_stale: "target (decide_on_action st ami) = Some i \<Longrightarrow> instance_id i \<in> stale_ids ami st"
  by (cases st ami rule: decide_cases)
    (auto simp: recycle_secondary_def step_down_and_recycle_primary_def done_decision_def stale_ids_def outdated_def)

lemma finite_stale: "finite (stale_ids ami st)"
  by (simp add: stale_ids_def)

text \<open>
  The recycling of a replica set ends: when every step's instance is replaced by one with the
  launch templates' image, at most as many steps recycle an instance as there were outdated
  instances when it began.
\<close>

theorem rolling_bounded:
  assumes "rolling ami (st # sts)"
  shows "length sts + card (stale_ids ami (last (st # sts))) \<le> card (stale_ids ami st)"
  using assms
proof (induction sts arbitrary: st)
  case (Cons st' sts)
  then obtain i where i: "target (decide_on_action st ami) = Some i" and r: "replaced ami i st st'"
    and rest: "rolling ami (st' # sts)" by (auto split: option.splits)
  have "stale_ids ami st' \<subset> stale_ids ami st"
    using r target_stale [OF i] by (auto simp: replaced_def)
  then have "card (stale_ids ami st') < card (stale_ids ami st)"
    by (rule psubset_card_mono [OF finite_stale])
  with Cons.IH [OF rest] show ?case by simp
qed simp

text \<open>The sample cluster: the outdated secondary is replaced first, then the old primary.\<close>

definition sample_rounds :: "Instance list list" where
  "sample_rounds =
     [sample_cluster,
      [sample_instance ''1'' ''ami-old'' ''PRIMARY'', sample_instance ''2'' ''ami-new'' ''SECONDARY'',
       sample_instance ''4'' ''ami-new'' ''SECONDARY''],
      [sample_instance ''5'' ''ami-new'' ''SECONDARY'', sample_instance ''2'' ''ami-new'' ''PRIMARY'',
       sample_instance ''4'' ''ami-new'' ''SECONDARY'']]"

lemma rolling_bounded_witness:
  "length (tl sample_rounds) \<le> card (stale_ids (PStr ''ami-new'') sample_cluster)"
proof -
  have "rolling (PStr ''ami-new'') (sample_cluster # tl sample_rounds)"
    by (simp add: sample_rounds_def sample_cluster_def sample_instance_def decide_on_action_def find_candidates_def
        find_instances_def candidate_states_def recycle_secondary_def step_down_and_recycle_primary_def
        replaced_def stale_ids_def)
  from rolling_bounded [OF this] show ?thesis by simp
qed

section \<open>A run that finds nothing to do\<close>

text \<open>
  \<open>all_current E retry c s t\<close>: after \<open>s\<close>, the checks of a step passed for the component \<open>c\<close>, the status they read
  shows no primary or secondary whose image is not the one of the launch templates, and chaining
  was then found or set on, all before \<open>t\<close>.
\<close>

definition all_current :: "env \<Rightarrow> 'z retrier \<Rightarrow> string \<Rightarrow> 'z world_scheme \<Rightarrow> 'z world_scheme \<Rightarrow> bool" where
  "all_current E retry c s t =
     (\<exists>ami st v u names cs k w. extends UNIV s v \<and> cleared E retry c v ami st u \<and>
        filter (\<lambda>i. mongo_state i \<in> {''PRIMARY'', ''SECONDARY''} \<and> \<not> py_eq (image_id i) ami) st = [] \<and>
        chaining_log E cs True (calls u @ [DescribeInstancesByName names]) k (calls w) \<and> extends UNIV w t)"

lemma execute_done:
  assumes "bounded_retry retry n" and "execute_action E retry c d u = (Inr x, t)" and "action d = DONE"
  shows "\<exists>names cs k. chaining_log E cs True (calls u @ [DescribeInstancesByName names]) k (calls t)"
proof -
  let ?c = "DescribeInstancesByName (create_instance_name_filters c)"
  have log: "wp (set_chaining E retry cs True) (\<lambda>k t. chaining_log E cs True (calls u @ [?c]) k (calls t)) (\<lambda>_ _. True)
      (u\<lparr>calls := calls u @ [?c]\<rparr>)" for cs
    using set_chaining_wp [OF assms(1), of E cs True "u\<lparr>calls := calls u @ [?c]\<rparr>"] by simp
  have "wp (execute_action E retry c d)
     (\<lambda>_ t. \<exists>names cs k. chaining_log E cs True (calls u @ [DescribeInstancesByName names]) k (calls t)) (\<lambda>_ _. True) u"
    using assms(3)
    by (simp add: execute_action_def get_mongo_db_instances_def wp_bind wp_request wp_res wp_return wp_then split: sum.splits)
      (fastforce simp: wp_return intro!: wp_mono [OF log])
  from wp_Inr [OF this assms(2)] show ?thesis .
qed

lemma decided_done:
  "action (decide_on_action st ami) = DONE \<Longrightarrow>
   filter (\<lambda>i. mongo_state i \<in> {''PRIMARY'', ''SECONDARY''} \<and> \<not> py_eq (image_id i) ami) st = []"
  by (cases st ami rule: decide_cases) (auto simp: recycle_secondary_def step_down_and_recycle_primary_def outdated_def filter_empty_conv)

lemma step_done:
  assumes "bounded_retry retry n" and "step E retry (PStr c) v = (Inr d, t)" and "action d = DONE"
  shows "all_current E retry c v t"
  using assms(1,2)
proof (cases rule: step_cases)
  case (Executed ami st u r')
  then obtain x where "r' = Inr x" and d: "d = decide_on_action st ami" by (auto split: sum.splits)
  with execute_done [OF assms(1), of E c d u x t] Executed assms(3) obtain names cs k where
    "chaining_log E cs True (calls u @ [DescribeInstancesByName names]) k (calls t)" by auto
  with Executed(1) decided_done [of st ami] assms(3) d show ?thesis unfolding all_current_def by blast
qed simp

text \<open>What a run of the handler that returns a decision \<open>DONE\<close> has done, and what it keeps of its event.\<close>

lemma after_step_keeps:
  assumes "after_step ev d = Inr out" and "ev = PDict e"
  shows "\<exists>o'. out = PDict o' \<and> map_of o' ''component'' = map_of e ''component'' \<and> map_of o' ''decision'' = Some (decision_json d)"
  using assms
  by (auto simp: after_step_def set_message_text_def increment_counter_def py_set_item_Inr res_bind_eq_Inr update_conv' split: if_splits)

lemma step_component: "step E retry v s = (Inr d, t) \<Longrightarrow> \<exists>c. v = PStr c"
  by (cases v) (auto simp: step_def need_str_def io_bind_def io_then_def io_res_def split: sum.splits)

lemma all_current_before: "all_current E retry c v t \<Longrightarrow> extends UNIV s v \<Longrightarrow> all_current E retry c s t"
  unfolding all_current_def by (blast intro: extends_trans)

lemma all_current_after: "all_current E retry c s v \<Longrightarrow> extends UNIV v t \<Longrightarrow> all_current E retry c s t"
  unfolding all_current_def by (blast intro: extends_trans)

lemma record_extends: "record_recycle_starting E component s = (r, t) \<Longrightarrow> extends UNIV s t"
  by (auto simp: record_recycle_starting_run extends_def split: sum.splits)

lemma handler_step:
  assumes "mongo_lambda_handler E retry v s = (Inr out, t)"
  obtains e o' c d u where "v = PDict e" "out = PDict o'" "map_of e ''component'' = Some (PStr c)"
    "map_of o' ''component'' = Some (PStr c)" "map_of o' ''decision'' = Some (decision_json d)"
    "extends UNIV s u" "step E retry (PStr c) u = (Inr d, t)"
proof -
  from assms obtain component first x u d where
    c: "py_item v ''component'' = Inr component" and first: "is_first_run v = Inr first"
    and start: "(if first then record_recycle_starting E component else io_return ()) s = (Inr x, u)"
    and run: "step E retry component u = (Inr d, t)" and out: "after_step v d = Inr out"
    by (auto simp: mongo_lambda_handler_def io_bind_def io_then_def io_res_def split: sum.splits prod.splits)
  from step_component [OF run] obtain c' where c': "component = PStr c'" ..
  from c obtain e where e: "v = PDict e" "map_of e ''component'' = Some component" by (auto simp: py_item_Inr_iff)
  from after_step_keeps [OF out e(1)] obtain o' where
    o': "out = PDict o'" "map_of o' ''component'' = map_of e ''component''" "map_of o' ''decision'' = Some (decision_json d)"
    by blast
  from start have "extends UNIV s u" by (auto simp: io_return_def split: if_splits dest: record_extends)
  with that e o' c' run show thesis by simp
qed

lemma handler_done:
  assumes "bounded_retry retry n" and "mongo_lambda_handler E retry v s = (Inr out, t)"
  obtains e o' c d where "v = PDict e" "out = PDict o'" "map_of e ''component'' = Some (PStr c)"
    "map_of o' ''component'' = Some (PStr c)" "map_of o' ''decision'' = Some (decision_json d)"
    "action d = DONE \<Longrightarrow> all_current E retry c s t"
  using assms(2)
proof (rule handler_step)
  fix e o' c d u
  assume "v = PDict e" "out = PDict o'" "map_of e ''component'' = Some (PStr c)" "map_of o' ''component'' = Some (PStr c)"
    "map_of o' ''decision'' = Some (decision_json d)" "extends UNIV s u" "step E retry (PStr c) u = (Inr d, t)"
  with that step_done [OF assms(1)] show thesis by (blast intro: all_current_before)
qed

section \<open>A cluster that is up to date\<close>

lemma current_site_chaining:
  "set_chaining (one_node_site ami) (retry_now 9) (PStr ''10.0.0.1'') True s =
     (Inr (sample_config True 8), s\<lparr>calls := calls s @ connecting_calls @
        [ReplSetGetConfig (PStr ''10.0.0.1''), ReplSetReconfig (PStr ''10.0.0.1'') (sample_config True 8)]\<rparr>)"
  by (simp add: set_chaining_def io_bind_def sample_site_connect)
    (simp add: io_eval one_node_site_def sample_config_def py_item_PDict chaining_of_def new_chaining_config_def
      py_set_item_def py_add_one_def)

lemma current_site_step:
  "\<exists>t. step (one_node_site ''ami-old'') (retry_now 9) (PStr ''mongo'') s = (Inr done_decision, t)"
proof -
  have "decide_on_action [sample_secondary] (PStr ''ami-old'') = done_decision"
    by (simp add: decide_on_action_def find_candidates_def find_instances_def candidate_states_def sample_secondary_def)
  moreover have "action done_decision = DONE" by (simp add: done_decision_def)
  ultimately show ?thesis
    by (simp add: step_def execute_action_def mongo_init_PStr io_bind_def io_then_def io_res_def io_return_def Let_def
        sample_site_ami sample_site_status sample_site_same_set sample_site_instances sample_site_address current_site_chaining)
qed

lemma current_site_handler:
  assumes "map_of e ''component'' = Some (PStr ''mongo'')" and "map_of e ''counter'' = None"
    and "map_of e ''message_content'' = Some (PDict m)"
  shows "\<exists>o' t. mongo_lambda_handler (one_node_site ''ami-old'') (retry_now 9) (PDict e) s = (Inr (PDict o'), t) \<and>
    map_of o' ''decision'' = Some (decision_json done_decision) \<and> map_of o' ''status'' = map_of e ''status''"
proof -
  obtain u where start: "record_recycle_starting (one_node_site ''ami-old'') (PStr ''mongo'') s = (Inr (), u)"
    by (simp add: record_recycle_starting_run res_bind_def one_node_site_def start_record_def int_of_time_def)
  from current_site_step obtain t where
    run: "step (one_node_site ''ami-old'') (retry_now 9) (PStr ''mongo'') u = (Inr done_decision, t)" by blast
  have "\<exists>o'. after_step (PDict e) done_decision = Inr (PDict o') \<and>
      map_of o' ''decision'' = Some (decision_json done_decision) \<and> map_of o' ''status'' = map_of e ''status''"
    using assms(2,3)
    by (simp add: after_step_def set_message_text_def increment_counter_def done_decision_def py_in_def py_item_PDict
        py_set_item_def update_conv' py_add_one_def)
  with assms(1,2) start run show ?thesis
    by (auto simp: mongo_lambda_handler_def is_first_run_def py_item_PDict py_get_def io_bind_def io_then_def io_res_def)
qed

end
