(* ===== verification/StateMachine.thy ===== *)
theory StateMachine
  imports EventTypes MonitorAutorecycle MongoRun
begin

text \<open>
  The state machine \<open>autorecycle\<close> of \<open>terraform/state_machine.tf\<close>, which runs the Lambdas for one
  component: its states as a table of nodes, in the terms of the Amazon States Language, and the
  step relation of an execution. The Slack Lambda and those of the instance refresh are not code
  of the repository; the code behind the tasks is the parameter \<open>F\<close>.

  A failed task is any error at all (an exception, a timeout, a missed heartbeat, a service
  exception that the retries did not cure), after any calls. The lemmas give the steps by the kind
  of the state; \<open>MachineOutcome\<close> and \<open>MachineBounds\<close> use them.
\<close>

section \<open>The language of the states\<close>

type_synonym path = "string list"

datatype rule =
    StringEquals path string
  | BooleanEquals path bool
  | NumericLessThanEquals path int
  | NumericGreaterThan path int
  | IsAbsent path
  | IsPresent path
  | AllOf "rule list"

datatype lambda =
    AutorecycleLambda
  | ScaleAsgLambda
  | MonitorLambda
  | MongoLambda
  | SlackNotifications
  | StartRefreshLambda
  | CancelRefreshLambda
  | RefreshStatusLambda

text \<open>
  A task has its Lambda, \<open>InputPath\<close>, \<open>ResultPath\<close>, the \<open>MaxAttempts\<close> of its retries, its next
  state, and the \<open>ResultPath\<close> and next state of its catch. A pass computes a document.
\<close>

datatype 'st node =
    Task lambda path path nat 'st path 'st
  | Pass "pyval \<Rightarrow> pyval option" 'st
  | Wait int 'st
  | Choice "(rule \<times> 'st) list" 'st
  | Succeed
  | Fail

fun path_get :: "path \<Rightarrow> pyval \<Rightarrow> pyval option" where
  "path_get [] v = Some v"
| "path_get (k # ks) v =
     (case v of PDict d \<Rightarrow> (case map_of d k of None \<Rightarrow> None | Some w \<Rightarrow> path_get ks w) | _ \<Rightarrow> None)"

fun path_put :: "path \<Rightarrow> pyval \<Rightarrow> pyval \<Rightarrow> pyval option" where
  "path_put [] x v = Some x"
| "path_put (k # ks) x v =
     (case v of
        PDict d \<Rightarrow>
          map_option (\<lambda>w. PDict (AList.update k w d))
            (path_put ks x (case map_of d k of None \<Rightarrow> PDict [] | Some w \<Rightarrow> w))
      | _ \<Rightarrow> None)"

definition json_number :: "pyval \<Rightarrow> (int \<times> nat) option" where
  "json_number v = (case v of PInt n \<Rightarrow> Some (n, 0) | PFloat m e \<Rightarrow> Some (m, e) | _ \<Rightarrow> None)"

text \<open>A rule that reads a path the document does not have is an error of the execution, \<open>None\<close>.\<close>

fun holds :: "rule \<Rightarrow> pyval \<Rightarrow> bool option" and all_hold :: "rule list \<Rightarrow> pyval \<Rightarrow> bool option" where
  "holds (StringEquals p s) v = map_option (\<lambda>x. x = PStr s) (path_get p v)"
| "holds (BooleanEquals p b) v = map_option (\<lambda>x. x = PBool b) (path_get p v)"
| "holds (NumericLessThanEquals p n) v =
     map_option (\<lambda>x. case json_number x of None \<Rightarrow> False | Some (m, e) \<Rightarrow> m \<le> n * 2 ^ e) (path_get p v)"
| "holds (NumericGreaterThan p n) v =
     map_option (\<lambda>x. case json_number x of None \<Rightarrow> False | Some (m, e) \<Rightarrow> m > n * 2 ^ e) (path_get p v)"
| "holds (IsAbsent p) v = Some (path_get p v = None)"
| "holds (IsPresent p) v = Some (path_get p v \<noteq> None)"
| "holds (AllOf rs) v = all_hold rs v"
| "all_hold [] v = Some True"
| "all_hold (r # rs) v = (case holds r v of Some True \<Rightarrow> all_hold rs v | x \<Rightarrow> x)"

fun choice_of :: "(rule \<times> 'st) list \<Rightarrow> 'st \<Rightarrow> pyval \<Rightarrow> 'st option" where
  "choice_of [] dflt v = Some dflt"
| "choice_of ((r, st) # rest) dflt v =
     (case holds r v of None \<Rightarrow> None | Some True \<Rightarrow> Some st | Some False \<Rightarrow> choice_of rest dflt v)"


section \<open>The states\<close>

datatype sm_state =
    ChooseStrategy
  | StandardRecycle | SlackStart | WaitCommencement | MonitorAutorecycling | IsAutorecyclingDone | WaitAutorecycle
  | RecycleSingle | IsFirstRun | SlackSingle | WaitSingle | IsSingleDone
  | MongoRecycle | SlackMongo | RecycleMongo | MongoAutorecycleDecision | WaitMongo
  | MonitorRefreshStatus | RefreshStatus | RefreshCancel | WaitRefreshStatus | RecordRefreshStatus
  | InstanceRefresh | SlackRefresh | RefreshStart | WasRefreshStarted
  | MonitorRefreshProgress | IsRefreshComplete | WaitRefresh | SuccessfulRefresh | FailedRefresh
  | LambdaErrored | SlackEnd | StatusChoice | FailState | SuccessState
  | Aborted

text \<open>The variables of the Terraform module that occur in the definition.\<close>

record variables =
  tf_slack_channel :: string
  tf_slack_error_channel :: string
  tf_environment :: string
  tf_start_name :: string
  tf_cancel_name :: string
  tf_status_name :: string
  tf_runbook_url :: string

definition output_path :: "string \<Rightarrow> path" where
  "output_path name = [name @ ''-output'']"

definition error_path :: path where
  "error_path = [''error-info'']"

text \<open>The tasks on the Lambdas all retry 8 times; those that send a message to Slack do not retry.\<close>

definition lambda_task :: "lambda \<Rightarrow> sm_state \<Rightarrow> sm_state node" where
  "lambda_task l st = Task l [] [] 8 st error_path LambdaErrored"

definition refresh_task :: "lambda \<Rightarrow> path \<Rightarrow> path \<Rightarrow> sm_state \<Rightarrow> path \<Rightarrow> sm_state node" where
  "refresh_task l inp res st err = Task l inp res 8 st err LambdaErrored"

definition slack_task :: "sm_state \<Rightarrow> sm_state node" where
  "slack_task st = Task SlackNotifications [] [] 0 st error_path st"

text \<open>
  The documents of the passes: \<open>content\<close> is the part of \<open>message_content\<close> before its fields. A
  pass that reads a missing \<open>$.component\<close> is an error of the execution.
\<close>

definition content_fields :: "variables \<Rightarrow> pyval \<Rightarrow> pyval" where
  "content_fields V component =
     PList [PDict [(''short'', PBool True), (''value'', component), (''title'', PStr ''Component Name'')],
            PDict [(''title'', PStr ''Environment''), (''value'', PStr (tf_environment V)), (''short'', PBool True)]]"

definition slack_arguments :: "variables \<Rightarrow> string \<Rightarrow> string list \<Rightarrow> (string \<times> pyval) list \<Rightarrow> pyval \<Rightarrow> pyval option" where
  "slack_arguments V st channels content v =
     map_option (\<lambda>component.
       PDict [(''username'', PStr ''AutoRecycling''), (''status'', PStr st), (''text'', component), (''component'', component),
              (''channels'', PList (map PStr channels)),
              (''message_content'', PDict (content @ [(''fields'', content_fields V component)])),
              (''emoji'', PStr '':robot_face:'')])
       (path_get [''component''] v)"

definition lambda_error_arguments :: "variables \<Rightarrow> pyval \<Rightarrow> pyval option" where
  "lambda_error_arguments V v =
     map_option (\<lambda>component.
       PDict [(''username'', PStr ''AutoRecycling''), (''channels'', PStr ''team-infra-alerts''), (''component'', component),
              (''status'', PStr ''fail''),
              (''message_content'', PDict
                [(''text'', PStr (''Failed to recycle a component: '' @ tf_runbook_url V)), (''color'', PStr ''danger''),
                 (''fields'', content_fields V component)]),
              (''text'', PStr (''State execution has failed in '' @ tf_environment V @
                 '' because of a lambda exception! Please investigate.'')),
              (''emoji'', PStr '':robot_face:'')])
       (path_get [''component''] v)"

definition record_refresh_checked :: "pyval \<Rightarrow> pyval option" where
  "record_refresh_checked = path_put [''instance_refresh_status_state''] (PDict [(''instance_refresh_checked'', PBool True)])"

fun sm_node :: "variables \<Rightarrow> sm_state \<Rightarrow> sm_state node" where
  "sm_node V ChooseStrategy =
     Choice [(StringEquals [''strategy''] ''in-out'', RecycleSingle),
             (StringEquals [''strategy''] ''mongo'', MongoRecycle),
             (StringEquals [''strategy''] ''instance-refresh'', MonitorRefreshStatus)] StandardRecycle"
| "sm_node V StandardRecycle = lambda_task AutorecycleLambda SlackStart"
| "sm_node V SlackStart = slack_task WaitCommencement"
| "sm_node V WaitCommencement = Wait 120 MonitorAutorecycling"
| "sm_node V MonitorAutorecycling = lambda_task MonitorLambda IsAutorecyclingDone"
| "sm_node V IsAutorecyclingDone =
     Choice [(BooleanEquals [''recycle_success''] True, SlackEnd),
             (NumericGreaterThan [''counter''] 20, SlackEnd)] WaitAutorecycle"
| "sm_node V WaitAutorecycle = Wait 360 MonitorAutorecycling"
| "sm_node V RecycleSingle = lambda_task ScaleAsgLambda IsFirstRun"
| "sm_node V IsFirstRun = Choice [(NumericLessThanEquals [''counter''] 1, SlackSingle)] WaitSingle"
| "sm_node V SlackSingle = slack_task WaitSingle"
| "sm_node V WaitSingle = Wait 60 IsSingleDone"
| "sm_node V IsSingleDone =
     Choice [(BooleanEquals [''recycle_success''] True, SlackEnd),
             (NumericGreaterThan [''counter''] 20, SlackEnd)] RecycleSingle"
| "sm_node V MongoRecycle =
     Pass (slack_arguments V ''success'' [tf_slack_channel V]
       [(''text'', PStr ''Auto-recycling was successfully initiated'')]) SlackMongo"
| "sm_node V SlackMongo = slack_task RecycleMongo"
| "sm_node V RecycleMongo = lambda_task MongoLambda MongoAutorecycleDecision"
| "sm_node V MongoAutorecycleDecision =
     Choice [(StringEquals [''decision'', ''action''] STEP_DOWN_AND_RECYCLE_PRIMARY, WaitMongo),
             (StringEquals [''decision'', ''action''] RECYCLE_SECONDARY, WaitMongo),
             (StringEquals [''decision'', ''action''] DONE, SlackEnd)] RecycleMongo"
| "sm_node V WaitMongo = Wait 60 RecycleMongo"
| "sm_node V MonitorRefreshStatus =
     refresh_task RefreshStatusLambda [] (output_path (tf_status_name V)) RefreshStatus error_path"
| "sm_node V RefreshStatus =
     (let st = output_path (tf_status_name V) @ [''Status''];
          checked = [''instance_refresh_status_state'', ''instance_refresh_checked'']
      in Choice [(AllOf [IsAbsent st, IsAbsent checked], InstanceRefresh),
                 (AllOf [IsAbsent st, IsPresent checked], RefreshStart),
                 (StringEquals st ''Pending'', RefreshCancel),
                 (StringEquals st ''InProgress'', RefreshCancel),
                 (StringEquals st ''Cancelling'', WaitRefreshStatus)] InstanceRefresh)"
| "sm_node V RefreshCancel =
     refresh_task CancelRefreshLambda (output_path (tf_status_name V)) (output_path (tf_cancel_name V))
       WaitRefreshStatus error_path"
| "sm_node V WaitRefreshStatus = Wait 180 RecordRefreshStatus"
| "sm_node V RecordRefreshStatus = Pass record_refresh_checked MonitorRefreshStatus"
| "sm_node V InstanceRefresh =
     Pass (slack_arguments V ''success'' [tf_slack_channel V]
       [(''text'', PStr ''Instance refresh was successfully initiated'')]) SlackRefresh"
| "sm_node V SlackRefresh = slack_task RefreshStart"
| "sm_node V RefreshStart =
     refresh_task StartRefreshLambda [] (output_path (tf_start_name V)) WasRefreshStarted error_path"
| "sm_node V WasRefreshStarted =
     Choice [(IsAbsent (output_path (tf_start_name V) @ [''instance_refresh_id'']), SuccessState)] MonitorRefreshProgress"
| "sm_node V MonitorRefreshProgress =
     refresh_task RefreshStatusLambda (output_path (tf_start_name V)) (output_path (tf_status_name V)) IsRefreshComplete []"
| "sm_node V IsRefreshComplete =
     (let st = output_path (tf_status_name V) @ [''Status'']
      in Choice [(StringEquals st ''Pending'', WaitRefresh), (StringEquals st ''In Progress'', WaitRefresh),
                 (StringEquals st ''Successful'', SuccessfulRefresh), (StringEquals st ''Failed'', FailedRefresh),
                 (StringEquals st ''Cancelling'', WaitRefresh), (StringEquals st ''Cancelled'', SuccessState)] WaitRefresh)"
| "sm_node V WaitRefresh = Wait 180 MonitorRefreshProgress"
| "sm_node V SuccessfulRefresh =
     Pass (slack_arguments V ''success'' [tf_slack_channel V]
       [(''color'', PStr ''good''), (''text'', PStr ''Instance refresh was successfully completed'')]) SlackEnd"
| "sm_node V FailedRefresh =
     Pass (slack_arguments V ''failed'' [tf_slack_channel V, tf_slack_error_channel V]
       [(''color'', PStr ''danger''), (''text'', PStr ''Instance refresh FAILED to completed'')]) SlackEnd"
| "sm_node V LambdaErrored = Pass (lambda_error_arguments V) SlackEnd"
| "sm_node V SlackEnd = slack_task StatusChoice"
| "sm_node V StatusChoice = Choice [(StringEquals [''status''] ''fail'', FailState)] SuccessState"
| "sm_node V FailState = Fail"
| "sm_node V SuccessState = Succeed"
| "sm_node V Aborted = Fail"

section \<open>Executions\<close>

text \<open>
  An execution extends the log of the calls by the current state, its document and the number of
  failed attempts at the current task. \<open>Aborted\<close> is the end of an execution by a runtime error
  of the language, which no catch sees.
\<close>

record execution = world +
  current :: sm_state
  document :: pyval
  attempts :: nat

type_synonym lambda_code = "lambda \<Rightarrow> pyval \<Rightarrow> (execution, pyval) io"

definition move :: "pyval option \<Rightarrow> sm_state \<Rightarrow> execution \<Rightarrow> execution" where
  "move d st x =
     (case d of
        None \<Rightarrow> x\<lparr>current := Aborted, attempts := 0\<rparr>
      | Some v \<Rightarrow> x\<lparr>current := st, document := v, attempts := 0\<rparr>)"

text \<open>What a catch puts into the document.\<close>

definition error_info :: "string \<Rightarrow> string \<Rightarrow> pyval" where
  "error_info e c = PDict [(''Error'', PStr e), (''Cause'', PStr c)]"

inductive sm_step :: "lambda_code \<Rightarrow> variables \<Rightarrow> execution \<Rightarrow> execution \<Rightarrow> bool" for F V where
  task_done: "sm_node V (current x) = Task l inp res n st err cat \<Longrightarrow> path_get inp (document x) = Some v \<Longrightarrow>
     F l v x = (Inr out, y) \<Longrightarrow> sm_step F V x (move (path_put res out (document x)) st (x\<lparr>calls := calls y\<rparr>))"
| task_retried: "sm_node V (current x) = Task l inp res n st err cat \<Longrightarrow> path_get inp (document x) \<noteq> None \<Longrightarrow>
     attempts x < n \<Longrightarrow> sm_step F V x (x\<lparr>calls := calls x @ cs, attempts := attempts x + 1\<rparr>)"
| task_caught: "sm_node V (current x) = Task l inp res n st err cat \<Longrightarrow> path_get inp (document x) \<noteq> None \<Longrightarrow>
     sm_step F V x (move (path_put err (error_info e c) (document x)) cat (x\<lparr>calls := calls x @ cs\<rparr>))"
| task_input: "sm_node V (current x) = Task l inp res n st err cat \<Longrightarrow> path_get inp (document x) = None \<Longrightarrow>
     sm_step F V x (move None st x)"
| passed: "sm_node V (current x) = Pass f st \<Longrightarrow> sm_step F V x (move (f (document x)) st x)"
| waited: "sm_node V (current x) = Wait n st \<Longrightarrow>
     sm_step F V x (move (Some (document x)) st (x\<lparr>calls := calls x @ [Sleep n]\<rparr>))"
| chosen: "sm_node V (current x) = Choice rs dflt \<Longrightarrow>
     sm_step F V x (case choice_of rs dflt (document x) of None \<Rightarrow> move None dflt x | Some st \<Rightarrow> move (Some (document x)) st x)"

section \<open>Steps by kind of state\<close>

text \<open>
  The Slack Lambda passes its event on, with the channels as a list; the state machine relies on
  that, since the result of a Slack task replaces the document.
\<close>

definition slack_keeps :: "lambda_code \<Rightarrow> bool" where
  "slack_keeps F = (\<forall>v x out y k. F SlackNotifications v x = (Inr out, y) \<longrightarrow> k \<noteq> ''channels'' \<longrightarrow>
     path_get [k] out = path_get [k] v)"

text \<open>The code behind a task only ever adds to the log.\<close>

definition keeps_log :: "lambda_code \<Rightarrow> bool" where
  "keeps_log F = (\<forall>l v. footprint (F l v) UNIV)"

inductive_cases sm_stepE: "sm_step F V x y"

lemmas node_defs = lambda_task_def slack_task_def refresh_task_def

lemma path_get_one [simp]: "path_get [k] (PDict d) = map_of d k"
  by (simp split: option.splits)

declare path_get.simps(2) [simp del]

lemma move_simps [simp]:
  "move None st x = x\<lparr>current := Aborted, attempts := 0\<rparr>"
  "move (Some v) st x = x\<lparr>current := st, document := v, attempts := 0\<rparr>"
  by (simp_all add: move_def)

text \<open>Every step adds to the log.\<close>

lemma extends_UNIV: "calls t = calls s @ cs \<Longrightarrow> extends UNIV s t"
  by (auto simp: extends_def)

lemma step_log:
  assumes "keeps_log F" and "sm_step F V x y"
  shows "extends UNIV x y"
  using assms(2)
proof (cases rule: sm_step.cases)
  case (task_done l inp res n st err cat v out z)
  from assms(1) have "footprint (F l v) UNIV" by (simp add: keeps_log_def)
  from footprintD [OF this, of x] task_done show ?thesis
    by (auto simp: extends_def move_def split: option.splits)
qed (auto simp: extends_def move_def split: option.splits)

lemma step_lambda:
  assumes "sm_step F V x y" and "sm_node V (current x) = lambda_task l st"
  obtains (finished) out z where "F l (document x) x = (Inr out, z)" "current y = st" "document y = out" "attempts y = 0" "calls y = calls z"
    | (retried) "attempts x < 8" "current y = current x" "document y = document x" "attempts y = attempts x + 1"
    | (failed) "current y = LambdaErrored \<or> current y = Aborted" "attempts y = 0"
  using assms(1)
proof (cases rule: sm_step.cases)
  case (task_done l' inp res n st' err cat v out z)
  with assms(2) show ?thesis by (auto simp: node_defs intro: finished)
next
  case (task_retried l' inp res n st' err cat cs)
  with assms(2) show ?thesis by (auto simp: node_defs intro: retried)
next
  case (task_caught l' inp res n st' err cat e c cs)
  with assms(2) show ?thesis by (auto simp: node_defs move_def split: option.splits intro!: failed)
qed (use assms(2) in \<open>auto simp: node_defs\<close>)

lemma path_put_other: "path_put [k] w v = Some v' \<Longrightarrow> k' \<noteq> k \<Longrightarrow> path_get [k'] v' = path_get [k'] v"
  by (cases v) (auto simp: update_conv)

lemma slack_keepsD:
  "slack_keeps F \<Longrightarrow> F SlackNotifications v x = (Inr out, y) \<Longrightarrow> k \<noteq> ''channels'' \<Longrightarrow> path_get [k] out = path_get [k] v"
  unfolding slack_keeps_def by blast

lemma step_slack:
  assumes "sm_step F V x y" and "sm_node V (current x) = slack_task st" and "slack_keeps F"
  obtains (sent) "current y = st" "attempts y = 0"
      "\<And>k. k \<notin> {''channels'', ''error-info''} \<Longrightarrow> path_get [k] (document y) = path_get [k] (document x)"
    | (aborted) "current y = Aborted" "attempts y = 0"
  using assms(1)
proof (cases rule: sm_step.cases)
  case (task_done l' inp res n st' err cat v out z)
  with assms(2) have run: "F SlackNotifications (document x) x = (Inr out, z)"
    and y: "y = x\<lparr>calls := calls z, current := st, document := out, attempts := 0\<rparr>" by (simp_all add: node_defs)
  show ?thesis by (rule sent) (use slack_keepsD [OF assms(3) run] in \<open>simp_all add: y\<close>)
next
  case (task_caught l' inp res n st' err cat e c cs)
  show ?thesis
  proof (cases "path_put error_path (error_info e c) (document x)")
    case None
    with task_caught assms(2) show ?thesis by (auto simp: node_defs intro: aborted)
  next
    case (Some v)
    from path_put_other [OF Some [unfolded error_path_def]]
    have "k \<noteq> ''error-info'' \<Longrightarrow> path_get [k] v = path_get [k] (document x)" for k by blast
    moreover have "y = x\<lparr>calls := calls x @ cs, current := st, document := v, attempts := 0\<rparr>"
      using Some task_caught assms(2) by (auto simp: node_defs)
    ultimately show ?thesis by (intro sent) (simp_all)
  qed
qed (use assms(2) in \<open>auto simp: node_defs\<close>)

lemma step_choice:
  assumes "sm_step F V x y" and "sm_node V (current x) = Choice rs dflt"
  shows "attempts y = 0 \<and>
    (case choice_of rs dflt (document x) of
       None \<Rightarrow> current y = Aborted
     | Some st \<Rightarrow> current y = st \<and> document y = document x)"
  using assms(1) by (cases rule: sm_stepE) (use assms(2) in \<open>auto split: option.splits\<close>)

lemma step_wait:
  assumes "sm_step F V x y" and "sm_node V (current x) = Wait n st"
  shows "current y = st \<and> document y = document x \<and> attempts y = 0"
  using assms(1) by (cases rule: sm_stepE) (use assms(2) in auto)

lemma step_pass:
  assumes "sm_step F V x y" and "sm_node V (current x) = Pass f st"
  shows "attempts y = 0 \<and>
    (case f (document x) of None \<Rightarrow> current y = Aborted | Some v \<Rightarrow> current y = st \<and> document y = v)"
  using assms(1) by (cases rule: sm_stepE) (use assms(2) in \<open>auto simp: move_def split: option.splits\<close>)

lemma step_end: "sm_node V (current x) \<in> {Succeed, Fail} \<Longrightarrow> \<not> sm_step F V x y"
  by (auto elim: sm_stepE)

text \<open>An invariant of the steps is one of the executions.\<close>

lemma execution_invariant:
  "(sm_step F V)\<^sup>*\<^sup>* x y \<Longrightarrow> P x \<Longrightarrow> (\<And>u v. sm_step F V u v \<Longrightarrow> P u \<Longrightarrow> P v) \<Longrightarrow> P y"
  by (induction rule: rtranclp_induct) auto

section \<open>Running an execution\<close>

text \<open>
  The step that an execution takes when every service answers: a task returns, or raises and is
  caught. It never gets stuck before an end.
\<close>

definition advance :: "lambda_code \<Rightarrow> variables \<Rightarrow> execution \<Rightarrow> execution" where
  "advance F V x =
     (case sm_node V (current x) of
        Task l inp res n st err cat \<Rightarrow>
          (case path_get inp (document x) of
             None \<Rightarrow> move None st x
           | Some v \<Rightarrow>
               (case F l v x of
                  (Inr out, y) \<Rightarrow> move (path_put res out (document x)) st (x\<lparr>calls := calls y\<rparr>)
                | (Inl e, y) \<Rightarrow>
                    move (path_put err (error_info (exn_class_name (exn_cls e)) (exn_str e)) (document x)) cat
                      (x\<lparr>calls := calls x @ drop (length (calls x)) (calls y)\<rparr>)))
      | Pass f st \<Rightarrow> move (f (document x)) st x
      | Wait n st \<Rightarrow> move (Some (document x)) st (x\<lparr>calls := calls x @ [Sleep n]\<rparr>)
      | Choice rs dflt \<Rightarrow>
          (case choice_of rs dflt (document x) of None \<Rightarrow> move None dflt x | Some st \<Rightarrow> move (Some (document x)) st x)
      | _ \<Rightarrow> x)"

lemma advance_step:
  assumes "current x \<notin> {SuccessState, FailState, Aborted}"
  shows "sm_step F V x (advance F V x)"
proof (cases "sm_node V (current x)")
  case (Task l inp res n st err cat)
  show ?thesis
  proof (cases "path_get inp (document x)")
    case None
    with Task task_input [OF Task None] show ?thesis by (simp add: advance_def)
  next
    case (Some v)
    obtain r y where run: "F l v x = (r, y)" by fastforce
    show ?thesis
    proof (cases r)
      case (Inl e)
      with Some run show ?thesis
        unfolding advance_def Task by (auto intro: task_caught [OF Task])
    next
      case (Inr out)
      with Some run show ?thesis
        unfolding advance_def Task by (auto intro: task_done [OF Task])
    qed
  qed
next
  case (Pass f st)
  then show ?thesis using passed [OF Pass] by (simp add: advance_def)
next
  case (Wait n st)
  then show ?thesis using waited [OF Wait] by (simp add: advance_def)
next
  case (Choice rs dflt)
  then show ?thesis using chosen [OF Choice, of F] by (simp add: advance_def del: move_simps)
next
  case Succeed
  with assms show ?thesis by (cases "current x") (auto simp: node_defs Let_def)
next
  case Fail
  with assms show ?thesis by (cases "current x") (auto simp: node_defs Let_def)
qed

fun drive :: "nat \<Rightarrow> lambda_code \<Rightarrow> variables \<Rightarrow> execution \<Rightarrow> execution" where
  "drive 0 F V x = x"
| "drive (Suc n) F V x =
     (if current x \<in> {SuccessState, FailState, Aborted} then x else drive n F V (advance F V x))"

lemma drive_steps: "(sm_step F V)\<^sup>*\<^sup>* x (drive n F V x)"
proof (induction n arbitrary: x)
  case (Suc n)
  then show ?case using advance_step [of x F V] by (auto intro: converse_rtranclp_into_rtranclp)
qed simp

lemma drive_ends:
  "current (drive n F V x) \<in> {SuccessState, FailState, Aborted} \<or> (sm_step F V ^^ n) x (drive n F V x)"
proof (induction n arbitrary: x)
  case (Suc n)
  then show ?case
    using advance_step [of x F V] by (auto simp: relpowp_Suc_right simp del: relpowp.simps intro: relpowp_Suc_I2)
qed simp

section \<open>A sample of the code behind the tasks\<close>

text \<open>
  The repository's Lambdas; the others pass their event on. The sample of the standard strategy runs
  on a site whose only group is scaled down to 0.
\<close>

definition sample_lambdas :: "env \<Rightarrow> lambda_code" where
  "sample_lambdas E l v =
     (case l of
        AutorecycleLambda \<Rightarrow> sqs_lambda_handler E v
      | MonitorLambda \<Rightarrow> monitor_lambda_handler E v
      | ScaleAsgLambda \<Rightarrow> scale_lambda_handler E no_pattern strict_validate v
      | MongoLambda \<Rightarrow> mongo_lambda_handler E (retry_now 9) v
      | _ \<Rightarrow> io_return v)"

definition sample_variables :: variables where
  "sample_variables = \<lparr>tf_slack_channel = ''event-autorecycling'', tf_slack_error_channel = ''team-infra-alerts'',
     tf_environment = ''qa'', tf_start_name = ''start'', tf_cancel_name = ''cancel'', tf_status_name = ''status'',
     tf_runbook_url = ''runbook''\<rparr>"

definition sample_start :: "(string \<times> pyval) list \<Rightarrow> execution" where
  "sample_start d = \<lparr>calls = [], current = ChooseStrategy, document = PDict d, attempts = 0\<rparr>"

definition scaled_down_site :: env where
  "scaled_down_site = \<lparr>reply = (\<lambda>h c. case c of
       DescribeAutoScalingGroups \<Rightarrow>
         Inr (pages_json [[\<lparr>group_name = ''api-asg-1'', max_size = 0, members = []\<rparr>]])
     | FilterInstances _ \<Rightarrow> Inr (PList [])
     | _ \<Rightarrow> Inr PNone),
     environ = (\<lambda>_. None)\<rparr>"

lemma scaled_down_check:
  "check scaled_down_site (PStr ''api'') s = (Inl (Exn ScaledDownASGException None), s\<lparr>calls := calls s @ [DescribeAutoScalingGroups]\<rparr>)"
  by (simp add: check_def monitor_describe_asg_def io_eval scaled_down_site_def monitor_find_asg_json py_str_def)

lemma scaled_down_monitor:
  "monitored d n \<Longrightarrow> n < 20 \<Longrightarrow> map_of d ''component'' = Some (PStr ''api'') \<Longrightarrow>
   \<exists>out. monitor_lambda_handler scaled_down_site (PDict d) s =
      (Inr (PDict out), s\<lparr>calls := calls s @ [DescribeAutoScalingGroups]\<rparr>) \<and> reported d n True out"
  using monitor_below_limit [of d n "PStr ''api''" scaled_down_site s] by (simp add: scaled_down_check)

lemma sample_slack: "slack_keeps (sample_lambdas E)"
  by (simp add: slack_keeps_def sample_lambdas_def io_return_def)

lemma sqs_log: "footprint (sqs_lambda_handler E v) UNIV"
proof -
  have "footprint (send_to_sqs E c a ch) UNIV" for c a ch
    by (rule footprintI) (simp add: send_to_sqs_run extends_def)
  then show ?thesis unfolding sqs_lambda_handler_def by (intro footprint_intros)
qed

lemma monitor_log: "footprint (monitor_lambda_handler E v) UNIV"
  unfolding monitor_lambda_handler_def monitor_autorecycle_def check_def monitor_describe_asg_def monitor_scaling_activities_def
  by (intro footprint_intros) simp_all

lemma scale_log: "footprint (scale_lambda_handler E compile validate v) UNIV"
proof -
  have act: "footprint (execute_scaling_policy E a p) UNIV" for a p
    unfolding execute_scaling_policy_def by (intro footprint_intros) simp
  have "footprint (scale_groups E compile e flds out) UNIV" for e flds out
    unfolding scale_groups_def scale_next_def
    by (intro footprint_intros act footprint_mono [OF next_action_footprint] footprint_mono [OF activity_details_footprint]
        footprint_mono [OF describe_asg_footprint]) simp_all
  then have run: "footprint (scale_asg E compile e) UNIV" for e
    unfolding scale_asg_def Let_def by (intro footprint_intros)
  show ?thesis
    unfolding scale_lambda_handler_def handle_event_def Let_def by (intro footprint_intros run)
qed

lemma mongo_log:
  assumes "bounded_retry retry 10"
  shows "footprint (mongo_lambda_handler E retry v) UNIV"
proof -
  have "footprint (record_recycle_starting E c) UNIV" for c
    by (rule footprintI) (metis record_extends prod.collapse)
  then show ?thesis
    unfolding mongo_lambda_handler_def
    by (intro footprint_intros footprint_mono [OF step_footprint [OF assms]]) simp_all
qed

lemma sample_log: "keeps_log (sample_lambdas E)"
proof -
  have "footprint (sample_lambdas E l v) UNIV" for l v
    by (cases l) (simp_all add: sample_lambdas_def footprint_return sqs_log scale_log monitor_log mongo_log retry_now_bounded)
  then show ?thesis by (simp add: keeps_log_def)
qed

end
