(* ===== verification/MachineOutcome.thy ===== *)
theory MachineOutcome
  imports StateMachine
begin

text \<open>
  What an execution of the state machine that succeeds has done: an invariant per strategy, kept by
  every step, whose case at \<open>Success\<close> is the property. \<open>ending\<close> is the part that the strategies share, from
  the last message on; \<open>since\<close> is what the steps before it keep.
\<close>

section \<open>What an execution that succeeds has done\<close>

text \<open>A document with the status \<open>fail\<close> can only end in the state \<open>Fail\<close>.\<close>

definition failing :: "pyval \<Rightarrow> bool" where
  "failing v = (path_get [''status''] v = Some (PStr ''fail''))"

text \<open>
  From a last message on: what holds then stays until the end, or the status is \<open>fail\<close> and the end
  is not a success. \<open>same_fields\<close> is what a message to Slack keeps of the document.
\<close>

definition ending :: "(execution \<Rightarrow> bool) \<Rightarrow> execution \<Rightarrow> bool" where
  "ending good x =
     (case current x of
        LambdaErrored \<Rightarrow> True
      | SlackEnd \<Rightarrow> failing (document x) \<or> good x
      | StatusChoice \<Rightarrow> failing (document x) \<or> good x
      | SuccessState \<Rightarrow> good x
      | FailState \<Rightarrow> True
      | Aborted \<Rightarrow> True
      | _ \<Rightarrow> False)"

definition same_fields :: "execution \<Rightarrow> execution \<Rightarrow> bool" where
  "same_fields x y = (\<forall>k. k \<notin> {''channels'', ''error-info''} \<longrightarrow> path_get [k] (document y) = path_get [k] (document x))"

lemma same_fieldsD: "same_fields x y \<Longrightarrow> k \<notin> {''channels'', ''error-info''} \<Longrightarrow> path_get [k] (document y) = path_get [k] (document x)"
  unfolding same_fields_def by blast

lemma same_document: "document y = document x \<Longrightarrow> same_fields x y"
  by (simp add: same_fields_def)

lemma failing_kept: "same_fields x y \<Longrightarrow> failing (document x) \<Longrightarrow> failing (document y)"
  using same_fieldsD [of x y "''status''"] by (simp add: failing_def)

lemma lambda_error_failing: "lambda_error_arguments V v = Some w \<Longrightarrow> failing w"
  by (auto simp: lambda_error_arguments_def failing_def)

lemma ending_step:
  assumes "sm_step F V x y" and "ending good x" and "slack_keeps F" and "same_fields x y \<Longrightarrow> good x \<Longrightarrow> good y"
  shows "ending good y"
proof -
  from assms(2) consider "current x = LambdaErrored" | "current x = SlackEnd" | "current x = StatusChoice"
    | "current x \<in> {SuccessState, FailState, Aborted}"
    by (auto simp: ending_def split: sm_state.splits)
  then show ?thesis
  proof cases
    case 1
    with step_pass [OF assms(1), of "lambda_error_arguments V" SlackEnd] lambda_error_failing show ?thesis
      by (auto simp: ending_def split: option.splits)
  next
    case 2
    then have node: "sm_node V (current x) = slack_task StatusChoice" by simp
    from assms(2) 2 have "failing (document x) \<or> good x" by (simp add: ending_def)
    then show ?thesis
      by (cases rule: step_slack [OF assms(1) node assms(3)])
        (use assms(4) failing_kept [of x y] in \<open>auto simp: ending_def same_fields_def\<close>)
  next
    case 3
    with step_choice [OF assms(1), of "[(StringEquals [''status''] ''fail'', FailState)]" SuccessState] assms(2,4)
      same_document [of y x] show ?thesis
      by (auto simp: ending_def failing_def split: option.splits if_splits bool.splits)
  next
    case 4
    with step_end [of V x F y] assms(1) show ?thesis by auto
  qed
qed

text \<open>
  C21. A Lambda error is never lost: an execution that came to \<open>Lambda Error\<close> does not end as a success.
\<close>

theorem lambda_error_fails:
  assumes "slack_keeps F" and "(sm_step F V)\<^sup>*\<^sup>* x y" and "current x = LambdaErrored"
  shows "current y \<noteq> SuccessState"
proof -
  have "ending (\<lambda>_. False) y"
    by (rule execution_invariant [OF assms(2)])
      (use assms in \<open>auto simp: ending_def [of _ x] intro: ending_step\<close>)
  then show ?thesis by (auto simp: ending_def)
qed

text \<open>
  \<open>since x0 x\<close>: what the steps of an execution that started as \<open>x0\<close> keep up to its last message, whatever
  fails in between.
\<close>

definition since :: "execution \<Rightarrow> execution \<Rightarrow> bool" where
  "since x0 x = (extends UNIV x0 x \<and> path_get [''component''] (document x) = path_get [''component''] (document x0))"

lemma since_step:
  "since x0 x \<Longrightarrow> keeps_log F \<Longrightarrow> sm_step F V x y \<Longrightarrow>
   path_get [''component''] (document y) = path_get [''component''] (document x) \<Longrightarrow> since x0 y"
  by (auto simp: since_def intro: extends_trans step_log)

lemma since_same: "since x0 x \<Longrightarrow> keeps_log F \<Longrightarrow> sm_step F V x y \<Longrightarrow> same_fields x y \<Longrightarrow> since x0 y"
  by (rule since_step) (simp_all add: same_fields_def)

lemma same_calls: "calls t = calls s \<Longrightarrow> extends UNIV s t"
  by (simp add: extends_def)

section \<open>The Mongo recycler\<close>

text \<open>The runs of the Mongo recycler, and what they have decided.\<close>

definition mongo_done :: "pyval \<Rightarrow> bool" where
  "mongo_done v = (path_get [''decision'', ''action''] v = Some (PStr DONE))"

lemma path_get_two:
  "path_get [k, k'] v = (case path_get [k] v of None \<Rightarrow> None | Some w \<Rightarrow> path_get [k'] w)"
  by (cases v) (auto simp: path_get.simps(2) split: option.splits)

text \<open>The recycle of \<open>c\<close> was found complete after \<open>x0\<close>.\<close>

definition mongo_found :: "env \<Rightarrow> unit execution_ext retrier \<Rightarrow> execution \<Rightarrow> execution \<Rightarrow> bool" where
  "mongo_found E retry x0 x =
     (mongo_done (document x) \<and>
      (\<exists>c. path_get [''component''] (document x0) = Some (PStr c) \<and> all_current E retry c x0 x))"

lemma mongo_found_kept:
  assumes "mongo_found E retry x0 x" and "same_fields x y" and "extends UNIV x y"
  shows "mongo_found E retry x0 y"
  using assms(1) same_fieldsD [OF assms(2), of "''decision''"] all_current_after [OF _ assms(3)]
  by (auto simp: mongo_found_def mongo_done_def path_get_two)

definition mongo_running :: "env \<Rightarrow> unit execution_ext retrier \<Rightarrow> execution \<Rightarrow> execution \<Rightarrow> bool" where
  "mongo_running E retry x0 x =
     (since x0 x \<and> current x = ChooseStrategy \<and> path_get [''strategy''] (document x) = Some (PStr ''mongo'') \<or>
      since x0 x \<and> current x \<in> {MongoRecycle, SlackMongo, RecycleMongo, WaitMongo} \<or>
      since x0 x \<and> current x = MongoAutorecycleDecision \<and> (mongo_done (document x) \<longrightarrow> mongo_found E retry x0 x) \<or>
      ending (mongo_found E retry x0) x)"

text \<open>The task of the Mongo recycler: a run that decides \<open>DONE\<close> has found the recycle complete.\<close>

lemma mongo_task:
  assumes "bounded_retry retry 10" and "mongo_lambda_handler E retry (document x) x = (Inr out, z)"
    and "since x0 x" and "document y = out" and "calls y = calls z"
  shows "since x0 y \<and> (mongo_done out \<longrightarrow> mongo_found E retry x0 y)"
  using assms(1,2)
proof (rule handler_done)
  fix e o' c d
  assume e: "document x = PDict e" "map_of e ''component'' = Some (PStr c)"
    and o': "out = PDict o'" "map_of o' ''component'' = Some (PStr c)" "map_of o' ''decision'' = Some (decision_json d)"
    and found: "action d = DONE \<Longrightarrow> all_current E retry c x z"
  from footprintD [OF mongo_log [OF assms(1)], of x E "document x"] assms(2,5) have log: "extends UNIV x y"
    by (simp add: extends_def)
  from assms(3) have x0: "extends UNIV x0 x" "path_get [''component''] (document x0) = Some (PStr c)"
    using e by (simp_all add: since_def)
  have "mongo_found E retry x0 y" if "mongo_done out"
  proof -
    from that o' have "action d = DONE" by (simp add: mongo_done_def path_get.simps(2) decision_json_def)
    from all_current_after [OF all_current_before [OF found [OF this] x0(1)] same_calls [OF assms(5)]] that x0(2) assms(4)
    show ?thesis by (simp add: mongo_found_def)
  qed
  with log x0 assms(3,4) o' show ?thesis by (auto simp: since_def intro: extends_trans)
qed

lemma mongo_running_step:
  assumes "sm_step F V x y" and "mongo_running E retry x0 x" and "slack_keeps F" and "keeps_log F"
    and "F MongoLambda = mongo_lambda_handler E retry" and "bounded_retry retry 10"
  shows "mongo_running E retry x0 y"
proof -
  note step = since_step [OF _ assms(4,1)]
  from assms(2) consider "since x0 x" "current x = ChooseStrategy" "path_get [''strategy''] (document x) = Some (PStr ''mongo'')"
    | "since x0 x" "current x = MongoRecycle" | "since x0 x" "current x = SlackMongo" | "since x0 x" "current x = RecycleMongo"
    | "since x0 x" "current x = MongoAutorecycleDecision" "mongo_done (document x) \<longrightarrow> mongo_found E retry x0 x"
    | "since x0 x" "current x = WaitMongo" | "ending (mongo_found E retry x0) x"
    by (auto simp: mongo_running_def)
  then show ?thesis
  proof cases
    case 1
    from step_choice [OF assms(1)] 1 step show ?thesis by (auto simp: mongo_running_def)
  next
    case 2
    from step_pass [OF assms(1)] 2 step show ?thesis
      by (auto simp: mongo_running_def ending_def slack_arguments_def split: option.splits)
  next
    case 3
    then have node: "sm_node V (current x) = slack_task RecycleMongo" by simp
    show ?thesis by (cases rule: step_slack [OF assms(1) node assms(3)]) (use 3 step in \<open>auto simp: mongo_running_def ending_def\<close>)
  next
    case 4
    then have node: "sm_node V (current x) = lambda_task MongoLambda MongoAutorecycleDecision" by simp
    show ?thesis
      by (cases rule: step_lambda [OF assms(1) node])
        (use 4 step assms(5) mongo_task [OF assms(6) _ 4(1)] in \<open>auto simp: mongo_running_def ending_def\<close>)
  next
    case 5
    from step_choice [OF assms(1)] 5 step mongo_found_kept [OF _ same_document step_log [OF assms(4,1)]] show ?thesis
      by (auto simp: mongo_running_def ending_def mongo_done_def split: option.splits if_splits bool.splits)
  next
    case 6
    from step_wait [OF assms(1)] 6 step show ?thesis by (auto simp: mongo_running_def)
  next
    case 7
    from ending_step [OF assms(1) 7 assms(3) mongo_found_kept [OF _ _ step_log [OF assms(4,1)]]]
    show ?thesis by (simp add: mongo_running_def)
  qed
qed

lemma mongo_success_found:
  assumes "slack_keeps F" and "keeps_log F" and "F MongoLambda = mongo_lambda_handler E retry" and "bounded_retry retry 10"
    and "(sm_step F V)\<^sup>*\<^sup>* x y" and "current x = ChooseStrategy"
    and "path_get [''strategy''] (document x) = Some (PStr ''mongo'')" and "current y = SuccessState"
  shows "mongo_found E retry x y"
proof -
  have "mongo_running E retry x y"
    by (rule execution_invariant [OF assms(5)])
      (use assms(1-4,6,7) in \<open>auto simp: mongo_running_def [of _ _ x x] since_def intro: mongo_running_step\<close>)
  with assms(8) show ?thesis by (auto simp: mongo_running_def ending_def)
qed

text \<open>
  C8. An execution with the strategy \<open>mongo\<close> succeeds only when a run of the Mongo recycler on the
  component it was started for decided \<open>DONE\<close>, whatever failed in between: after the start the AMIs of
  the launch templates matched, the status of the replica set was read, no primary or secondary
  in it ran another image, and after that chaining was found or set allowed.
\<close>

theorem mongo_success_done:
  assumes "slack_keeps F" and "keeps_log F" and "F MongoLambda = mongo_lambda_handler E retry" and "bounded_retry retry 10"
    and "(sm_step F V)\<^sup>*\<^sup>* x y" and "current x = ChooseStrategy"
    and "path_get [''strategy''] (document x) = Some (PStr ''mongo'')" and "current y = SuccessState"
  shows "path_get [''decision'', ''action''] (document y) = Some (PStr DONE) \<and>
    (\<exists>c ami st v u names cs k w. path_get [''component''] (document x) = Some (PStr c) \<and>
       extends UNIV x v \<and> cleared E retry c v ami st u \<and>
       filter (\<lambda>i. mongo_state i \<in> {''PRIMARY'', ''SECONDARY''} \<and> \<not> py_eq (image_id i) ami) st = [] \<and>
       chaining_log E cs True (calls u @ [DescribeInstancesByName names]) k (calls w) \<and> extends UNIV w y)"
  using mongo_success_found [OF assms] unfolding mongo_found_def mongo_done_def all_current_def by blast

section \<open>The counted loops\<close>

text \<open>The number of runs a document counts.\<close>

definition runs_counted :: "pyval \<Rightarrow> int option" where
  "runs_counted v = (case path_get [''counter''] v of None \<Rightarrow> Some 0 | Some (PInt n) \<Rightarrow> Some n | _ \<Rightarrow> None)"

lemma set_item_get: "py_set_item obj k w = Inr out \<Longrightarrow> path_get [k'] out = (if k' = k then Some w else path_get [k'] obj)"
  using py_set_item_Inr [of obj k w out] by (auto simp: update_conv')

lemma set_content_get: "set_content key w obj = Inr out \<Longrightarrow> k \<noteq> ''message_content'' \<Longrightarrow> path_get [k] out = path_get [k] obj"
  by (auto simp: set_content_def res_bind_eq_Inr set_item_get)

lemma default_item_get: "default_item key w obj = Inr out \<Longrightarrow> k \<noteq> key \<Longrightarrow> path_get [k] out = path_get [k] obj"
  by (auto simp: default_item_def res_bind_eq_Inr set_item_get split: if_splits)

lemma py_item_get: "py_item v k = Inr w \<Longrightarrow> path_get [k] v = Some w"
  by (auto simp: py_item_def split: pyval.splits option.splits)

lemma default_item_present:
  "default_item key w obj = Inr out \<Longrightarrow> path_get [key] out = Some u \<Longrightarrow>
   u = (case path_get [key] obj of None \<Rightarrow> w | Some x \<Rightarrow> x)"
  by (cases obj) (auto simp: default_item_def res_bind_eq_Inr py_in_def py_set_item_def update_conv' split: if_splits option.splits)

lemma count_run_count:
  assumes "count_run v = Inr out" and "runs_counted v = Some n"
  shows "path_get [''counter''] out = Some (PInt (n + 1))"
proof -
  from assms(1) obtain out1 out2 c c' where
    run: "default_item ''message_content'' (PDict []) v = Inr out1" "default_item ''counter'' (PInt 0) out1 = Inr out2"
      "py_item out2 ''counter'' = Inr c" "py_add_one c = Inr c'" "py_set_item out2 ''counter'' c' = Inr out"
    by (auto simp: count_run_def res_bind_eq_Inr)
  from default_item_get [OF run(1), of "''counter''"] have "path_get [''counter''] out1 = path_get [''counter''] v"
    by (simp)
  with default_item_present [OF run(2) py_item_get [OF run(3)]] assms(2) have "c = PInt n"
    by (auto simp: runs_counted_def split: option.splits pyval.splits)
  with run(4) set_item_get [OF run(5), of "''counter''"] show ?thesis
    by (simp add: py_add_one_def)
qed

lemma give_up_get:
  assumes "give_up obj = Inr out"
  shows "failing out \<and> path_get [''counter''] out = path_get [''counter''] obj"
  using assms
  by (auto simp: give_up_def res_bind_eq_Inr failing_def set_item_get set_content_get)

lemma finished_get:
  assumes "finished txt obj = Inr out"
  shows "path_get [''recycle_success''] out = Some (PBool True) \<and> path_get [''counter''] out = path_get [''counter''] obj"
  using assms by (auto simp: finished_def res_bind_eq_Inr set_item_get set_content_get)

definition recycled :: "pyval \<Rightarrow> bool" where
  "recycled v = (path_get [''recycle_success''] v = Some (PBool True))"

text \<open>
  A run of the monitor counts once, and reports a failure as soon as the state machine would end
  its loop without a success.
\<close>

lemma monitor_report:
  assumes "monitor_lambda_handler E v x = (Inr out, y)"
  shows "failing out \<or> recycled out \<or> holds (NumericGreaterThan [''counter''] 20) out \<noteq> Some True"
    and "runs_counted v = Some n \<Longrightarrow> path_get [''counter''] out = Some (PInt (n + 1))"
proof -
  let ?report = "\<lambda>out _. (failing out \<or> recycled out \<or> holds (NumericGreaterThan [''counter''] 20) out \<noteq> Some True) \<and>
    (runs_counted v = Some n \<longrightarrow> path_get [''counter''] out = Some (PInt (n + 1)))"
  have stays: "holds (NumericGreaterThan [''counter''] 20) out \<noteq> Some True"
    if "py_num_lt (PInt 20) c = Inr False" "path_get [''counter''] out = Some c" for c out
    using that by (cases c) (auto simp: py_num_lt_def json_number_def)
  have run: "wp (monitor_autorecycle E v) ?report (\<lambda>_ _. True) x"
  proof (cases "\<exists>out1 c b. count_run v = Inr out1 \<and> py_item out1 ''counter'' = Inr c \<and> py_num_lt (PInt 20) c = Inr b")
    case False
    then show ?thesis
      by (cases "count_run v") (auto simp: monitor_autorecycle_def wp_simps res_bind_def split: sum.splits)
  next
    case True
    then obtain out1 c b where
      out1: "count_run v = Inr out1" "py_item out1 ''counter'' = Inr c" "py_num_lt (PInt 20) c = Inr b" by blast
    have success: "finished msg out1 = Inr out \<Longrightarrow> ?report out t" for msg out and t :: "'a world_scheme"
      using finished_get [of msg out1 out] count_run_count [OF out1(1)] by (auto simp: recycled_def)
    have unfinished: "py_set_item out1 ''recycle_success'' w = Inr out \<Longrightarrow> b = False \<Longrightarrow> ?report out t"
      for w out and t :: "'a world_scheme"
      using stays [of c out] out1(3) py_item_get [OF out1(2)] set_item_get [of out1 "''recycle_success''" w out "''counter''"]
        count_run_count [OF out1(1)] by (auto simp del: holds.simps)
    show ?thesis
    proof (cases b)
      case True
      with out1 give_up_get [of out1] count_run_count [OF out1(1)] show ?thesis
        by (auto simp: monitor_autorecycle_def wp_simps split: sum.splits)
    next
      case False
      have "wp (io_catch_class ScaledDownASGException
         (io_bind (io_res (py_item out1 ''component'')) (\<lambda>component.
          io_bind (check E component) (\<lambda>complete.
          io_res
            (if complete then finished ''Autorecycling has successfully completed'' out1
             else py_set_item out1 ''recycle_success'' (PBool False)))))
         (\<lambda>_. io_res (finished ''The ASG is scaled down to 0 instances, auto-recycling is not required'' out1)))
         ?report (\<lambda>_ _. True) t" for t
        by (intro wp_catch_any wp_bind_any)
          (auto simp: wp_res success unfinished False split: sum.splits simp del: holds.simps)
      with False out1 show ?thesis by (simp add: monitor_autorecycle_def wp_bind wp_res wp_if)
    qed
  qed
  then show "failing out \<or> recycled out \<or> holds (NumericGreaterThan [''counter''] 20) out \<noteq> Some True"
    and "runs_counted v = Some n \<Longrightarrow> path_get [''counter''] out = Some (PInt (n + 1))"
    using assms by (auto simp: monitor_lambda_handler_def io_bind_def io_res_def io_raise_def wp_def split: sum.splits if_splits)
qed

text \<open>
  What a run of the monitor that reports a recycle has seen: \<open>completed E c s t\<close>, a check of \<open>c\<close> from \<open>s\<close> to \<open>t\<close>
  that found the recycle complete, or the group scaled down to nothing.
\<close>

definition completed :: "env \<Rightarrow> pyval \<Rightarrow> 'z world_scheme \<Rightarrow> 'z world_scheme \<Rightarrow> bool" where
  "completed E c s t =
     (\<exists>r. check E c s = (r, t) \<and> (case r of Inr complete \<Rightarrow> complete | Inl e \<Rightarrow> exn_cls e = ScaledDownASGException))"

lemma count_run_keeps:
  assumes "count_run v = Inr out"
  shows "path_get [''component''] out = path_get [''component''] v \<and> (\<exists>d. out = PDict d)"
  using assms by (auto simp: count_run_def res_bind_eq_Inr set_item_get dest!: default_item_get [where k = "''component''"] dest: py_set_item_Inr)

lemma finished_keeps: "finished msg v = Inr out \<Longrightarrow> path_get [''component''] out = path_get [''component''] v"
  by (auto simp: finished_def res_bind_eq_Inr set_item_get set_content_get)

lemma give_up_keeps: "give_up v = Inr out \<Longrightarrow> path_get [''component''] out = path_get [''component''] v"
  by (auto simp: give_up_def res_bind_eq_Inr set_item_get set_content_get)

lemma py_item_class: "py_item v k = Inl e \<Longrightarrow> exn_cls e \<noteq> ScaledDownASGException"
  by (auto simp: py_item_def type_error_def split: pyval.splits option.splits)

lemma monitor_completed:
  assumes "monitor_lambda_handler E v x = (Inr out, y)"
  shows "path_get [''component''] out = path_get [''component''] v \<and>
    (recycled out \<longrightarrow> failing out \<or> (\<exists>c. path_get [''component''] v = Some c \<and> completed E c x y))"
proof -
  from assms obtain out1 b where out1: "count_run v = Inr out1" and
    run: "(if b then io_res (give_up out1) else
       io_catch_class ScaledDownASGException
         (io_bind (io_res (py_item out1 ''component'')) (\<lambda>component.
          io_bind (check E component) (\<lambda>complete.
          io_res
            (if complete then finished ''Autorecycling has successfully completed'' out1
             else py_set_item out1 ''recycle_success'' (PBool False)))))
         (\<lambda>_. io_res (finished ''The ASG is scaled down to 0 instances, auto-recycling is not required'' out1))) x = (Inr out, y)"
    by (auto simp: monitor_lambda_handler_def monitor_autorecycle_def io_bind_def io_res_def io_raise_def split: sum.splits if_splits)
  from count_run_keeps [OF out1] obtain d where
    d: "out1 = PDict d" and keeps: "path_get [''component''] out1 = path_get [''component''] v" by blast
  show ?thesis
  proof (cases b)
    case True
    with run keeps show ?thesis by (auto simp: io_res_def dest: give_up_get give_up_keeps)
  next
    case False
    show ?thesis
    proof (cases "py_item out1 ''component''")
      case (Inl e)
      with run False py_item_class show ?thesis by (auto simp: io_eval)
    next
      case (Inr c)
      with keeps have c: "path_get [''component''] v = Some c" by (simp add: py_item_get)
      obtain r w where check: "check E c x = (r, w)" by fastforce
      have "recycled out \<Longrightarrow> case r of Inr complete \<Rightarrow> complete | Inl e \<Rightarrow> exn_cls e = ScaledDownASGException"
        and "w = y" and "path_get [''component''] out = path_get [''component''] v"
        using run False Inr check keeps
        by (auto simp: io_eval d py_set_item_def recycled_def update_conv' split: sum.splits if_splits dest!: finished_keeps)
      with c check show ?thesis by (auto simp: completed_def)
    qed
  qed
qed

definition standard_strategy :: "pyval \<Rightarrow> bool" where
  "standard_strategy v = (case path_get [''strategy''] v of
     None \<Rightarrow> False | Some s \<Rightarrow> s \<notin> {PStr ''in-out'', PStr ''mongo'', PStr ''instance-refresh''})"

definition standard_found :: "env \<Rightarrow> execution \<Rightarrow> execution \<Rightarrow> bool" where
  "standard_found E x0 x =
     (recycled (document x) \<and>
      (\<exists>c u w. path_get [''component''] (document x0) = Some c \<and> extends UNIV x0 u \<and> completed E c u w \<and> extends UNIV w x))"

lemma standard_found_kept:
  assumes "standard_found E x0 x" and "same_fields x y" and "extends UNIV x y"
  shows "standard_found E x0 y"
  using assms(1) same_fieldsD [OF assms(2), of "''recycle_success''"] extends_trans [OF _ assms(3)]
  unfolding standard_found_def recycled_def by auto

definition standard_running :: "env \<Rightarrow> execution \<Rightarrow> execution \<Rightarrow> bool" where
  "standard_running E x0 x =
     (since x0 x \<and> current x = ChooseStrategy \<and> standard_strategy (document x) \<or>
      since x0 x \<and> current x \<in> {StandardRecycle, SlackStart, WaitCommencement, MonitorAutorecycling, WaitAutorecycle} \<or>
      since x0 x \<and> current x = IsAutorecyclingDone \<and>
        (recycled (document x) \<longrightarrow> failing (document x) \<or> standard_found E x0 x) \<and>
        (failing (document x) \<or> recycled (document x) \<or> holds (NumericGreaterThan [''counter''] 20) (document x) \<noteq> Some True) \<or>
      ending (standard_found E x0) x)"

text \<open>The tasks of the strategy keep the component, and a run of the monitor reports what its check found.\<close>

lemma sqs_keeps:
  assumes "sqs_lambda_handler E v x = (Inr out, y)"
  shows "path_get [''component''] out = path_get [''component''] v"
  using assms
  by (auto simp: sqs_lambda_handler_def io_bind_def io_res_def send_to_sqs_run sqs_output_def Let_def py_item_get
      split: sum.splits)

lemma monitor_task:
  assumes "monitor_lambda_handler E (document x) x = (Inr out, z)" and "since x0 x" and "document y = out" and "calls y = calls z"
  shows "since x0 y \<and> (recycled out \<longrightarrow> failing out \<or> standard_found E x0 y)"
proof -
  from monitor_completed [OF assms(1)] have
    keeps: "path_get [''component''] out = path_get [''component''] (document x)" and
    found: "recycled out \<Longrightarrow> \<not> failing out \<Longrightarrow> \<exists>c. path_get [''component''] (document x) = Some c \<and> completed E c x z"
    by auto
  from footprintD [OF monitor_log, of x E "document x"] assms(1,4) have "extends UNIV x y" by (simp add: extends_def)
  with assms(2,3) keeps have "since x0 y" by (auto simp: since_def intro: extends_trans)
  moreover have "standard_found E x0 y" if "recycled out" "\<not> failing out"
    using found [OF that] assms(2,3) that(1) same_calls [OF assms(4)] unfolding standard_found_def since_def by auto
  ultimately show ?thesis by blast
qed

lemma standard_running_step:
  assumes "sm_step F V x y" and "standard_running E x0 x" and "slack_keeps F" and "keeps_log F"
    and "F AutorecycleLambda = sqs_lambda_handler E" and "F MonitorLambda = monitor_lambda_handler E"
  shows "standard_running E x0 y"
proof -
  note step = since_step [OF _ assms(4,1)]
  from assms(2) consider "since x0 x" "current x = ChooseStrategy" "standard_strategy (document x)"
    | "since x0 x" "current x = StandardRecycle" | "since x0 x" "current x = SlackStart"
    | "since x0 x" "current x \<in> {WaitCommencement, WaitAutorecycle}"
    | "since x0 x" "current x = MonitorAutorecycling"
    | "since x0 x" "current x = IsAutorecyclingDone" "recycled (document x) \<longrightarrow> failing (document x) \<or> standard_found E x0 x"
      "failing (document x) \<or> recycled (document x) \<or> holds (NumericGreaterThan [''counter''] 20) (document x) \<noteq> Some True"
    | "ending (standard_found E x0) x"
    by (auto simp: standard_running_def)
  then show ?thesis
  proof cases
    case 1
    from step_choice [OF assms(1)] 1 step show ?thesis
      by (auto simp: standard_running_def standard_strategy_def split: option.splits)
  next
    case 2
    then have node: "sm_node V (current x) = lambda_task AutorecycleLambda SlackStart" by simp
    show ?thesis
      by (cases rule: step_lambda [OF assms(1) node])
        (use 2 step assms(5) in \<open>auto simp: standard_running_def ending_def dest: sqs_keeps\<close>)
  next
    case 3
    then have node: "sm_node V (current x) = slack_task WaitCommencement" by simp
    show ?thesis
      by (cases rule: step_slack [OF assms(1) node assms(3)]) (use 3 step in \<open>auto simp: standard_running_def ending_def\<close>)
  next
    case 4
    with step_wait [OF assms(1), of 120 MonitorAutorecycling] step_wait [OF assms(1), of 360 MonitorAutorecycling] step
    show ?thesis by (auto simp: standard_running_def)
  next
    case 5
    then have node: "sm_node V (current x) = lambda_task MonitorLambda IsAutorecyclingDone" by simp
    show ?thesis
      by (cases rule: step_lambda [OF assms(1) node])
        (use 5 step assms(6) monitor_task [OF _ 5(1)] in
          \<open>auto simp: standard_running_def ending_def simp del: holds.simps dest: monitor_report(1)\<close>)
  next
    case 6
    with step_choice [OF assms(1), of "[(BooleanEquals [''recycle_success''] True, SlackEnd),
        (NumericGreaterThan [''counter''] 20, SlackEnd)]" WaitAutorecycle] step
      standard_found_kept [OF _ same_document step_log [OF assms(4,1)]]
    show ?thesis
      by (auto simp: standard_running_def ending_def recycled_def
        split: option.splits if_splits bool.splits)
  next
    case 7
    from ending_step [OF assms(1) 7 assms(3) standard_found_kept [OF _ _ step_log [OF assms(4,1)]]]
    show ?thesis by (simp add: standard_running_def)
  qed
qed

lemma standard_success_found:
  assumes "slack_keeps F" and "keeps_log F" and "F AutorecycleLambda = sqs_lambda_handler E"
    and "F MonitorLambda = monitor_lambda_handler E"
    and "(sm_step F V)\<^sup>*\<^sup>* x y" and "current x = ChooseStrategy" and "standard_strategy (document x)"
    and "current y = SuccessState"
  shows "standard_found E x y"
proof -
  have "standard_running E x y"
    by (rule execution_invariant [OF assms(5)])
      (use assms(1-4,6,7) in \<open>auto simp: standard_running_def [of _ x x] since_def intro: standard_running_step\<close>)
  with assms(8) show ?thesis by (auto simp: standard_running_def ending_def)
qed

text \<open>
  C9. An execution of the standard strategy succeeds only when a check made after its start, of the
  component it was started for, found the recycle complete or the group scaled down to nothing, and
  the monitor reported it; one that runs out of its 20 runs, or fails on the way, does not.
\<close>

theorem standard_success_recycled:
  assumes "slack_keeps F" and "keeps_log F" and "F AutorecycleLambda = sqs_lambda_handler E"
    and "F MonitorLambda = monitor_lambda_handler E"
    and "(sm_step F V)\<^sup>*\<^sup>* x y" and "current x = ChooseStrategy" and "standard_strategy (document x)"
    and "current y = SuccessState"
  shows "path_get [''recycle_success''] (document y) = Some (PBool True) \<and>
    (\<exists>c u r w. path_get [''component''] (document x) = Some c \<and> extends UNIV x u \<and> check E c u = (r, w) \<and>
       (case r of Inr complete \<Rightarrow> complete | Inl e \<Rightarrow> exn_cls e = ScaledDownASGException) \<and> extends UNIV w y)"
  using standard_success_found [OF assms] unfolding standard_found_def recycled_def completed_def by blast

section \<open>Sample executions\<close>

definition sample_mongo :: "(string \<times> pyval) list" where
  "sample_mongo = [(''component'', PStr ''mongo''), (''strategy'', PStr ''mongo'')]"

definition sample_standard :: "(string \<times> pyval) list" where
  "sample_standard = [(''component'', PStr ''api''), (''strategy'', PStr ''default''), (''account_id'', PStr ''1''),
     (''success_channel'', PStr ''team'')]"

text \<open>The first steps of the sample, up to the first run of the Mongo recycler.\<close>

lemma mongo_sample_start:
  obtains e m where "\<And>E k. drive (Suc (Suc (Suc k))) (sample_lambdas E) sample_variables (sample_start sample_mongo) =
      drive k (sample_lambdas E) sample_variables \<lparr>calls = [], current = RecycleMongo, document = PDict e, attempts = 0\<rparr>"
    "map_of e ''component'' = Some (PStr ''mongo'')" "map_of e ''counter'' = None"
    "map_of e ''message_content'' = Some (PDict m)" "map_of e ''status'' = Some (PStr ''success'')"
proof -
  let ?V = sample_variables
  obtain e m where arguments: "slack_arguments ?V ''success'' [tf_slack_channel ?V]
      [(''text'', PStr ''Auto-recycling was successfully initiated'')] (PDict sample_mongo) = Some (PDict e)"
    and e: "map_of e ''component'' = Some (PStr ''mongo'')" "map_of e ''counter'' = None"
      "map_of e ''message_content'' = Some (PDict m)" "map_of e ''status'' = Some (PStr ''success'')"
    by (simp add: slack_arguments_def sample_mongo_def)
  have slack: "sample_lambdas E SlackNotifications v x = (Inr v, x)" for E v x by (simp add: sample_lambdas_def io_return_def)
  have strategy: "path_get [''strategy''] (PDict sample_mongo) = Some (PStr ''mongo'')" by (simp add: sample_mongo_def)
  show thesis
    by (rule that [OF _ e])
      (simp add: advance_def slack_task_def sample_start_def arguments slack strategy del: path_get_one)
qed

lemma mongo_sample:
  "current (drive 7 (sample_lambdas (one_node_site ''ami-old'')) sample_variables (sample_start sample_mongo)) = SuccessState"
proof -
  let ?F = "sample_lambdas (one_node_site ''ami-old'')" and ?V = sample_variables
  obtain e m where start: "\<And>E k. drive (Suc (Suc (Suc k))) (sample_lambdas E) ?V (sample_start sample_mongo) =
      drive k (sample_lambdas E) ?V \<lparr>calls = [], current = RecycleMongo, document = PDict e, attempts = 0\<rparr>"
    and e: "map_of e ''component'' = Some (PStr ''mongo'')" "map_of e ''counter'' = None"
      "map_of e ''message_content'' = Some (PDict m)" "map_of e ''status'' = Some (PStr ''success'')"
    by (rule mongo_sample_start) blast
  let ?x = "\<lparr>calls = [], current = RecycleMongo, document = PDict e, attempts = 0\<rparr> :: execution"
  have slack: "?F SlackNotifications v x = (Inr v, x)" for v x by (simp add: sample_lambdas_def io_return_def)
  have first: "drive 7 ?F ?V (sample_start sample_mongo) = drive 4 ?F ?V ?x"
  proof -
    have "(7 :: nat) = Suc (Suc (Suc 4))" by simp
    then show ?thesis by (simp only: start)
  qed
  obtain o' t where run: "?F MongoLambda (PDict e) ?x = (Inr (PDict o'), t)"
    and o': "map_of o' ''decision'' = Some (decision_json done_decision)" "map_of o' ''status'' = Some (PStr ''success'')"
    using current_site_handler [OF e(1-3), of ?x] e(4) by (auto simp: sample_lambdas_def)
  from o'(1) have "path_get [''decision'', ''action''] (PDict o') = Some (PStr DONE)"
    by (simp add: path_get.simps(2) decision_json_def done_decision_def)
  with run o'(2) have "current (drive 4 ?F ?V ?x) = SuccessState"
    by (simp add: eval_nat_numeral advance_def lambda_task_def slack_task_def slack)
  with first show ?thesis by (simp only:)
qed

lemma mongo_success_done_witness:
  "\<exists>ami st v u. extends UNIV (sample_start sample_mongo) v \<and>
     cleared (one_node_site ''ami-old'') (retry_now 9 :: unit execution_ext retrier) ''mongo'' v ami st u \<and>
     filter (\<lambda>i. mongo_state i \<in> {''PRIMARY'', ''SECONDARY''} \<and> \<not> py_eq (image_id i) ami) st = []"
proof -
  have code: "sample_lambdas E MongoLambda = mongo_lambda_handler E (retry_now 9)" for E
    by (simp add: sample_lambdas_def fun_eq_iff)
  from mongo_success_done [OF sample_slack sample_log code retry_now_bounded drive_steps _ _ mongo_sample]
  show ?thesis by (auto simp: sample_start_def sample_mongo_def)
qed

lemma lambda_error_fails_witness:
  "current (drive 3 (sample_lambdas scaled_down_site) sample_variables \<lparr>calls = [], current = LambdaErrored, document = PDict sample_mongo, attempts = 0\<rparr>) \<noteq> SuccessState"
  by (rule lambda_error_fails [OF sample_slack drive_steps]) simp

lemma standard_sample:
  "current (drive 8 (sample_lambdas scaled_down_site) sample_variables (sample_start sample_standard)) = SuccessState"
proof -
  let ?F = "sample_lambdas scaled_down_site" and ?V = sample_variables
  let ?x = "\<lambda>cs st d. \<lparr>calls = cs, current = st, document = PDict d, attempts = 0\<rparr> :: execution"
  obtain sent where out: "sqs_output scaled_down_site (PStr ''api'') False (PStr ''team'') = PDict sent"
    and sent: "monitored sent 0" "map_of sent ''component'' = Some (PStr ''api'')" "map_of sent ''status'' = Some (PStr ''failure'')"
    by (simp add: sqs_output_def monitored_def is_dict_def)
  have strategy: "path_get [''strategy''] (PDict sample_standard) = Some (PStr ''default'')" by (simp add: sample_standard_def)
  have sqs: "\<exists>cs. ?F AutorecycleLambda (PDict sample_standard) x = (Inr (PDict sent), x\<lparr>calls := cs\<rparr>)" for x
    by (intro exI [of _ "calls x @ [recycle_message (PStr ''api'') (PStr ''1'')]"])
      (simp add: sample_lambdas_def sqs_lambda_handler_def io_bind_def io_res_def py_item_PDict sample_standard_def
        send_to_sqs_run scaled_down_site_def accepted_def recycle_message_def flip: out)
  obtain cs where first: "drive 8 ?F ?V (sample_start sample_standard) = drive 4 ?F ?V (?x cs MonitorAutorecycling sent)"
  proof -
    from sqs [of "?x [] StandardRecycle sample_standard"] obtain cs where
      "?F AutorecycleLambda (PDict sample_standard) (?x [] StandardRecycle sample_standard) = (Inr (PDict sent), ?x cs StandardRecycle sample_standard)"
      by auto
    then have "drive 8 ?F ?V (sample_start sample_standard) = drive 4 ?F ?V (?x (cs @ [Sleep 120]) MonitorAutorecycling sent)"
      by (simp add: eval_nat_numeral advance_def lambda_task_def slack_task_def sample_start_def sample_lambdas_def io_return_def strategy
          del: path_get_one)
    with that show ?thesis .
  qed
  from scaled_down_monitor [OF sent(1) _ sent(2), of "?x cs MonitorAutorecycling sent"] obtain doc where
    monitored: "?F MonitorLambda (PDict sent) (?x cs MonitorAutorecycling sent) =
      (Inr (PDict doc), ?x (cs @ [DescribeAutoScalingGroups]) MonitorAutorecycling sent)"
    and "reported sent 0 True doc" by (auto simp: sample_lambdas_def)
  with sent(3) have doc: "map_of doc ''recycle_success'' = Some (PBool True)" "map_of doc ''status'' = Some (PStr ''failure'')"
    by (simp_all add: reported_def)
  have "?F SlackNotifications v x = (Inr v, x)" for v x by (simp add: sample_lambdas_def io_return_def)
  with monitored doc have "current (drive 4 ?F ?V (?x cs MonitorAutorecycling sent)) = SuccessState"
    by (simp add: eval_nat_numeral advance_def lambda_task_def slack_task_def)
  with first show ?thesis by (simp only:)
qed

lemma standard_success_recycled_witness:
  "\<exists>u r w. extends UNIV (sample_start sample_standard) u \<and>
     check scaled_down_site (PStr ''api'') (u :: execution) = (r, w) \<and>
     (case r of Inr complete \<Rightarrow> complete | Inl e \<Rightarrow> exn_cls e = ScaledDownASGException)"
proof -
  have code: "sample_lambdas E AutorecycleLambda = sqs_lambda_handler E" "sample_lambdas E MonitorLambda = monitor_lambda_handler E" for E
    by (simp_all add: sample_lambdas_def fun_eq_iff)
  from standard_success_recycled [OF sample_slack sample_log code drive_steps _ _ standard_sample]
  show ?thesis by (auto simp: sample_start_def sample_standard_def standard_strategy_def)
qed

end
