(* ===== verification/MachineBounds.thy ===== *)
theory MachineBounds
  imports MachineOutcome
begin

text \<open>
  How long an execution of the state machine runs: the runs of its counted loops, a rank that every
  step lowers, and what a recycle that runs out of its runs ends as. The locale \<open>counted_lambda\<close> is
  what the loops need of the Lambdas in them.
\<close>

section \<open>How long an execution runs\<close>

text \<open>The run of the in-out recycler counts once.\<close>

lemma model_dump_get: "path_get [k] (model_dump e) = field_of e k"
  using model_dump_fields [of e] by auto

text \<open>Validation keeps a counter that is an integer, and an absent one unset.\<close>

lemma pydantic_counter:
  assumes "pydantic validate" and "validate v = Inr e" and "runs_counted v = Some n"
  shows "ev_counter e = Some (PInt n) \<or> ev_counter e = None \<and> n = 0"
proof -
  from assms(1,2) obtain d where d: "v = PDict d" "keeps_fields d e" unfolding pydantic_def by blast
  with assms(3) have "if_set (optional is_int) (map_of d ''counter'')"
    by (auto simp: runs_counted_def split: option.splits pyval.splits)
  with d(2) have "ev_counter e = map_of d ''counter''" by (simp add: keeps_fields_def validated_def event_types_def)
  with d(1) assms(3) show ?thesis by (auto simp: runs_counted_def split: option.splits pyval.splits)
qed

lemma validated_component:
  assumes "pydantic validate" and "validate v = Inr e" and "path_get [''component''] v = Some (PStr c)"
  shows "ev_component e = Some (PStr c)"
proof -
  from assms(1,2) obtain d where "v = PDict d" "keeps_fields d e" unfolding pydantic_def by blast
  with assms(3) show ?thesis by (simp add: keeps_fields_def validated_def event_types_def)
qed

text \<open>The run of the handler is one of \<open>scale_asg\<close> on an event that has the counter and the component.\<close>

lemma scale_event:
  assumes "pydantic validate" and "validate v = Inr e" and "runs_counted v = Some n" and "0 \<le> n" and "n < 60"
  obtains f where "ev_component f = ev_component e" "ev_counter f = Some (PInt n)"
    "\<And>s :: 'z world_scheme. handle_event E compile validate v s = scale_asg E compile f s"
proof -
  from pydantic_counter [OF assms(1-3)] have c: "ev_counter e = Some (PInt n) \<or> ev_counter e = None \<and> n = 0" .
  define f where "f = (if n = 0 then e\<lparr>ev_counter := Some (PInt 0), ev_channels := Some (field_or PNone (ev_success_channel e))\<rparr> else e)"
  have f: "ev_component f = ev_component e" "ev_counter f = Some (PInt n)" using c by (auto simp: f_def)
  have "handle_event E compile validate v s = scale_asg E compile f s" for s :: "'z world_scheme"
    using c assms(2,4,5) by (auto simp: handle_event_def f_def io_bind_def io_res_def Let_def field_or_def)
  with f show thesis by (rule that)
qed

lemma scale_run:
  assumes "scale_lambda_handler E compile validate v x = (Inr out, y)" and "pydantic validate"
    and "runs_counted v = Some n" and "0 \<le> n" and "n < 60"
  obtains e f o' where "validate v = Inr e" "ev_component f = ev_component e" "ev_counter f = Some (PInt n)"
    "scale_asg E compile f x = (Inr o', y)" "out = model_dump o'"
proof -
  from assms(1) obtain e where e: "validate v = Inr e"
    by (cases "validate v") (auto simp: scale_lambda_handler_def handle_event_def io_bind_def io_res_def)
  from scale_event [OF assms(2) e assms(3-5)] obtain f where f: "ev_component f = ev_component e" "ev_counter f = Some (PInt n)"
    and "handle_event E compile validate v x = scale_asg E compile f x" by blast
  with assms(1) that [OF e f] show thesis
    by (auto simp: scale_lambda_handler_def io_bind_def io_return_def split: prod.splits sum.splits)
qed

lemma scale_counts:
  assumes "scale_lambda_handler E compile validate v x = (Inr out, y)" and "pydantic validate"
    and "runs_counted v = Some n" and "0 \<le> n" and "n < 60"
  shows "path_get [''counter''] out = Some (PInt (n + 1))"
proof -
  from scale_run [OF assms] obtain e f o' where "ev_counter f = Some (PInt n)" "scale_asg E compile f x = (Inr o', y)" "out = model_dump o'" .
  with scale_asg_counts [of f n E compile x] show ?thesis by (simp add: model_dump_get)
qed

text \<open>
  The states that an execution of a counted strategy passes through, with the runs it has counted;
  \<open>rank\<close> is how many steps it can still take. A loop takes at most 13 steps for a run: the 9 attempts
  at the Lambda, and the states between two runs.
\<close>

definition counted :: "pyval \<Rightarrow> bool" where
  "counted v = (\<exists>n. path_get [''counter''] v = Some (PInt n) \<and> 1 \<le> n \<and> n \<le> 21)"

definition countable_run :: "pyval \<Rightarrow> bool" where
  "countable_run v = (\<exists>n. runs_counted v = Some n \<and> 0 \<le> n \<and> n \<le> 20)"

definition counting :: "execution \<Rightarrow> bool" where
  "counting x =
     (case current x of
        ChooseStrategy \<Rightarrow> runs_counted (document x) = Some 0 \<and>
          (\<exists>s. path_get [''strategy''] (document x) = Some s \<and> s \<notin> {PStr ''mongo'', PStr ''instance-refresh''})
      | StandardRecycle \<Rightarrow> attempts x \<le> 8
      | SlackStart \<Rightarrow> runs_counted (document x) = Some 0
      | WaitCommencement \<Rightarrow> runs_counted (document x) = Some 0
      | MonitorAutorecycling \<Rightarrow> attempts x \<le> 8 \<and> countable_run (document x)
      | RecycleSingle \<Rightarrow> attempts x \<le> 8 \<and> countable_run (document x)
      | WaitAutorecycle \<Rightarrow> countable_run (document x)
      | IsAutorecyclingDone \<Rightarrow> counted (document x)
      | IsFirstRun \<Rightarrow> counted (document x)
      | SlackSingle \<Rightarrow> counted (document x)
      | WaitSingle \<Rightarrow> counted (document x)
      | IsSingleDone \<Rightarrow> counted (document x)
      | st \<Rightarrow> st \<in> {LambdaErrored, SlackEnd, StatusChoice, FailState, SuccessState, Aborted})"

definition runs_left :: "pyval \<Rightarrow> nat" where
  "runs_left v = (case runs_counted v of None \<Rightarrow> 0 | Some n \<Rightarrow> nat (21 - n))"

definition rank :: "execution \<Rightarrow> nat" where
  "rank x =
     (let loop = 20 * runs_left (document x)
      in case current x of
        ChooseStrategy \<Rightarrow> 450
      | StandardRecycle \<Rightarrow> 449 - attempts x
      | SlackStart \<Rightarrow> 440
      | WaitCommencement \<Rightarrow> 439
      | MonitorAutorecycling \<Rightarrow> loop + 10 - attempts x
      | RecycleSingle \<Rightarrow> loop + 10 - attempts x
      | WaitAutorecycle \<Rightarrow> loop + 11
      | IsAutorecyclingDone \<Rightarrow> loop + 14
      | IsFirstRun \<Rightarrow> loop + 14
      | SlackSingle \<Rightarrow> loop + 13
      | WaitSingle \<Rightarrow> loop + 12
      | IsSingleDone \<Rightarrow> loop + 11
      | LambdaErrored \<Rightarrow> 4
      | SlackEnd \<Rightarrow> 3
      | StatusChoice \<Rightarrow> 2
      | _ \<Rightarrow> 0)"

lemma counted_keep: "counted v \<Longrightarrow> path_get [''counter''] w = path_get [''counter''] v \<Longrightarrow> counted w \<and> runs_left w = runs_left v"
  by (simp add: counted_def runs_left_def runs_counted_def)

lemma counted_run:
  assumes "runs_counted v = Some n" and "0 \<le> n" and "n \<le> 20" and "path_get [''counter''] w = Some (PInt (n + 1))"
  shows "counted w \<and> runs_left v = Suc (runs_left w)"
  using assms by (auto simp: counted_def runs_left_def runs_counted_def)

lemma sqs_uncounted:
  assumes "sqs_lambda_handler E v x = (Inr out, y)"
  shows "runs_counted out = Some 0"
  using assms
  by (auto simp: sqs_lambda_handler_def io_bind_def io_res_def send_to_sqs_run sqs_output_def Let_def runs_counted_def
      split: sum.splits)

text \<open>The code of the repository behind the tasks.\<close>

definition repository_code ::
    "env \<Rightarrow> (string \<Rightarrow> (string \<Rightarrow> bool) res) \<Rightarrow> (pyval \<Rightarrow> Event res) \<Rightarrow> lambda_code \<Rightarrow> bool" where
  "repository_code E compile validate F =
     (F AutorecycleLambda = sqs_lambda_handler E \<and> F MonitorLambda = monitor_lambda_handler E \<and>
      F ScaleAsgLambda = scale_lambda_handler E compile validate)"

definition ranked :: "execution \<Rightarrow> execution \<Rightarrow> bool" where
  "ranked x y = (counting y \<and> rank y < rank x)"

text \<open>
  A Lambda that counts its runs: on a document that counts fewer runs than the 60 at which the in-out
  recycler gives up, a run that returns counts one more. The loop of such a Lambda lowers the rank.
\<close>

locale counted_lambda =
  fixes run :: "pyval \<Rightarrow> (execution, pyval) io" and legal :: bool
  assumes counts: "legal \<Longrightarrow> run v x = (Inr out, y) \<Longrightarrow> runs_counted v = Some n \<Longrightarrow> 0 \<le> n \<Longrightarrow> n < 60 \<Longrightarrow>
    path_get [''counter''] out = Some (PInt (n + 1))"
begin

lemma loop_task:
  assumes "sm_step F V x y" and "sm_node V (current x) = lambda_task l st" and "F l = run" and legal
    and "current x \<in> {MonitorAutorecycling, RecycleSingle}" and "st \<in> {IsAutorecyclingDone, IsFirstRun}" and "counting x"
  shows "ranked x y"
proof -
  from assms(5,7) obtain n where n: "runs_counted (document x) = Some n" "0 \<le> n" "n \<le> 20" and a: "attempts x \<le> 8"
    by (auto simp: counting_def countable_run_def)
  then have left: "runs_left (document x) \<ge> 1" by (simp add: runs_left_def)
  from assms(1,2) show ?thesis
  proof (cases rule: step_lambda)
    case (finished out z)
    from counts [OF assms(4) finished(1) [unfolded assms(3)] n(1,2)] n(3) have "path_get [''counter''] out = Some (PInt (n + 1))"
      by simp
    from counted_run [OF n this] finished assms(5,6) a show ?thesis
      by (auto simp: ranked_def counting_def rank_def Let_def)
  next
    case retried
    with assms(5,7) a left show ?thesis by (auto simp: ranked_def counting_def rank_def Let_def)
  next
    case failed
    with assms(5) a left show ?thesis by (auto simp: ranked_def counting_def rank_def Let_def)
  qed
qed

end

interpretation monitor_counter: counted_lambda "monitor_lambda_handler E" True for E
  by unfold_locales (rule monitor_report(2))

interpretation scale_counter: counted_lambda "scale_lambda_handler E compile validate" "pydantic validate" for E compile validate
  by unfold_locales (rule scale_counts)

lemma loop_choice:
  assumes "sm_step F V x y"
    and "sm_node V (current x) =
      Choice [(BooleanEquals [''recycle_success''] True, SlackEnd), (NumericGreaterThan [''counter''] 20, SlackEnd)] st"
    and "current x = IsAutorecyclingDone \<and> st = WaitAutorecycle \<or> current x = IsSingleDone \<and> st = RecycleSingle"
    and "counting x"
  shows "ranked x y"
proof -
  from assms(3,4) obtain n where n: "path_get [''counter''] (document x) = Some (PInt n)" "1 \<le> n" "n \<le> 21"
    by (auto simp: counting_def counted_def)
  then have count: "runs_counted (document x) = Some n" by (simp add: runs_counted_def)
  from step_choice [OF assms(1,2)] assms(3) n show ?thesis
    by (auto simp: ranked_def counting_def rank_def Let_def json_number_def countable_run_def count
        split: option.splits if_splits bool.splits)
qed

lemma counting_step:
  assumes "sm_step F V x y" and "counting x" and "slack_keeps F" and "repository_code E compile validate F"
    and "pydantic validate"
  shows "ranked x y"
proof -
  note simps = ranked_def counting_def rank_def Let_def
  from assms(2) consider "current x = ChooseStrategy" | "current x = StandardRecycle" | "current x = SlackStart"
    | "current x = WaitCommencement" | "current x = WaitAutorecycle" | "current x = MonitorAutorecycling" | "current x = RecycleSingle"
    | "current x = IsAutorecyclingDone" | "current x = IsSingleDone" | "current x = IsFirstRun" | "current x = SlackSingle"
    | "current x = WaitSingle" | "current x = LambdaErrored" | "current x = SlackEnd" | "current x = StatusChoice"
    | "current x \<in> {SuccessState, FailState, Aborted}"
    by (auto simp: counting_def split: sm_state.splits)
  then show ?thesis
  proof cases
    case 1
    from step_choice [OF assms(1)] 1 assms(2) show ?thesis
      by (auto simp: simps countable_run_def runs_left_def split: option.splits if_splits bool.splits)
  next
    case 2
    then have node: "sm_node V (current x) = lambda_task AutorecycleLambda SlackStart" by simp
    from 2 assms(2) have "attempts x \<le> 8" by (simp add: counting_def)
    with 2 assms(4) sqs_uncounted [of E "document x" x] show ?thesis
      by (cases rule: step_lambda [OF assms(1) node]) (auto simp: simps repository_code_def)
  next
    case 3
    then have node: "sm_node V (current x) = slack_task WaitCommencement" by simp
    show ?thesis
      by (cases rule: step_slack [OF assms(1) node assms(3)]) (use 3 assms(2) in \<open>auto simp: simps runs_counted_def\<close>)
  next
    case 4
    with step_wait [OF assms(1), of 120 MonitorAutorecycling] assms(2) show ?thesis
      by (auto simp: simps countable_run_def runs_left_def)
  next
    case 5
    with step_wait [OF assms(1), of 360 MonitorAutorecycling] assms(2) show ?thesis by (auto simp: simps)
  next
    case 6
    show ?thesis
      by (rule monitor_counter.loop_task [OF assms(1), of MonitorLambda IsAutorecyclingDone])
        (use 6 assms(2,4) in \<open>auto simp: repository_code_def\<close>)
  next
    case 7
    show ?thesis
      by (rule scale_counter.loop_task [OF assms(1), of ScaleAsgLambda IsFirstRun _ compile validate])
        (use 7 assms(2,4,5) in \<open>auto simp: repository_code_def\<close>)
  next
    case 8
    show ?thesis by (rule loop_choice [OF assms(1), of WaitAutorecycle]) (use 8 assms(2) in auto)
  next
    case 9
    show ?thesis by (rule loop_choice [OF assms(1), of RecycleSingle]) (use 9 assms(2) in auto)
  next
    case 10
    with step_choice [OF assms(1), of "[(NumericLessThanEquals [''counter''] 1, SlackSingle)]" WaitSingle] assms(2) show ?thesis
      by (auto simp: simps counted_def json_number_def split: option.splits if_splits bool.splits)
  next
    case 11
    then have node: "sm_node V (current x) = slack_task WaitSingle" by simp
    from 11 assms(2) have "counted (document x)" by (simp add: counting_def)
    from counted_keep [OF this, of "document y"] 11 show ?thesis
      by (cases rule: step_slack [OF assms(1) node assms(3)]) (auto simp: simps)
  next
    case 12
    with step_wait [OF assms(1), of 60 IsSingleDone] assms(2) show ?thesis by (auto simp: simps)
  next
    case 13
    with step_pass [OF assms(1), of "lambda_error_arguments V" SlackEnd] show ?thesis
      by (auto simp: simps split: option.splits)
  next
    case 14
    then have node: "sm_node V (current x) = slack_task StatusChoice" by simp
    show ?thesis by (cases rule: step_slack [OF assms(1) node assms(3)]) (use 14 in \<open>auto simp: simps\<close>)
  next
    case 15
    with step_choice [OF assms(1), of "[(StringEquals [''status''] ''fail'', FailState)]" SuccessState] show ?thesis
      by (auto simp: simps split: option.splits if_splits bool.splits)
  next
    case 16
    with step_end [of V x F y] assms(1) show ?thesis by auto
  qed
qed

lemma counting_steps:
  assumes "slack_keeps F" and "repository_code E compile validate F" and "pydantic validate"
  shows "(sm_step F V ^^ n) x y \<Longrightarrow> counting x \<Longrightarrow> counting y \<and> rank y + n \<le> rank x"
proof (induction n arbitrary: y)
  case (Suc n)
  then obtain u where u: "(sm_step F V ^^ n) x u" "sm_step F V u y" by auto
  with Suc.IH [OF u(1) Suc.prems(2)] counting_step [OF u(2) _ assms] show ?case by (auto simp: ranked_def)
qed simp

text \<open>
  C17. An execution of the standard or the in-out strategy ends after at most 450 steps, failed
  attempts included, whatever the Lambdas meet; and neither its monitor nor its scaling Lambda
  is ever run on a document that counts more than 20 runs.
\<close>

theorem counted_executions_end:
  assumes "slack_keeps F" and "repository_code E compile validate F" and "pydantic validate"
    and "(sm_step F V ^^ n) x y" and "current x = ChooseStrategy" and "runs_counted (document x) = Some 0"
    and "path_get [''strategy''] (document x) = Some st" and "st \<notin> {PStr ''mongo'', PStr ''instance-refresh''}"
  shows "n \<le> 450 \<and>
    (current y \<in> {MonitorAutorecycling, RecycleSingle} \<longrightarrow>
      (\<exists>k. runs_counted (document y) = Some k \<and> 0 \<le> k \<and> k \<le> 20))"
proof -
  have "counting x" using assms(5-8) by (simp add: counting_def)
  from counting_steps [OF assms(1-4) this] assms(5) show ?thesis
    by (auto simp: rank_def counting_def countable_run_def)
qed

section \<open>An in-out recycle that times out\<close>

text \<open>
  A component with one group, whose last activity is still running.
\<close>

definition one_group :: "string \<Rightarrow> pyval" where
  "one_group g = PDict [(''AutoScalingGroupName'', PStr g)]"

definition running_activity :: pyval where
  "running_activity = PDict [(''Progress'', PInt 50)]"

definition never_done :: "env \<Rightarrow> (string \<Rightarrow> (string \<Rightarrow> bool) res) \<Rightarrow> string \<Rightarrow> string \<Rightarrow> bool" where
  "never_done E compile c g =
     (matching_groups compile c [one_group g] = Inr [one_group g] \<and>
      (\<forall>h. reply E h DescribeAutoScalingGroups = Inr (PList [PDict [(''AutoScalingGroups'', PList [one_group g])]]) \<and>
        reply E h (DescribeScalingActivities (PStr g) 1) = Inr (PDict [(''Activities'', PList [running_activity])])))"

definition stuck_fields :: "string \<Rightarrow> int \<Rightarrow> pyval \<Rightarrow> bool" where
  "stuck_fields c n v =
     (path_get [''counter''] v = Some (PInt n) \<and> path_get [''component''] v = Some (PStr c) \<and>
      path_get [''status''] v = Some (PBool True) \<and> path_get [''recycle_success''] v = Some (PBool False))"

definition stuck_report :: "string \<Rightarrow> int \<Rightarrow> pyval \<Rightarrow> bool" where
  "stuck_report c n v = (document_typed v \<and> stuck_fields c n v)"

definition stuck_calls :: "string \<Rightarrow> call list" where
  "stuck_calls g = [DescribeAutoScalingGroups, DescribeScalingActivities (PStr g) 1]"

lemma stuck_groups:
  assumes "never_done E compile c g" and "ev_component e = Some (PStr c)"
  shows "scale_groups E compile e flds out s =
    (Inr (with_message ''good'' flds initiated False out), s\<lparr>calls := calls s @ stuck_calls g\<rparr>)"
proof -
  have "describe_asg E compile (PStr c) s = (Inr [one_group g], s\<lparr>calls := calls s @ [DescribeAutoScalingGroups]\<rparr>)"
    using assms(1) by (simp add: describe_asg_def io_eval never_done_def all_groups_def py_iter_def py_item_PDict need_str_def)
  moreover have "activity_details E [one_group g] [] t =
      (Inr [(g, running_activity)], t\<lparr>calls := calls t @ [DescribeScalingActivities (PStr g) 1]\<rparr>)" for t :: "'a world_scheme"
    using assms(1)
    by (simp add: io_eval never_done_def one_group_def describe_scaling_activities_def py_item_PDict py_len_def py_index_def
        list_index_def Let_def py_str_def)
  moreover have "get_overall_progress [running_activity] = Inr False" "get_overall_statuscode [running_activity] = Inr False"
    by (simp_all add: get_overall_progress_def get_overall_statuscode_def running_activity_def py_get_def)
  ultimately show ?thesis
    using assms(2) by (simp add: scale_groups_def io_bind_def io_res_def io_return_def field_or_def stuck_calls_def)
qed

lemma stuck_asg:
  assumes "never_done E compile c g" and "ev_counter e = Some (PInt n)" and "ev_component e = Some (PStr c)"
  shows "\<exists>out. scale_asg E compile e s = (Inr out, s\<lparr>calls := calls s @ stuck_calls g\<rparr>) \<and> stuck_fields c (n + 1) (model_dump out)"
proof -
  obtain out0 where out0: "create_output_params e = Inr out0" and f: "ev_counter out0 = Some (PInt (n + 1))"
    "ev_component out0 = Some (PStr c)" "ev_status out0 = Some (PBool True)"
    using assms(2,3) by (cases "n = 0") (simp_all add: create_output_params_def Let_def field_or_def py_add_one_def)
  then show ?thesis
    using stuck_groups [OF assms(1,3), of "message_content_fields E e" out0 s]
    by (simp add: scale_asg_def io_bind_def io_res_def io_catch_def Let_def stuck_fields_def model_dump_get with_message_def)
qed

lemma stuck_run:
  assumes "never_done E compile c g" and "pydantic validate" and "document_typed v"
    and "path_get [''component''] v = Some (PStr c)" and "runs_counted v = Some n" and "0 \<le> n" and "n < 60"
  shows "\<exists>out. scale_lambda_handler E compile validate v s = (Inr out, s\<lparr>calls := calls s @ stuck_calls g\<rparr>) \<and>
    stuck_report c (n + 1) out"
proof -
  from assms(2,3) obtain e where e: "validate v = Inr e" unfolding pydantic_def by blast
  from validated_component [OF assms(2) e assms(4)] have comp: "ev_component e = Some (PStr c)" .
  obtain f where
    f: "ev_counter f = Some (PInt n)" "ev_component f = Some (PStr c)"
    and "handle_event E compile validate v s = scale_asg E compile f s"
    by (rule scale_event [OF assms(2) e assms(5-7)]) (auto simp: comp)
  with stuck_asg [OF assms(1) f, of s] obtain out where
    run: "scale_lambda_handler E compile validate v s = (Inr (model_dump out), s\<lparr>calls := calls s @ stuck_calls g\<rparr>)"
    and out: "stuck_fields c (n + 1) (model_dump out)"
    by (auto simp: scale_lambda_handler_def io_bind_def io_return_def)
  with scale_handler_typed [OF assms(2) run] show ?thesis by (auto simp: stuck_report_def)
qed

text \<open>
  \<open>leads F V P Q\<close>: from every execution in \<open>P\<close> some run of the state machine comes to \<open>Q\<close>.
\<close>

definition leads :: "lambda_code \<Rightarrow> variables \<Rightarrow> (execution \<Rightarrow> bool) \<Rightarrow> (execution \<Rightarrow> bool) \<Rightarrow> bool" where
  "leads F V P Q = (\<forall>x. P x \<longrightarrow> (\<exists>y. (sm_step F V)\<^sup>*\<^sup>* x y \<and> Q y))"

lemma leads_trans [trans]: "leads F V P Q \<Longrightarrow> leads F V Q R \<Longrightarrow> leads F V P R"
  unfolding leads_def by (meson rtranclp_trans)

lemma leads_step: "(\<And>x. P x \<Longrightarrow> \<exists>y. sm_step F V x y \<and> Q y) \<Longrightarrow> leads F V P Q"
  unfolding leads_def by (meson r_into_rtranclp)

lemma leads_lambda:
  assumes "\<And>x. P x \<Longrightarrow> sm_node V (current x) = lambda_task l st \<or> l = SlackNotifications \<and> sm_node V (current x) = slack_task st"
    and "\<And>x. P x \<Longrightarrow> \<exists>out z. F l (document x) x = (Inr out, z) \<and>
      Q (x\<lparr>calls := calls z, current := st, document := out, attempts := 0\<rparr>)"
  shows "leads F V P Q"
proof (rule leads_step)
  fix x assume x: "P x"
  from assms(2) [OF x] obtain out z where run: "F l (document x) x = (Inr out, z)"
    and q: "Q (x\<lparr>calls := calls z, current := st, document := out, attempts := 0\<rparr>)" by blast
  from assms(1) [OF x] obtain n cat where "sm_node V (current x) = Task l [] [] n st error_path cat"
    by (auto simp: node_defs)
  from task_done [where F = F and y = z, OF this, of "document x" out] run q
  show "\<exists>y. sm_step F V x y \<and> Q y" by (intro exI conjI) auto
qed

lemma leads_choice:
  assumes "\<And>x. P x \<Longrightarrow> \<exists>rs dflt st. sm_node V (current x) = Choice rs dflt \<and> choice_of rs dflt (document x) = Some st \<and>
      Q (x\<lparr>current := st, attempts := 0\<rparr>)"
  shows "leads F V P Q"
proof (rule leads_step)
  fix x assume "P x"
  from assms [OF this] obtain rs dflt st where "sm_node V (current x) = Choice rs dflt"
    "choice_of rs dflt (document x) = Some st" "Q (x\<lparr>current := st, attempts := 0\<rparr>)" by blast
  with chosen [of V x rs dflt F] show "\<exists>y. sm_step F V x y \<and> Q y" by (intro exI conjI) auto
qed

lemma leads_wait:
  assumes "\<And>x. P x \<Longrightarrow> sm_node V (current x) = Wait n st \<and>
      Q (x\<lparr>calls := calls x @ [Sleep n], current := st, attempts := 0\<rparr>)"
  shows "leads F V P Q"
proof (rule leads_step)
  fix x assume "P x"
  with assms waited [of V x n st F] show "\<exists>y. sm_step F V x y \<and> Q y" by (intro exI conjI) auto
qed

text \<open>The Slack Lambda answers with a typed event, and no call but a scaling policy matters here.\<close>

definition slack_answers :: "lambda_code \<Rightarrow> bool" where
  "slack_answers F = (\<forall>v x. \<exists>out. F SlackNotifications v x = (Inr out, x) \<and> (document_typed v \<longrightarrow> document_typed out))"

definition unscaling :: "call set" where
  "unscaling = {c. case c of ExecutePolicy _ _ \<Rightarrow> False | _ \<Rightarrow> True}"

definition stuck_at :: "execution \<Rightarrow> string \<Rightarrow> int \<Rightarrow> sm_state \<Rightarrow> execution \<Rightarrow> bool" where
  "stuck_at x0 c n st x = (current x = st \<and> stuck_report c n (document x) \<and> extends unscaling x0 x)"

lemma unscaling_simps [simp]:
  "DescribeAutoScalingGroups \<in> unscaling" "DescribeScalingActivities a k \<in> unscaling" "Sleep k \<in> unscaling"
  "ExecutePolicy a p \<notin> unscaling"
  by (simp_all add: unscaling_def)

lemma unscaling_extends:
  "extends unscaling x0 x \<Longrightarrow> calls y = calls x @ cs \<Longrightarrow> set cs \<subseteq> unscaling \<Longrightarrow> extends unscaling x0 y"
  by (rule extends_trans [of unscaling x0 x]) (auto simp: extends_def)

lemma stuck_slack:
  assumes "slack_keeps F" and "slack_answers F" and "sm_node V st = slack_task st'"
  shows "leads F V (stuck_at x0 c n st) (stuck_at x0 c n st')"
proof (rule leads_lambda [of _ V SlackNotifications st'])
  fix x assume x: "stuck_at x0 c n st x"
  with assms(3) show "sm_node V (current x) = lambda_task SlackNotifications st' \<or>
      SlackNotifications = SlackNotifications \<and> sm_node V (current x) = slack_task st'" by (simp add: stuck_at_def)
  from assms(2) obtain out where out: "F SlackNotifications (document x) x = (Inr out, x)"
    "document_typed (document x) \<longrightarrow> document_typed out" by (auto simp: slack_answers_def)
  from slack_keepsD [OF assms(1) out(1)] out(2) x
  have "stuck_at x0 c n st' (x\<lparr>calls := calls x, current := st', document := out, attempts := 0\<rparr>)"
    by (simp add: stuck_at_def stuck_report_def stuck_fields_def extends_def)
  with out(1) show "\<exists>out z. F SlackNotifications (document x) x = (Inr out, z) \<and>
      stuck_at x0 c n st' (x\<lparr>calls := calls z, current := st', document := out, attempts := 0\<rparr>)" by blast
qed

lemma stuck_round:
  assumes code: "repository_code E compile validate F" "slack_keeps F" "slack_answers F"
    and stuck: "never_done E compile c g" "pydantic validate" and n: "0 \<le> n" "n \<le> 20"
  shows "leads F V (\<lambda>x. current x = RecycleSingle \<and> document_typed (document x) \<and> runs_counted (document x) = Some n \<and>
      path_get [''component''] (document x) = Some (PStr c) \<and> extends unscaling x0 x) (stuck_at x0 c (n + 1) IsSingleDone)"
    (is "leads F V ?P _")
proof -
  have "leads F V ?P (stuck_at x0 c (n + 1) IsFirstRun)"
  proof (rule leads_lambda [of _ V ScaleAsgLambda IsFirstRun])
    fix x assume x: "?P x"
    with stuck_run [OF stuck, of "document x" n x] n obtain out where
      "scale_lambda_handler E compile validate (document x) x = (Inr out, x\<lparr>calls := calls x @ stuck_calls g\<rparr>)"
      "stuck_report c (n + 1) out" by auto
    with x code(1) show "\<exists>out z. F ScaleAsgLambda (document x) x = (Inr out, z) \<and>
        stuck_at x0 c (n + 1) IsFirstRun (x\<lparr>calls := calls z, current := IsFirstRun, document := out, attempts := 0\<rparr>)"
      by (auto simp: repository_code_def stuck_at_def stuck_calls_def elim!: unscaling_extends)
  qed auto
  also have "leads F V (stuck_at x0 c (n + 1) IsFirstRun) (stuck_at x0 c (n + 1) WaitSingle)"
  proof (cases "n = 0")
    case True
    have "leads F V (stuck_at x0 c (n + 1) IsFirstRun) (stuck_at x0 c (n + 1) SlackSingle)"
      using True by (intro leads_choice) (auto simp: stuck_at_def stuck_report_def stuck_fields_def json_number_def extends_def)
    also have "leads F V (stuck_at x0 c (n + 1) SlackSingle) (stuck_at x0 c (n + 1) WaitSingle)"
      by (rule stuck_slack [OF code(2,3)]) simp
    finally show ?thesis .
  next
    case False
    with n show ?thesis
      by (intro leads_choice) (auto simp: stuck_at_def stuck_report_def stuck_fields_def json_number_def extends_def)
  qed
  also have "leads F V (stuck_at x0 c (n + 1) WaitSingle) (stuck_at x0 c (n + 1) IsSingleDone)"
    by (rule leads_wait [of _ V 60])
      (auto simp: stuck_at_def elim!: unscaling_extends)
  finally show ?thesis .
qed

lemma stuck_rounds:
  assumes "repository_code E compile validate F" "slack_keeps F" "slack_answers F"
    and "never_done E compile c g" "pydantic validate"
  shows "k \<le> 20 \<Longrightarrow> leads F V (stuck_at x0 c 1 IsSingleDone) (stuck_at x0 c (int k + 1) IsSingleDone)"
proof (induction k)
  case 0
  then show ?case by (auto simp: leads_def)
next
  case (Suc k)
  then have "leads F V (stuck_at x0 c 1 IsSingleDone) (stuck_at x0 c (int k + 1) IsSingleDone)" by simp
  also have "leads F V (stuck_at x0 c (int k + 1) IsSingleDone) (\<lambda>x. current x = RecycleSingle \<and> document_typed (document x) \<and>
      runs_counted (document x) = Some (int k + 1) \<and> path_get [''component''] (document x) = Some (PStr c) \<and> extends unscaling x0 x)"
    using Suc.prems
    by (intro leads_choice) (auto simp: stuck_at_def stuck_report_def stuck_fields_def json_number_def runs_counted_def extends_def)
  also have "leads F V (\<lambda>x. current x = RecycleSingle \<and> document_typed (document x) \<and>
      runs_counted (document x) = Some (int k + 1) \<and> path_get [''component''] (document x) = Some (PStr c) \<and> extends unscaling x0 x)
      (stuck_at x0 c (int k + 1 + 1) IsSingleDone)"
    by (rule stuck_round [OF assms]) (use Suc.prems in auto)
  finally show ?case by (simp add: add.commute)
qed

text \<open>The end of the runs: the counter is beyond 20 and the last run left a status other than \<open>fail\<close>.\<close>

definition runs_used_up :: "execution \<Rightarrow> bool" where
  "runs_used_up x =
     (current x = IsSingleDone \<and> (\<exists>n. path_get [''counter''] (document x) = Some (PInt n) \<and> 20 < n) \<and>
      (\<exists>st. path_get [''status''] (document x) = Some st \<and> st \<noteq> PStr ''fail''))"

lemma stuck_succeeds:
  assumes "repository_code E compile validate F" and "slack_keeps F" and "slack_answers F"
    and "never_done E compile c g" and "pydantic validate"
    and "current x = ChooseStrategy" and "path_get [''strategy''] (document x) = Some (PStr ''in-out'')"
    and "path_get [''component''] (document x) = Some (PStr c)" and "runs_counted (document x) = Some 0"
    and "document_typed (document x)"
  shows "\<exists>u y cs. (sm_step F V)\<^sup>*\<^sup>* x u \<and> runs_used_up u \<and> (sm_step F V)\<^sup>*\<^sup>* u y \<and> current y = SuccessState \<and>
    path_get [''recycle_success''] (document y) = Some (PBool False) \<and>
    calls y = calls x @ cs \<and> (\<nexists>a p. ExecutePolicy a p \<in> set cs)"
proof -
  let ?start = "\<lambda>u. u = x"
  have "leads F V ?start (\<lambda>u. current u = RecycleSingle \<and> document_typed (document u) \<and> runs_counted (document u) = Some 0 \<and>
      path_get [''component''] (document u) = Some (PStr c) \<and> extends unscaling x u)"
    using assms(6-10) by (intro leads_choice) (auto simp: extends_def)
  also have "leads F V \<dots> (stuck_at x c (0 + 1) IsSingleDone)"
    by (rule stuck_round [OF assms(1-5)]) auto
  also have "leads F V (stuck_at x c (0 + 1) IsSingleDone) (stuck_at x c (int 20 + 1) IsSingleDone)"
    using stuck_rounds [OF assms(1-5), of 20] by simp
  finally obtain u where u: "(sm_step F V)\<^sup>*\<^sup>* x u" "stuck_at x c 21 IsSingleDone u" by (auto simp: leads_def)
  then have used: "runs_used_up u" by (auto simp: runs_used_up_def stuck_at_def stuck_report_def stuck_fields_def)
  have "leads F V (stuck_at x c 21 IsSingleDone) (stuck_at x c 21 SlackEnd)"
    by (intro leads_choice) (auto simp: stuck_at_def stuck_report_def stuck_fields_def json_number_def extends_def)
  also have "leads F V (stuck_at x c 21 SlackEnd) (stuck_at x c 21 StatusChoice)"
    by (rule stuck_slack [OF assms(2,3)]) simp
  also have "leads F V (stuck_at x c 21 StatusChoice) (stuck_at x c 21 SuccessState)"
    by (intro leads_choice) (auto simp: stuck_at_def stuck_report_def stuck_fields_def extends_def)
  finally obtain y where y: "(sm_step F V)\<^sup>*\<^sup>* u y" "stuck_at x c 21 SuccessState y"
    using u(2) by (auto simp: leads_def)
  from y(2) obtain cs where "calls y = calls x @ cs" "set cs \<subseteq> unscaling" by (auto simp: stuck_at_def extends_def)
  with y(2) have "current y = SuccessState \<and> path_get [''recycle_success''] (document y) = Some (PBool False) \<and>
    calls y = calls x @ cs \<and> (\<nexists>a p. ExecutePolicy a p \<in> set cs)"
    by (auto simp: stuck_at_def stuck_report_def stuck_fields_def dest: subsetD)
  with u(1) used y(1) show ?thesis by blast
qed

definition unfailing :: "execution \<Rightarrow> bool" where
  "unfailing x =
     (runs_used_up x \<or>
      current x \<in> {SlackEnd, StatusChoice} \<and> (\<exists>st. path_get [''status''] (document x) = Some st \<and> st \<noteq> PStr ''fail'') \<or>
      current x \<in> {SuccessState, Aborted})"

lemma used_up_choice:
  assumes "runs_used_up x"
  shows "\<exists>rs. sm_node V (current x) = Choice rs RecycleSingle \<and> choice_of rs RecycleSingle (document x) \<in> {Some SlackEnd, None}"
    and "path_get [''recycle_success''] (document x) \<noteq> None \<Longrightarrow>
      \<exists>rs. sm_node V (current x) = Choice rs RecycleSingle \<and> choice_of rs RecycleSingle (document x) = Some SlackEnd"
  using assms by (auto simp: runs_used_up_def json_number_def split: option.splits bool.splits)

lemma unfailing_step:
  assumes "sm_step F V x y" and "unfailing x" and "slack_keeps F"
  shows "unfailing y"
proof -
  from assms(2) consider "runs_used_up x" | "current x = SlackEnd" | "current x = StatusChoice" | "current x \<in> {SuccessState, Aborted}"
    unfolding unfailing_def by blast
  then show ?thesis
  proof cases
    case 1
    from used_up_choice(1) [OF this, of V] obtain rs where rs: "sm_node V (current x) = Choice rs RecycleSingle"
      "choice_of rs RecycleSingle (document x) \<in> {Some SlackEnd, None}" by blast
    from step_choice [OF assms(1) rs(1)] rs(2) 1 show ?thesis by (auto simp: unfailing_def runs_used_up_def)
  next
    case 2
    then have node: "sm_node V (current x) = slack_task StatusChoice" by simp
    show ?thesis
      by (cases rule: step_slack [OF assms(1) node assms(3)])
        (use 2 assms(2) in \<open>auto simp: unfailing_def runs_used_up_def\<close>)
  next
    case 3
    with step_choice [OF assms(1)] assms(2) show ?thesis by (auto simp: unfailing_def runs_used_up_def)
  next
    case 4
    with step_end [of V x F y] assms(1) show ?thesis by auto
  qed
qed

lemma path_get_dict: "path_get [k] v = Some w \<Longrightarrow> \<exists>d. v = PDict d \<and> map_of d k = Some w"
  by (cases v) (auto simp: path_get.simps(2) split: option.splits)

text \<open>Driven on, such an execution succeeds, whether its last message is sent or not.\<close>

lemma advance_slack_status:
  assumes "slack_keeps F" and "sm_node V (current x) = slack_task st" and "path_get [''status''] (document x) = Some v"
  shows "current (advance F V x) = st \<and> path_get [''status''] (document (advance F V x)) = Some v"
proof -
  from assms(3) obtain d where d: "document x = PDict d" by (blast dest: path_get_dict)
  obtain r y where run: "F SlackNotifications (document x) x = (r, y)" by fastforce
  show ?thesis
  proof (cases r)
    case (Inr out)
    with slack_keepsD [OF assms(1) run [unfolded Inr]] run assms(2,3) show ?thesis by (simp add: advance_def slack_task_def)
  next
    case (Inl e)
    with run assms(2,3) d show ?thesis by (simp add: advance_def slack_task_def error_path_def update_conv')
  qed
qed

lemma used_up_driven:
  assumes "slack_keeps F" and "runs_used_up x" and "path_get [''recycle_success''] (document x) \<noteq> None"
  shows "current (drive 3 F V x) = SuccessState"
proof -
  from assms(2) obtain st where st: "path_get [''status''] (document x) = Some st" "st \<noteq> PStr ''fail''" by (auto simp: runs_used_up_def)
  from used_up_choice(2) [OF assms(2,3), of V] obtain rs where "sm_node V (current x) = Choice rs RecycleSingle"
    "choice_of rs RecycleSingle (document x) = Some SlackEnd" by blast
  then have 1: "current (advance F V x) = SlackEnd" "document (advance F V x) = document x" by (simp_all add: advance_def)
  let ?x = "advance F V x"
  have "sm_node V (current ?x) = slack_task StatusChoice" using 1(1) by simp
  from advance_slack_status [OF assms(1) this] 1(2) st(1) have
    2: "current (advance F V ?x) = StatusChoice" "path_get [''status''] (document (advance F V ?x)) = Some st" by simp_all
  with st(2) have "current (advance F V (advance F V ?x)) = SuccessState" by (simp add: advance_def)
  moreover have "(3 :: nat) = Suc (Suc (Suc 0))" by simp
  moreover have "current x = IsSingleDone" using assms(2) by (simp add: runs_used_up_def)
  ultimately show ?thesis by (simp only: drive.simps) (simp add: 1(1) 2(1))
qed

text \<open>
  C24. An in-out recycle that has used up its runs is not reported as a failure. Whenever an in-out execution comes to the end of
  its runs, the counter beyond 20, and the last run has reported another status than \<open>fail\<close>, no run of the state machine leads to \<open>Fail\<close>,
  and driven on the execution succeeds, whatever it says of \<open>recycle_success\<close>. This does happen: when the last activity of
  the component's group is still running in every run, some execution comes to the end of its
  runs, and then to \<open>Success\<close>, with \<open>recycle_success\<close> false and nothing ever scaled.
\<close>

theorem in_out_timeout_succeeds:
  assumes "repository_code E compile validate F" and "slack_keeps F" and "slack_answers F" and "pydantic validate"
    and "current x = ChooseStrategy" and "path_get [''strategy''] (document x) = Some (PStr ''in-out'')"
    and "path_get [''component''] (document x) = Some (PStr c)" and "runs_counted (document x) = Some 0"
    and "document_typed (document x)"
  shows "(\<forall>y. (sm_step F V)\<^sup>*\<^sup>* x y \<and> runs_used_up y \<longrightarrow>
      (\<forall>z. (sm_step F V)\<^sup>*\<^sup>* y z \<longrightarrow> current z \<noteq> FailState) \<and>
      (path_get [''recycle_success''] (document y) \<noteq> None \<longrightarrow> current (drive 3 F V y) = SuccessState)) \<and>
    (\<forall>g. never_done E compile c g \<longrightarrow>
      (\<exists>u y cs. (sm_step F V)\<^sup>*\<^sup>* x u \<and> runs_used_up u \<and> (sm_step F V)\<^sup>*\<^sup>* u y \<and> current y = SuccessState \<and>
         path_get [''recycle_success''] (document y) = Some (PBool False) \<and>
         calls y = calls x @ cs \<and> (\<nexists>a p. ExecutePolicy a p \<in> set cs)))"
proof (intro conjI allI impI)
  fix y z assume y: "(sm_step F V)\<^sup>*\<^sup>* x y \<and> runs_used_up y" and z: "(sm_step F V)\<^sup>*\<^sup>* y z"
  from y have "unfailing y" by (simp add: unfailing_def)
  with z have "unfailing z"
  proof (rule execution_invariant)
    show "unfailing v" if "sm_step F V u v" "unfailing u" for u v by (rule unfailing_step [OF that assms(2)])
  qed
  then show "current z \<noteq> FailState" by (auto simp: unfailing_def runs_used_up_def)
next
  fix y assume "(sm_step F V)\<^sup>*\<^sup>* x y \<and> runs_used_up y" "path_get [''recycle_success''] (document y) \<noteq> None"
  with used_up_driven [OF assms(2)] show "current (drive 3 F V y) = SuccessState" by blast
next
  fix g assume "never_done E compile c g"
  from stuck_succeeds [OF assms(1-3) this assms(4-9)]
  show "\<exists>u y cs. (sm_step F V)\<^sup>*\<^sup>* x u \<and> runs_used_up u \<and> (sm_step F V)\<^sup>*\<^sup>* u y \<and> current y = SuccessState \<and>
      path_get [''recycle_success''] (document y) = Some (PBool False) \<and>
      calls y = calls x @ cs \<and> (\<nexists>a p. ExecutePolicy a p \<in> set cs)" .
qed

text \<open>
  The standard and the in-out strategy always come to an end: run for 451 steps, an execution
  has reached \<open>Success\<close>, \<open>Fail\<close>, or an error of the language, whatever its Lambdas return.
\<close>

theorem counted_executions_terminate:
  assumes "slack_keeps F" and "repository_code E compile validate F" and "pydantic validate"
    and "current x = ChooseStrategy" and "runs_counted (document x) = Some 0"
    and "path_get [''strategy''] (document x) = Some st" and "st \<notin> {PStr ''mongo'', PStr ''instance-refresh''}"
  shows "current (drive 451 F V x) \<in> {SuccessState, FailState, Aborted}"
proof (rule ccontr)
  assume "current (drive 451 F V x) \<notin> {SuccessState, FailState, Aborted}"
  with drive_ends [of 451 F V x] have steps: "(sm_step F V ^^ 451) x (drive 451 F V x)" by blast
  have "counting x" using assms(4-7) by (simp add: counting_def)
  from counting_steps [OF assms(1-3) steps this] assms(4) show False by (simp add: rank_def)
qed

section \<open>Sample executions\<close>

definition stuck_site :: env where
  "stuck_site = \<lparr>reply = (\<lambda>h c. case c of
       DescribeAutoScalingGroups \<Rightarrow> Inr (PList [PDict [(''AutoScalingGroups'', PList [one_group ''api-asg-1''])]])
     | DescribeScalingActivities _ _ \<Rightarrow> Inr (PDict [(''Activities'', PList [running_activity])])
     | _ \<Rightarrow> Inr PNone),
     environ = (\<lambda>_. None)\<rparr>"

definition sample_in_out :: "(string \<times> pyval) list" where
  "sample_in_out = [(''component'', PStr ''api''), (''strategy'', PStr ''in-out''), (''success_channel'', PStr ''team'')]"

lemma sample_repository: "repository_code E no_pattern strict_validate (sample_lambdas E)"
  by (simp add: repository_code_def sample_lambdas_def fun_eq_iff)

lemma sample_answers: "slack_answers (sample_lambdas E)"
  by (simp add: slack_answers_def sample_lambdas_def io_return_def)

lemma stuck_site_never_done: "never_done stuck_site no_pattern ''api'' ''api-asg-1''"
proof -
  have "literal_match ''api'' False ''api-asg-1''"
    by (simp add: literal_match_def drop_prefix_def asg_ending_def id_char_def Let_def)
  moreover have "re_sub_end az_suffix ''api'' = ''api''" by (simp add: az_suffix_def)
  moreover have "list_all plain_char ''api''" by (simp add: plain_char_def)
  ultimately show ?thesis
    by (simp add: never_done_def matching_groups_def asg_matcher_def one_group_def py_item_PDict need_str_def stuck_site_def)
qed

lemma in_out_timeout_succeeds_witness:
  "\<exists>u y cs. runs_used_up u \<and> (sm_step (sample_lambdas stuck_site) sample_variables)\<^sup>*\<^sup>* u y \<and> current y = SuccessState \<and>
    path_get [''recycle_success''] (document y) = Some (PBool False) \<and>
    calls y = calls (sample_start sample_in_out) @ cs \<and> (\<nexists>a p. ExecutePolicy a p \<in> set cs) \<and>
    (\<forall>z. (sm_step (sample_lambdas stuck_site) sample_variables)\<^sup>*\<^sup>* u z \<longrightarrow> current z \<noteq> FailState)"
proof -
  let ?x = "sample_start sample_in_out"
  have x: "current ?x = ChooseStrategy" "path_get [''strategy''] (document ?x) = Some (PStr ''in-out'')"
    "path_get [''component''] (document ?x) = Some (PStr ''api'')" "runs_counted (document ?x) = Some 0" "document_typed (document ?x)"
    by (simp_all add: sample_start_def sample_in_out_def runs_counted_def document_typed_def fields_typed_def event_types_def
        required_fields_def)
  from in_out_timeout_succeeds [where V = sample_variables, OF sample_repository [of stuck_site] sample_slack sample_answers
      strict_validate_pydantic x] stuck_site_never_done
  show ?thesis by blast
qed

lemma counted_executions_end_witness:
  "\<exists>n. (sm_step (sample_lambdas stuck_site) sample_variables ^^ n) (sample_start sample_in_out)
      (drive 4 (sample_lambdas stuck_site) sample_variables (sample_start sample_in_out)) \<and> n \<le> 450"
proof -
  from rtranclp_imp_relpowp [OF drive_steps] obtain n where
    n: "(sm_step (sample_lambdas stuck_site) sample_variables ^^ n) (sample_start sample_in_out)
      (drive 4 (sample_lambdas stuck_site) sample_variables (sample_start sample_in_out))" by blast
  with counted_executions_end [OF sample_slack sample_repository strict_validate_pydantic n, of "PStr ''in-out''"]
  show ?thesis by (auto simp: sample_start_def sample_in_out_def runs_counted_def)
qed

lemma counted_executions_terminate_witness:
  "current (drive 451 (sample_lambdas stuck_site) sample_variables (sample_start sample_in_out)) \<in> {SuccessState, FailState, Aborted}"
  by (rule counted_executions_terminate [OF sample_slack sample_repository strict_validate_pydantic, of _ "PStr ''in-out''"])
    (simp_all add: sample_start_def sample_in_out_def runs_counted_def)

end
