(* ===== verification/MachineGaps.thy ===== *)
theory MachineGaps
  imports MachineBounds
begin

text \<open>
  Failures that the state machine does not report: an instance refresh that failed, an error while
  its progress is watched, and a recycle whose message was never sent.
\<close>

section \<open>A failed instance refresh\<close>

definition refresh_failed :: "variables \<Rightarrow> execution \<Rightarrow> bool" where
  "refresh_failed V x =
     (current x = IsRefreshComplete \<and> path_get (output_path (tf_status_name V) @ [''Status'']) (document x) = Some (PStr ''Failed'') \<and>
        path_get [''component''] (document x) \<noteq> None \<or>
      current x = FailedRefresh \<and> path_get [''component''] (document x) \<noteq> None \<or>
      current x \<in> {SlackEnd, StatusChoice} \<and> path_get [''status''] (document x) = Some (PStr ''failed'') \<or>
      current x \<in> {SuccessState, Aborted})"

lemma failed_arguments:
  "path_get [''component''] v \<noteq> None \<Longrightarrow> \<exists>d. slack_arguments V ''failed'' channels content v = Some (PDict d) \<and>
     map_of d ''status'' = Some (PStr ''failed'')"
  by (auto simp: slack_arguments_def)

lemma refresh_failed_step:
  assumes "sm_step F V x y" and "refresh_failed V x" and "slack_keeps F"
  shows "refresh_failed V y"
proof -
  from assms(2) consider "current x = IsRefreshComplete"
      "path_get (output_path (tf_status_name V) @ [''Status'']) (document x) = Some (PStr ''Failed'')"
      "path_get [''component''] (document x) \<noteq> None"
    | "current x = FailedRefresh" "path_get [''component''] (document x) \<noteq> None"
    | "current x = SlackEnd" "path_get [''status''] (document x) = Some (PStr ''failed'')"
    | "current x = StatusChoice" "path_get [''status''] (document x) = Some (PStr ''failed'')"
    | "current x \<in> {SuccessState, FailState, Aborted}"
    by (auto simp: refresh_failed_def)
  then show ?thesis
  proof cases
    case 1
    from step_choice [OF assms(1)] 1 show ?thesis by (auto simp: refresh_failed_def Let_def)
  next
    case 2
    from failed_arguments [OF 2(2)] obtain d where
      "slack_arguments V ''failed'' [tf_slack_channel V, tf_slack_error_channel V]
         [(''color'', PStr ''danger''), (''text'', PStr ''Instance refresh FAILED to completed'')] (document x) = Some (PDict d)"
      "map_of d ''status'' = Some (PStr ''failed'')" by blast
    with step_pass [OF assms(1)] 2(1) show ?thesis by (simp add: refresh_failed_def)
  next
    case 3
    then have node: "sm_node V (current x) = slack_task StatusChoice" by simp
    show ?thesis by (cases rule: step_slack [OF assms(1) node assms(3)]) (use 3 in \<open>auto simp: refresh_failed_def\<close>)
  next
    case 4
    from step_choice [OF assms(1)] 4 show ?thesis by (auto simp: refresh_failed_def)
  next
    case 5
    with step_end [of V x F y] assms(1) show ?thesis by auto
  qed
qed

text \<open>
  C25. A failed instance refresh is not reported as a failure: once the refresh of a component is seen as \<open>Failed\<close>, no
  run of the execution comes to \<open>Fail\<close>, and one comes to \<open>Success\<close>, whatever the Slack Lambda does.
\<close>

theorem failed_refresh_succeeds:
  assumes "slack_keeps F" and "current x = IsRefreshComplete"
    and "path_get (output_path (tf_status_name V) @ [''Status'']) (document x) = Some (PStr ''Failed'')"
    and "path_get [''component''] (document x) \<noteq> None"
  shows "(\<forall>y. (sm_step F V)\<^sup>*\<^sup>* x y \<longrightarrow> current y \<noteq> FailState) \<and>
    (\<exists>y. (sm_step F V)\<^sup>*\<^sup>* x y \<and> current y = SuccessState)"
proof
  have start: "refresh_failed V x" using assms(2-4) by (simp add: refresh_failed_def)
  show "\<forall>y. (sm_step F V)\<^sup>*\<^sup>* x y \<longrightarrow> current y \<noteq> FailState"
  proof (intro allI impI)
    fix y assume "(sm_step F V)\<^sup>*\<^sup>* x y"
    then have "refresh_failed V y"
      by (rule execution_invariant) (use start assms(1) in \<open>auto intro: refresh_failed_step\<close>)
    then show "current y \<noteq> FailState" by (auto simp: refresh_failed_def)
  qed
  let ?at = "\<lambda>st (u :: execution). current u = st \<and> path_get [''component''] (document u) \<noteq> None"
  let ?said = "\<lambda>st (u :: execution). current u = st \<and> (\<exists>d. document u = PDict d \<and> map_of d ''status'' = Some (PStr ''failed''))"
  have "leads F V (\<lambda>u. u = x) (?at FailedRefresh)"
    using assms(2-4) by (intro leads_choice) (auto simp: Let_def)
  also have "leads F V (?at FailedRefresh) (?said SlackEnd)"
  proof (rule leads_step)
    fix u assume u: "?at FailedRefresh u"
    then have node: "sm_node V (current u) = Pass (slack_arguments V ''failed'' [tf_slack_channel V, tf_slack_error_channel V]
       [(''color'', PStr ''danger''), (''text'', PStr ''Instance refresh FAILED to completed'')]) SlackEnd" by simp
    from failed_arguments u obtain d where "slack_arguments V ''failed'' [tf_slack_channel V, tf_slack_error_channel V]
         [(''color'', PStr ''danger''), (''text'', PStr ''Instance refresh FAILED to completed'')] (document u) = Some (PDict d)"
      "map_of d ''status'' = Some (PStr ''failed'')" by blast
    with passed [OF node, of F] show "\<exists>y. sm_step F V u y \<and> ?said SlackEnd y" by (intro exI conjI) auto
  qed
  also have "leads F V (?said SlackEnd) (?said StatusChoice)"
  proof (rule leads_step)
    fix u assume u: "?said SlackEnd u"
    then obtain d where d: "document u = PDict d" "map_of d ''status'' = Some (PStr ''failed'')" by blast
    from u have node: "sm_node V (current u) = Task SlackNotifications [] [] 0 StatusChoice error_path StatusChoice"
      by (simp add: slack_task_def)
    let ?y = "u\<lparr>current := StatusChoice, document := PDict (AList.update ''error-info'' (error_info ''Error'' ''Cause'') d), attempts := 0\<rparr>"
    from task_caught [OF node, of F "''Error''" "''Cause''" "[]"] d have "sm_step F V u ?y" by (simp add: error_path_def)
    with d show "\<exists>y. sm_step F V u y \<and> ?said StatusChoice y" by (intro exI [of _ ?y]) (simp add: update_conv')
  qed
  also have "leads F V (?said StatusChoice) (\<lambda>u. current u = SuccessState)"
    by (intro leads_choice) auto
  finally show "\<exists>y. (sm_step F V)\<^sup>*\<^sup>* x y \<and> current y = SuccessState" by (simp add: leads_def)
qed

section \<open>An error while the progress is watched\<close>

text \<open>
  C26. An error while the progress of an instance refresh is watched is reported to nobody: the error
  replaces the whole document, and the execution ends by a runtime error before the message to Slack.
\<close>

theorem watch_error_unreported:
  assumes "current x = MonitorRefreshProgress" and "sm_step F V x y" and "current y = LambdaErrored" and "(sm_step F V)\<^sup>*\<^sup>* y z"
  shows "current z \<in> {LambdaErrored, Aborted} \<and> calls z = calls y"
proof -
  have y: "path_get [''component''] (document y) = None"
    using assms(2) by (cases rule: sm_stepE) (use assms(1,3) in \<open>auto simp: node_defs move_def error_info_def split: option.splits\<close>)
  let ?lost = "\<lambda>u. (current u = LambdaErrored \<and> path_get [''component''] (document u) = None \<or> current u = Aborted) \<and> calls u = calls y"
  have "?lost z"
  proof (rule execution_invariant [OF assms(4)])
    fix u v assume uv: "sm_step F V u v" "?lost u"
    then consider "current u = LambdaErrored" "path_get [''component''] (document u) = None" "calls u = calls y" | "current u = Aborted"
      by auto
    then show "?lost v"
    proof cases
      case 1
      with uv(1) show ?thesis by (cases rule: sm_stepE) (auto simp: lambda_error_arguments_def node_defs)
    next
      case 2
      with step_end [of V u F v] uv(1) show ?thesis by auto
    qed
  qed (use assms(3) y in simp)
  then show ?thesis by auto
qed

section \<open>A message that was not sent\<close>

text \<open>A check that finds the recycle of \<open>c\<close> complete whenever it is made.\<close>

definition always_complete :: "env \<Rightarrow> pyval \<Rightarrow> bool" where
  "always_complete E c = (\<forall>s :: execution. \<exists>t. check E c s = (Inr True, t))"

definition slack_quiet :: "lambda_code \<Rightarrow> bool" where
  "slack_quiet F = (\<forall>v x. F SlackNotifications v x = (Inr v, x))"

definition sent_report :: "pyval \<Rightarrow> pyval \<Rightarrow> bool" where
  "sent_report c v = (\<exists>d. v = PDict d \<and> monitored d 0 \<and> map_of d ''component'' = Some c \<and>
     map_of d ''status'' \<in> {Some (PStr ''success''), Some (PStr ''failure'')})"

lemma sqs_report: "sent_report c (sqs_output E c b ch)"
  by (auto simp: sent_report_def sqs_output_def monitored_def is_dict_def Let_def)

definition first_call :: "execution \<Rightarrow> call \<Rightarrow> execution \<Rightarrow> bool" where
  "first_call x m y = (\<exists>cs. calls y = calls x @ m # cs)"

lemma first_call_extends: "first_call x m y \<Longrightarrow> extends UNIV y z \<Longrightarrow> first_call x m z"
  by (auto simp: first_call_def extends_def)

text \<open>The execution after its message, and after a check that found the recycle complete.\<close>

definition sent_at :: "execution \<Rightarrow> call \<Rightarrow> pyval \<Rightarrow> sm_state \<Rightarrow> execution \<Rightarrow> bool" where
  "sent_at x m c st u = (current u = st \<and> sent_report c (document u) \<and> first_call x m u)"

definition settled_report :: "pyval \<Rightarrow> bool" where
  "settled_report v = (\<exists>d. v = PDict d \<and> map_of d ''recycle_success'' = Some (PBool True) \<and>
     map_of d ''status'' \<in> {Some (PStr ''success''), Some (PStr ''failure'')})"

definition settled_at :: "execution \<Rightarrow> call \<Rightarrow> sm_state \<Rightarrow> execution \<Rightarrow> bool" where
  "settled_at x m st u = (current u = st \<and> settled_report (document u) \<and> first_call x m u)"

lemma first_call_same: "first_call x m u \<Longrightarrow> calls v = calls u \<Longrightarrow> first_call x m v"
  by (simp add: first_call_def)

lemma quiet_slack:
  assumes "slack_quiet F" and "sm_node V st = slack_task st'"
  shows "leads F V (sent_at x m c st) (sent_at x m c st')" and "leads F V (settled_at x m st) (settled_at x m st')"
  by (rule leads_lambda [of _ V SlackNotifications st'];
      use assms in \<open>auto simp: slack_quiet_def sent_at_def settled_at_def elim: first_call_same\<close>)+

lemma message_sent:
  assumes "repository_code E compile validate F" and "current x = ChooseStrategy" and "document x = PDict d"
    and "standard_strategy (document x)" and "map_of d ''component'' = Some c" and "map_of d ''account_id'' = Some a"
    and "map_of d ''success_channel'' = Some ch"
  shows "leads F V (\<lambda>u. u = x) (sent_at x (recycle_message c a) c SlackStart)"
proof -
  have "leads F V (\<lambda>u. u = x) (\<lambda>u :: execution. current u = StandardRecycle \<and> document u = document x \<and> calls u = calls x)"
    using assms(2,4) by (intro leads_choice) (auto simp: standard_strategy_def split: option.splits)
  also have "leads F V \<dots> (sent_at x (recycle_message c a) c SlackStart)"
  proof (rule leads_lambda [of _ V AutorecycleLambda])
    fix u :: execution assume u: "current u = StandardRecycle \<and> document u = document x \<and> calls u = calls x"
    then show "\<exists>out z. F AutorecycleLambda (document u) u = (Inr out, z) \<and> sent_at x (recycle_message c a) c SlackStart
        (u\<lparr>calls := calls z, current := SlackStart, document := out, attempts := 0\<rparr>)"
      using assms(1,3,5-7)
      by (simp add: repository_code_def sqs_lambda_handler_def io_bind_def io_res_def py_item_PDict send_to_sqs_run sqs_report
          sent_at_def first_call_def)
  qed simp
  finally show ?thesis .
qed

lemma settled_seen:
  assumes "repository_code E compile validate F" and "always_complete E c"
  shows "leads F V (sent_at x m c MonitorAutorecycling) (settled_at x m IsAutorecyclingDone)"
proof (rule leads_lambda [of _ V MonitorLambda])
  fix u assume u: "sent_at x m c MonitorAutorecycling u"
  then obtain e where e: "document u = PDict e" "monitored e 0" "map_of e ''component'' = Some c"
    "map_of e ''status'' \<in> {Some (PStr ''success''), Some (PStr ''failure'')}" by (auto simp: sent_at_def sent_report_def)
  from assms(2) obtain t where "check E c u = (Inr True, t)" unfolding always_complete_def by blast
  with monitor_below_limit [OF e(2,3), of E u] obtain out where
    run: "monitor_lambda_handler E (PDict e) u = (Inr (PDict out), t)" and out: "reported e 0 True out" by auto
  from footprintD [OF monitor_log, of u E "PDict e"] run u have "first_call x m t"
    by (auto simp: sent_at_def elim: first_call_extends)
  with assms(1) run out e show "\<exists>out z. F MonitorLambda (document u) u = (Inr out, z) \<and>
      settled_at x m IsAutorecyclingDone (u\<lparr>calls := calls z, current := IsAutorecyclingDone, document := out, attempts := 0\<rparr>)"
    by (intro exI [of _ "PDict out"] exI [of _ t])
      (simp add: repository_code_def reported_def first_call_def settled_at_def settled_report_def)
qed (simp add: sent_at_def)

text \<open>
  C27. A standard recycle whose message is never accepted can end as a success: when the instances
  of the component look settled to the first check, the execution sends its one message and comes
  to \<open>Success\<close>, whatever the queue answers.
\<close>

theorem unsent_message_succeeds:
  assumes "repository_code E compile validate F" and "slack_quiet F" and "always_complete E c"
    and "current x = ChooseStrategy" and "document x = PDict d" and "standard_strategy (document x)"
    and "map_of d ''component'' = Some c" and "map_of d ''account_id'' = Some a" and "map_of d ''success_channel'' = Some ch"
  shows "\<exists>y cs. (sm_step F V)\<^sup>*\<^sup>* x y \<and> current y = SuccessState \<and> calls y = calls x @ recycle_message c a # cs \<and>
    path_get [''recycle_success''] (document y) = Some (PBool True)"
proof -
  let ?m = "recycle_message c a"
  note simps = settled_at_def settled_report_def first_call_def
  have "leads F V (\<lambda>u. u = x) (sent_at x ?m c SlackStart)" by (rule message_sent [OF assms(1,4-9)])
  also have "leads F V \<dots> (sent_at x ?m c WaitCommencement)" by (rule quiet_slack [OF assms(2)]) simp
  also have "leads F V \<dots> (sent_at x ?m c MonitorAutorecycling)"
    by (rule leads_wait [of _ V 120]) (auto simp: sent_at_def first_call_def)
  also have "leads F V \<dots> (settled_at x ?m IsAutorecyclingDone)" by (rule settled_seen [OF assms(1,3)])
  also have "leads F V \<dots> (settled_at x ?m SlackEnd)" by (intro leads_choice) (auto simp: simps)
  also have "leads F V \<dots> (settled_at x ?m StatusChoice)" by (rule quiet_slack [OF assms(2)]) simp
  also have "leads F V \<dots> (settled_at x ?m SuccessState)" by (intro leads_choice) (auto simp: simps)
  finally obtain y where "(sm_step F V)\<^sup>*\<^sup>* x y" "settled_at x ?m SuccessState y" by (auto simp: leads_def)
  then show ?thesis by (auto simp: simps)
qed

section \<open>Sample executions\<close>

lemma sample_always_complete: "always_complete sample_scaling (PStr ''api'')"
proof -
  have "\<exists>t. check sample_scaling (PStr ''api'') s = (Inr True, t)" for s :: execution
  proof -
    have asg: "monitor_describe_asg sample_scaling (PStr ''api'') s =
        (Inr (group_json sample_group), s\<lparr>calls := calls s @ [DescribeAutoScalingGroups]\<rparr>)"
      by (simp add: monitor_describe_asg_def io_eval sample_scaling_def monitor_find_asg_json py_str_def) (simp add: sample_group_def)
    have acts: "\<exists>t. monitor_scaling_activities sample_scaling (PStr (group_name sample_group)) u =
        (Inr (PList (map activity_json (sample_activities ''api-asg-1''))), t)" for u :: execution
      by (simp add: monitor_scaling_activities_def io_eval sample_scaling_def py_item_PDict py_str_def sample_group_def)
    from sample_complete [of "''api-asg-1''"] acts [of "s\<lparr>calls := calls s @ [DescribeAutoScalingGroups]\<rparr>"] show ?thesis
      by (auto simp: check_def io_bind_def io_res_def io_return_def asg group_json_items get_launching_activities_json
          check_instances_complete [OF group_json_items(3)] recycle_complete_def Let_def)
  qed
  then show ?thesis by (simp add: always_complete_def)
qed

lemma sample_quiet: "slack_quiet (sample_lambdas E)"
  by (simp add: slack_quiet_def sample_lambdas_def io_return_def)

lemma unsent_message_succeeds_witness:
  "\<not> accepted (reply sample_scaling [] (recycle_message (PStr ''api'') (PStr ''1''))) \<and>
   (\<exists>y. (sm_step (sample_lambdas sample_scaling) sample_variables)\<^sup>*\<^sup>* (sample_start sample_standard) y \<and> current y = SuccessState)"
proof -
  from unsent_message_succeeds [OF sample_repository sample_quiet sample_always_complete,
      of "sample_start sample_standard" sample_standard "PStr ''1''" "PStr ''team''" sample_variables]
  have "\<exists>y. (sm_step (sample_lambdas sample_scaling) sample_variables)\<^sup>*\<^sup>* (sample_start sample_standard) y \<and> current y = SuccessState"
    by (auto simp: sample_start_def sample_standard_def standard_strategy_def)
  moreover have "\<not> accepted (reply sample_scaling [] (recycle_message (PStr ''api'') (PStr ''1'')))"
    by (simp add: sample_scaling_def recycle_message_def accepted_def)
  ultimately show ?thesis by blast
qed

definition refresh_document :: "string \<Rightarrow> pyval" where
  "refresh_document st = PDict [(''component'', PStr ''api''), (''start-output'', PDict []),
     (''status-output'', PDict [(''Status'', PStr st)])]"

lemma failed_refresh_succeeds_witness:
  "\<exists>y. (sm_step (sample_lambdas sample_scaling) sample_variables)\<^sup>*\<^sup>*
      \<lparr>calls = [], current = IsRefreshComplete, document = refresh_document ''Failed'', attempts = 0\<rparr> y \<and> current y = SuccessState"
  using failed_refresh_succeeds [OF sample_slack,
      of "\<lparr>calls = [], current = IsRefreshComplete, document = refresh_document ''Failed'', attempts = 0\<rparr>" sample_variables sample_scaling]
  by (simp add: refresh_document_def sample_variables_def output_path_def path_get.simps(2))

lemma watch_error_unreported_witness:
  "current (drive 3 (sample_lambdas sample_scaling) sample_variables
     \<lparr>calls = [], current = LambdaErrored, document = error_info ''Error'' ''Cause'', attempts = 0\<rparr>) \<in> {LambdaErrored, Aborted}"
proof -
  let ?x = "\<lparr>calls = [], current = MonitorRefreshProgress, document = refresh_document ''Pending'', attempts = 0\<rparr> :: execution"
  let ?y = "\<lparr>calls = [], current = LambdaErrored, document = error_info ''Error'' ''Cause'', attempts = 0\<rparr> :: execution"
  have "sm_node sample_variables (current ?x) = Task RefreshStatusLambda (output_path (tf_start_name sample_variables))
      (output_path (tf_status_name sample_variables)) 8 IsRefreshComplete [] LambdaErrored"
    by (simp add: refresh_task_def)
  from task_caught [OF this, of "sample_lambdas sample_scaling" "''Error''" "''Cause''" "[]"]
  have "sm_step (sample_lambdas sample_scaling) sample_variables ?x ?y"
    by (simp add: refresh_document_def sample_variables_def output_path_def path_get.simps(2))
  from watch_error_unreported [OF _ this _ drive_steps] show ?thesis by simp
qed

end
