(* ===== verification/InvokeSF.thy ===== *)
theory InvokeSF
  imports AutorecycleSqs Json
begin

text \<open>
  The Lambda that starts a recycle when an Auto Scaling Group changes,
  \<open>autorecycle_invoke_stepfunctions/\<close>: the component named by a CloudTrail event, the recycling
  tags of its group, and the step function execution they ask for. The lemmas say for which events
  and tags an execution is started, and with which input.
\<close>

section \<open>The component of an event: \<open>get_component_details.py\<close>\<close>

text \<open>\<open>obj[key].split(sep)[0]\<close> of a string; any other object has no \<open>split\<close>.\<close>

definition component_of_name :: "pyval \<Rightarrow> string res" where
  "component_of_name v = res_bind (need_str v (no_attribute v ''split'')) (\<lambda>n. Inr (split_head ''-asg-'' n))"

definition tag_events :: "string list" where
  "tag_events = [''CreateOrUpdateTags'', ''DeleteTags'']"

definition tag_event_component :: "pyval \<Rightarrow> string option res" where
  "tag_event_component params =
     res_bind (py_in ''tags'' params) (\<lambda>has_tags.
     if \<not> has_tags then Inr None
     else
       res_bind (py_item params ''tags'') (\<lambda>tags.
       res_bind (py_index tags 0) (\<lambda>tag.
       res_bind (py_item tag ''resourceId'') (\<lambda>rid.
       res_bind (component_of_name rid) (\<lambda>name.
       Inr (if name = [] then None else Some name))))))"

definition update_event_component :: "pyval \<Rightarrow> string option res" where
  "update_event_component params =
     res_bind (py_item params ''autoScalingGroupName'') (\<lambda>asg.
     res_bind (component_of_name asg) (\<lambda>name.
     if name = [] then Inr None
     else
       res_bind (py_in ''launchConfigurationName'' params) (\<lambda>has_config.
       res_bind (if has_config then Inr True else py_in ''launchTemplate'' params) (\<lambda>changed.
       Inr (if changed then Some name else None)))))"

definition get_component_name :: "pyval \<Rightarrow> string option res" where
  "get_component_name event =
     res_bind (py_in ''detail'' event) (\<lambda>has_detail.
     res_bind (if has_detail then res_bind (py_item event ''detail'') (\<lambda>v. Inr (is_dict v)) else Inr False) (\<lambda>ok.
     if \<not> ok then Inr None
     else
       res_bind (py_item event ''detail'') (\<lambda>detail.
       res_bind (py_in ''requestParameters'' detail) (\<lambda>has_params.
       res_bind (if has_params then res_bind (py_item detail ''requestParameters'') (\<lambda>v. Inr (is_dict v)) else Inr False)
         (\<lambda>ok2.
       if \<not> ok2 then Inr None
       else
         res_bind (py_item detail ''requestParameters'') (\<lambda>params.
         res_bind (py_get detail ''eventName'' PNone) (\<lambda>event_name.
         if list_ex (\<lambda>n. py_eq event_name (PStr n)) tag_events
         then tag_event_component params
         else update_event_component params)))))))"

definition required_tags :: "string list" where
  "required_tags = [''autorecycle_recycle_on_asg_update'', ''autorecycle_strategy'']"

definition assert_recyclable :: "pyval \<Rightarrow> bool res" where
  "assert_recyclable asg_tags =
     res_bind (res_filter (\<lambda>tag. res_bind (py_in tag asg_tags) (\<lambda>b. Inr (\<not> b))) required_tags) (\<lambda>missing_tags.
     if missing_tags \<noteq> [] then Inr False
     else res_bind (py_item asg_tags ''autorecycle_recycle_on_asg_update'') (\<lambda>v. Inr (py_truth v)))"

section \<open>The Auto Scaling Group and its tags: \<open>aws.py\<close>\<close>

definition autorecycle_tag_names :: "(string \<times> string) list" where
  "autorecycle_tag_names =
     [(''autorecycle_override_component_name'', ''string''),
      (''autorecycle_recycle_on_asg_update'', ''boolean''),
      (''autorecycle_strategy'', ''string''),
      (''autorecycle_slack_monitoring_channel'', ''string''),
      (''autorecycle_notify_pager_duty'', ''boolean''),
      (''autorecycle_team'', ''string''),
      (''autorecycle_step_function_name'', ''string''),
      (''autorecycle_dry_run'', ''boolean'')]"

text \<open>
  The search of the paginator is a library call; its reply is the list of the groups that match,
  of which \<open>next\<close> takes the first.
\<close>

definition get_asg :: "env \<Rightarrow> string \<Rightarrow> ('z world_scheme, pyval) io" where
  "get_asg E component =
     io_bind (request E (SearchAutoScalingGroups
         (''AutoScalingGroups[] | [?contains(Tags[?Key==`Name`].Value, `'' @ component @ ''`)]''))) (\<lambda>matches.
     io_bind (io_res (py_iter matches)) (\<lambda>asgs.
     case asgs of
       [] \<Rightarrow> io_raise (Exn StopIteration None)
     | asg # _ \<Rightarrow> io_return asg))"

definition get_tag_values :: "pyval \<Rightarrow> string \<Rightarrow> pyval list res" where
  "get_tag_values tags_list tag_name =
     res_bind (py_iter tags_list) (\<lambda>tags.
     res_comp (\<lambda>tag. res_bind (py_item tag ''Key'') (\<lambda>k. Inr (py_eq k (PStr tag_name))))
       (\<lambda>tag. py_item tag ''Value'') tags)"

definition add_tag :: "pyval \<Rightarrow> string \<Rightarrow> pyval \<Rightarrow> pyval res" where
  "add_tag response_tags tag_name tags =
     res_bind (get_tag_values response_tags tag_name) (\<lambda>values.
     case values of [] \<Rightarrow> Inr tags | v # _ \<Rightarrow> py_set_item tags tag_name v)"

definition add_boolean_tag :: "pyval \<Rightarrow> string \<Rightarrow> pyval \<Rightarrow> pyval res" where
  "add_boolean_tag response_tags tag_name tags =
     res_bind (get_tag_values response_tags tag_name) (\<lambda>values.
     case values of
       [] \<Rightarrow> Inr tags
     | v # _ \<Rightarrow>
         res_bind (need_str v (no_attribute v ''lower'')) (\<lambda>txt.
         py_set_item tags tag_name (PBool (str_lower txt = ''true''))))"

fun add_all :: "(string \<Rightarrow> pyval \<Rightarrow> pyval res) \<Rightarrow> string list \<Rightarrow> pyval \<Rightarrow> pyval res" where
  "add_all add [] tags = Inr tags"
| "add_all add (n # ns) tags = res_bind (add n tags) (add_all add ns)"

definition tag_names_of :: "string \<Rightarrow> string list" where
  "tag_names_of kind = map fst (filter (\<lambda>(k, v). v = kind) autorecycle_tag_names)"

definition autorecycling_tags :: "pyval \<Rightarrow> pyval res" where
  "autorecycling_tags response_tags =
     res_bind (add_all (add_tag response_tags) (tag_names_of ''string'') (PDict []))
       (add_all (add_boolean_tag response_tags) (tag_names_of ''boolean''))"

definition get_autorecycling_tags :: "env \<Rightarrow> pyval \<Rightarrow> ('z world_scheme, pyval) io" where
  "get_autorecycling_tags E asg_name =
     io_bind (request E (DescribeTags (PList
         [PDict [(''Name'', PStr ''auto-scaling-group''), (''Values'', PList [asg_name])],
          PDict [(''Name'', PStr ''key''), (''Values'', PList (map (PStr \<circ> fst) autorecycle_tag_names))]]))) (\<lambda>answer.
     io_bind (io_res (py_item answer ''Tags'')) (\<lambda>response_tags.
     io_res (autorecycling_tags response_tags)))"

section \<open>Account and environment: \<open>get_account_details.py\<close>, \<open>get_environment.py\<close>\<close>

definition os_environ :: "env \<Rightarrow> string \<Rightarrow> string res" where
  "os_environ E name = (case environ E name of None \<Rightarrow> Inl (Exn KeyError (Some (PStr name))) | Some v \<Rightarrow> Inr v)"

definition get_account_id :: "env \<Rightarrow> string res" where
  "get_account_id E = os_environ E ''ACCOUNT_ID''"

definition get_slack_channel :: "env \<Rightarrow> string res" where
  "get_slack_channel E = os_environ E ''SLACK_CHANNEL''"

definition get_current_environment :: "env \<Rightarrow> pyval" where
  "get_current_environment E = os_getenv E ''ENVIRONMENT''"

section \<open>Starting the execution: \<open>sf_start_execution.py\<close>\<close>

definition state_machine_arn :: "pyval \<Rightarrow> string res" where
  "state_machine_arn payload =
     res_bind (py_in ''step_function_name'' payload) (\<lambda>named.
     if named
     then
       res_bind (py_item payload ''account_id'') (\<lambda>account.
       res_bind (py_item payload ''step_function_name'') (\<lambda>name.
       Inr (''arn:aws:states:eu-west-2:'' @ py_str account @ '':stateMachine:'' @ py_str name)))
     else
       res_bind (py_item payload ''account_id'') (\<lambda>account.
       Inr (''arn:aws:states:eu-west-2:'' @ py_str account @ '':stateMachine:autorecycle'')))"

definition sf_start_execution :: "env \<Rightarrow> pyval \<Rightarrow> ('z world_scheme, unit) io" where
  "sf_start_execution E payload =
     io_bind (io_res (state_machine_arn payload)) (\<lambda>sf_arn.
     io_bind (io_res (py_item payload ''component'')) (\<lambda>component.
     io_bind (request E LocalTimeStamp) (\<lambda>stamp.
     io_catch_class ClientError
       (io_bind (io_res (json_dumps payload)) (\<lambda>doc.
        io_then (request E (StartExecution sf_arn (py_str component @ ''-'' @ py_str stamp) doc)) (io_return ())))
       (\<lambda>_. io_return ()))))"

section \<open>The handler: \<open>handler.py\<close>\<close>

definition payload_to_asg_tag_map :: "(string \<times> string) list" where
  "payload_to_asg_tag_map =
     [(''strategy'', ''autorecycle_strategy''),
      (''monitoring_slack_channel'', ''autorecycle_slack_monitoring_channel''),
      (''notify_pager_duty'', ''autorecycle_notify_pager_duty''),
      (''team'', ''autorecycle_team''),
      (''step_function_name'', ''autorecycle_step_function_name''),
      (''dry_run'', ''autorecycle_dry_run'')]"

fun add_payload :: "pyval \<Rightarrow> (string \<times> string) list \<Rightarrow> pyval \<Rightarrow> pyval res" where
  "add_payload asg_tags [] payload = Inr payload"
| "add_payload asg_tags ((payload_key, tag_name) # rest) payload =
     res_bind (py_in tag_name asg_tags) (\<lambda>tagged.
     res_bind (if tagged then res_bind (py_item asg_tags tag_name) (py_set_item payload payload_key) else Inr payload)
       (add_payload asg_tags rest))"

definition construct_payload :: "pyval \<Rightarrow> pyval \<Rightarrow> pyval \<Rightarrow> pyval \<Rightarrow> pyval \<Rightarrow> pyval res" where
  "construct_payload account_id slack_channel component autoscaling_group_name asg_tags =
     add_payload asg_tags payload_to_asg_tag_map
       (PDict [(''account_id'', account_id), (''success_channel'', slack_channel), (''component'', component),
               (''auto_scaling_group_name'', autoscaling_group_name), (''emoji'', PStr '':robot_face:'')])"

definition invoke_lambda_handler :: "env \<Rightarrow> pyval \<Rightarrow> ('z world_scheme, unit) io" where
  "invoke_lambda_handler E event =
     io_bind (io_res (get_component_name event)) (\<lambda>found.
     case found of
       None \<Rightarrow> io_return ()
     | Some component \<Rightarrow>
         io_bind (io_res (get_account_id E)) (\<lambda>account_id.
         io_bind (io_res (get_slack_channel E)) (\<lambda>slack_channel.
         io_bind (get_asg E component) (\<lambda>asg.
         io_bind (io_res (py_item asg ''AutoScalingGroupName'')) (\<lambda>asg_name.
         io_bind (get_autorecycling_tags E asg_name) (\<lambda>asg_tags.
         io_bind (io_res (assert_recyclable asg_tags)) (\<lambda>recyclable.
         if recyclable
         then
           io_bind (io_res (py_get asg_tags ''autorecycle_override_component_name'' (PStr component))) (\<lambda>override.
           io_bind (io_res (construct_payload (PStr account_id) (PStr slack_channel) override asg_name asg_tags)) (\<lambda>payload.
           sf_start_execution E payload))
         else io_return ())))))))"

section \<open>The component name\<close>

lemma split_head_before:
  assumes "\<not> str_contains sep (c @ butlast sep)" and "sep \<noteq> []"
  shows "split_head sep (c @ sep @ rest) = c"
  using assms
proof (induction c)
  case Nil
  then show ?case by (cases sep) auto
next
  case (Cons x c)
  have "\<not> prefix sep (x # c @ sep @ rest)"
  proof
    have "x # c @ sep @ rest = (x # c @ butlast sep) @ last sep # rest" using Cons.prems(2) by simp
    moreover assume "prefix sep (x # c @ sep @ rest)"
    moreover have "length sep \<le> length (x # c @ butlast sep)" by (cases sep) auto
    ultimately have "prefix sep (x # c @ butlast sep)"
      by (metis prefix_length_prefix prefixI)
    with Cons.prems(1) show False by simp
  qed
  with Cons show ?case by simp
qed

lemma component_of_asg_name:
  assumes "\<not> str_contains ''-asg-'' (c @ ''-asg'')"
  shows "component_of_name (PStr (c @ ''-asg-'' @ rest)) = Inr c"
  using split_head_before [of "''-asg-''" c rest] assms by (simp add: component_of_name_def)

text \<open>
  C34. The component of an event is what stands before \<open>-asg-\<close> in the name of its group. An update of
  the group names it only when the event carries a launch configuration or a launch template;
  a change of its tags always does, through the first tag.
\<close>

theorem get_component_name_event:
  assumes "map_of event ''detail'' = Some (PDict detail)"
    and "map_of detail ''requestParameters'' = Some (PDict params)"
    and "c \<noteq> []" and "\<not> str_contains ''-asg-'' (c @ ''-asg'')"
  shows "(map_of detail ''eventName'' \<notin> {Some (PStr ''CreateOrUpdateTags''), Some (PStr ''DeleteTags'')} \<longrightarrow>
      map_of params ''autoScalingGroupName'' = Some (PStr (c @ ''-asg-'' @ rest)) \<longrightarrow>
      get_component_name (PDict event) =
        Inr (if map_of params ''launchConfigurationName'' = None \<and> map_of params ''launchTemplate'' = None
             then None else Some c)) \<and>
    (map_of detail ''eventName'' \<in> {Some (PStr ''CreateOrUpdateTags''), Some (PStr ''DeleteTags'')} \<longrightarrow>
      map_of params ''tags'' = Some (PList (PDict tag # others)) \<longrightarrow>
      map_of tag ''resourceId'' = Some (PStr (c @ ''-asg-'' @ rest)) \<longrightarrow>
      get_component_name (PDict event) = Inr (Some c))"
proof -
  define n where "n = c @ ''-asg-'' @ rest"
  have named: "component_of_name (PStr n) = Inr c"
    unfolding n_def by (rule component_of_asg_name [OF assms(4)])
  have kind: "list_ex (\<lambda>n. py_eq (case map_of detail ''eventName'' of Some v \<Rightarrow> v | None \<Rightarrow> PNone) (PStr n)) tag_events =
      (map_of detail ''eventName'' \<in> {Some (PStr ''CreateOrUpdateTags''), Some (PStr ''DeleteTags'')})"
    by (auto simp: tag_events_def split: option.splits)
  have "get_component_name (PDict event) =
      (if map_of detail ''eventName'' \<in> {Some (PStr ''CreateOrUpdateTags''), Some (PStr ''DeleteTags'')}
       then tag_event_component (PDict params) else update_event_component (PDict params))"
    by (simp add: get_component_name_def py_item_PDict assms(1,2) is_dict_def kind del: py_eq_PStr_right)
  moreover have "map_of params ''autoScalingGroupName'' = Some (PStr n) \<Longrightarrow>
      update_event_component (PDict params) =
        Inr (if map_of params ''launchConfigurationName'' = None \<and> map_of params ''launchTemplate'' = None
             then None else Some c)"
    using assms(3) by (simp add: update_event_component_def py_item_PDict named)
  moreover have "map_of params ''tags'' = Some (PList (PDict tag # others)) \<Longrightarrow>
      map_of tag ''resourceId'' = Some (PStr n) \<Longrightarrow>
      tag_event_component (PDict params) = Inr (Some c)"
    using assms(3) by (simp add: tag_event_component_def py_item_PDict py_index_def list_index_zero named)
  ultimately show ?thesis unfolding n_def [symmetric] by simp
qed

definition sample_params :: "(string \<times> pyval) list" where
  "sample_params = [(''autoScalingGroupName'', PStr ''api-asg-2024''), (''launchTemplate'', PDict [])]"

definition sample_detail :: "(string \<times> pyval) list" where
  "sample_detail = [(''eventName'', PStr ''UpdateAutoScalingGroup''), (''requestParameters'', PDict sample_params)]"

definition sample_update :: "(string \<times> pyval) list" where
  "sample_update = [(''detail'', PDict sample_detail)]"

lemma get_component_name_event_witness:
  "get_component_name (PDict sample_update) = Inr (Some ''api'')"
  using get_component_name_event [of sample_update sample_detail sample_params "''api''" "''2024''" "[]" "[]"]
  by (simp add: sample_update_def sample_detail_def sample_params_def)

section \<open>The recycling tags\<close>

text \<open>The tags of a group as the \<open>DescribeTags\<close> response lists them.\<close>

definition tags_json :: "(string \<times> string) list \<Rightarrow> pyval" where
  "tags_json kvs = PList (map (\<lambda>(k, v). PDict [(''Key'', PStr k), (''Value'', PStr v)]) kvs)"

lemma get_tag_values_json:
  "get_tag_values (tags_json kvs) n = Inr (map (PStr \<circ> snd) (filter (\<lambda>kv. fst kv = n) kvs))"
proof -
  have "res_comp (\<lambda>tag. res_bind (py_item tag ''Key'') (\<lambda>k. Inr (py_eq k (PStr n)))) (\<lambda>tag. py_item tag ''Value'')
      (map (\<lambda>(k, v). PDict [(''Key'', PStr k), (''Value'', PStr v)]) kvs)
    = Inr (map (PStr \<circ> snd) (filter (\<lambda>kv. fst kv = n) kvs))"
    by (induction kvs) (auto simp: py_item_PDict)
  then show ?thesis by (simp add: get_tag_values_def tags_json_def)
qed

lemma first_value:
  "(case map (PStr \<circ> snd) (filter (\<lambda>kv. fst kv = n) kvs) of [] \<Rightarrow> a | v # _ \<Rightarrow> g v) =
     (case map_of kvs n of None \<Rightarrow> a | Some v \<Rightarrow> g (PStr v))"
  by (induction kvs) auto

text \<open>What a tag becomes: its text, or for a boolean tag whether its text is \<open>true\<close>.\<close>

definition tag_value :: "string \<Rightarrow> string \<Rightarrow> pyval" where
  "tag_value kind v = (if kind = ''string'' then PStr v else PBool (str_lower v = ''true''))"

lemma tag_value_fun:
  "tag_value ''string'' = PStr" "tag_value ''boolean'' = (\<lambda>v. PBool (str_lower v = ''true''))"
  by (simp_all add: tag_value_def fun_eq_iff)

lemma add_tag_json:
  "add_tag (tags_json kvs) n (PDict d) =
     Inr (PDict (case map_of kvs n of None \<Rightarrow> d | Some v \<Rightarrow> AList.update n (tag_value ''string'' v) d))"
  by (simp add: add_tag_def get_tag_values_json first_value tag_value_def split: option.splits)

lemma add_boolean_tag_json:
  "add_boolean_tag (tags_json kvs) n (PDict d) =
     Inr (PDict (case map_of kvs n of None \<Rightarrow> d | Some v \<Rightarrow> AList.update n (tag_value ''boolean'' v) d))"
  by (simp add: add_boolean_tag_def get_tag_values_json first_value tag_value_def split: option.splits)

lemma add_all_json:
  assumes "\<And>n d. add n (PDict d) = Inr (PDict (case map_of kvs n of None \<Rightarrow> d | Some v \<Rightarrow> AList.update n (f v) d))"
  shows "\<exists>d'. add_all add ns (PDict d) = Inr (PDict d') \<and>
    (\<forall>k. map_of d' k = (case map_of kvs k of Some v \<Rightarrow> if k \<in> set ns then Some (f v) else map_of d k | None \<Rightarrow> map_of d k))"
proof (induction ns arbitrary: d)
  case (Cons n ns)
  show ?case
  proof (cases "map_of kvs n")
    case None
    from Cons.IH [of d] obtain d' where "add_all add ns (PDict d) = Inr (PDict d')"
      "\<forall>k. map_of d' k = (case map_of kvs k of Some v \<Rightarrow> if k \<in> set ns then Some (f v) else map_of d k | None \<Rightarrow> map_of d k)"
      by blast
    with None show ?thesis by (intro exI [of _ d']) (auto simp: assms split: option.splits)
  next
    case (Some v)
    let ?d = "AList.update n (f v) d"
    from Cons.IH [of ?d] obtain d' where "add_all add ns (PDict ?d) = Inr (PDict d')"
      "\<forall>k. map_of d' k = (case map_of kvs k of Some v \<Rightarrow> if k \<in> set ns then Some (f v) else map_of ?d k | None \<Rightarrow> map_of ?d k)"
      by blast
    with Some show ?thesis by (intro exI [of _ d']) (auto simp: assms update_conv' split: option.splits)
  qed
qed (auto split: option.splits)

lemma tag_names_kind:
  "k \<in> set (tag_names_of kind) \<longleftrightarrow> map_of autorecycle_tag_names k = Some kind"
  by (auto simp: tag_names_of_def autorecycle_tag_names_def split: if_splits)

lemma autorecycling_tags_json:
  "\<exists>d. autorecycling_tags (tags_json kvs) = Inr (PDict d) \<and>
     (\<forall>k. map_of d k =
        (case map_of autorecycle_tag_names k of None \<Rightarrow> None | Some kind \<Rightarrow> map_option (tag_value kind) (map_of kvs k)))"
proof -
  obtain d1 where 1: "add_all (add_tag (tags_json kvs)) (tag_names_of ''string'') (PDict []) = Inr (PDict d1)"
    and d1: "\<And>k. map_of d1 k = (case map_of kvs k of
        Some v \<Rightarrow> if k \<in> set (tag_names_of ''string'') then Some (tag_value ''string'' v) else map_of [] k | None \<Rightarrow> map_of [] k)"
    using add_all_json [OF add_tag_json, of kvs "tag_names_of ''string''" "[]"] by blast
  obtain d2 where 2: "add_all (add_boolean_tag (tags_json kvs)) (tag_names_of ''boolean'') (PDict d1) = Inr (PDict d2)"
    and d2: "\<And>k. map_of d2 k = (case map_of kvs k of
        Some v \<Rightarrow> if k \<in> set (tag_names_of ''boolean'') then Some (tag_value ''boolean'' v) else map_of d1 k | None \<Rightarrow> map_of d1 k)"
    using add_all_json [OF add_boolean_tag_json, of kvs "tag_names_of ''boolean''" d1] by blast
  have kinds: "map_of autorecycle_tag_names k \<in> {None, Some ''string'', Some ''boolean''}" for k
    by (simp add: autorecycle_tag_names_def)
  have "map_of d2 k = (case map_of autorecycle_tag_names k of None \<Rightarrow> None
      | Some kind \<Rightarrow> map_option (tag_value kind) (map_of kvs k))" for k
    using kinds [of k] by (auto simp: d2 d1 tag_names_kind split: option.splits)
  with 1 2 show ?thesis by (simp add: autorecycling_tags_def)
qed

text \<open>
  The tags the Lambda works with are exactly the known recycling tags of the group, each with
  its first value: text tags as they are, boolean tags true exactly when their text is \<open>true\<close> in
  any case. Unknown tags are left out.
\<close>

theorem autorecycling_tags_spec:
  "\<exists>d. autorecycling_tags (tags_json kvs) = Inr (PDict d) \<and>
     (\<forall>k. map_of d k =
        (case map_of autorecycle_tag_names k of
           None \<Rightarrow> None
         | Some kind \<Rightarrow> map_option (\<lambda>v. if kind = ''string'' then PStr v else PBool (str_lower v = ''true''))
                          (map_of kvs k)))"
  using autorecycling_tags_json [of kvs] unfolding tag_value_def .

section \<open>The payload and the execution\<close>

lemma plain_update: "plain (PDict d) \<Longrightarrow> plain v \<Longrightarrow> plain (PDict (AList.update k v d))"
proof -
  assume d: "plain (PDict d)" and v: "plain v"
  have "list_all (\<lambda>(k, v). plain v) d" using d by simp
  then have "list_all (\<lambda>(k, v). plain v) (AList.update k v d)" using v by (induction d) auto
  with d show ?thesis by (simp add: distinct_update)
qed

lemma add_payload_spec:
  assumes "distinct (map fst ps)" and "plain (PDict d)"
    and tags: "\<forall>k v. map_of tags k = Some v \<longrightarrow> plain v"
  shows "\<exists>d'. add_payload (PDict tags) ps (PDict d) = Inr (PDict d') \<and> plain (PDict d') \<and>
    (\<forall>k. map_of d' k =
       (case Option.bind (map_of ps k) (map_of tags) of Some v \<Rightarrow> Some v | None \<Rightarrow> map_of d k))"
  using assms(1,2)
proof (induction ps arbitrary: d)
  case (Cons p ps)
  obtain key tag where p: "p = (key, tag)" by fastforce
  have dist: "distinct (map fst ps)" using Cons.prems(1) by simp
  show ?case
  proof (cases "map_of tags tag")
    case None
    from Cons.IH [OF dist Cons.prems(2)] obtain d' where "add_payload (PDict tags) ps (PDict d) = Inr (PDict d')"
      "plain (PDict d')"
      "\<forall>k. map_of d' k = (case Option.bind (map_of ps k) (map_of tags) of Some v \<Rightarrow> Some v | None \<Rightarrow> map_of d k)"
      by blast
    moreover have "map_of ps key = None" using Cons.prems(1) p by (simp add: map_of_eq_None_iff)
    ultimately show ?thesis using None by (intro exI [of _ d']) (simp add: p)
  next
    case (Some v)
    let ?d = "AList.update key v d"
    have "plain (PDict ?d)" using Cons.prems(2) tags Some
      by (intro plain_update) simp_all
    from Cons.IH [OF dist this] obtain d' where "add_payload (PDict tags) ps (PDict ?d) = Inr (PDict d')"
      "plain (PDict d')"
      "\<forall>k. map_of d' k = (case Option.bind (map_of ps k) (map_of tags) of Some v \<Rightarrow> Some v | None \<Rightarrow> map_of ?d k)"
      by blast
    moreover have "map_of ps key = None" using Cons.prems(1) p by (simp add: map_of_eq_None_iff)
    ultimately show ?thesis using Some
      by (intro exI [of _ d']) (simp add: p py_item_PDict update_conv' split: option.splits)
  qed
qed simp

text \<open>\<open>payload_doc\<close>: the payload a group's tags ask for, key by key.\<close>

definition payload_base :: "string \<Rightarrow> string \<Rightarrow> string \<Rightarrow> string \<Rightarrow> (string \<times> pyval) list" where
  "payload_base account channel component grp =
     [(''account_id'', PStr account), (''success_channel'', PStr channel), (''component'', PStr component),
      (''auto_scaling_group_name'', PStr grp), (''emoji'', PStr '':robot_face:'')]"

definition payload_lookup ::
    "string \<Rightarrow> string \<Rightarrow> string \<Rightarrow> string \<Rightarrow> (string \<times> string) list \<Rightarrow> string \<Rightarrow> pyval option" where
  "payload_lookup account channel component grp kvs k =
     (case map_of payload_to_asg_tag_map k of
        Some tag \<Rightarrow> map_option (tag_value (the (map_of autorecycle_tag_names tag))) (map_of kvs tag)
      | None \<Rightarrow> map_of (payload_base account channel component grp) k)"

lemma construct_payload_json:
  assumes "autorecycling_tags (tags_json kvs) = Inr (PDict tags)"
  shows "\<exists>doc. construct_payload (PStr account) (PStr channel) (PStr component) (PStr grp) (PDict tags) = Inr (PDict doc) \<and>
    plain (PDict doc) \<and> (\<forall>k. map_of doc k = payload_lookup account channel component grp kvs k)"
proof -
  from autorecycling_tags_json [of kvs] assms have
    tags: "\<And>k. map_of tags k = (case map_of autorecycle_tag_names k of None \<Rightarrow> None
      | Some kind \<Rightarrow> map_option (tag_value kind) (map_of kvs k))" by auto
  have able: "\<forall>k v. map_of tags k = Some v \<longrightarrow> plain v"
    by (auto simp: tags tag_value_def split: option.splits if_splits)
  have dist: "distinct (map fst payload_to_asg_tag_map)" by (simp add: payload_to_asg_tag_map_def)
  have base: "plain (PDict (payload_base account channel component grp))"
    by (simp add: payload_base_def)
  from add_payload_spec [OF dist base able] obtain doc where doc: "construct_payload (PStr account) (PStr channel) (PStr component) (PStr grp) (PDict tags) = Inr (PDict doc)"
      "plain (PDict doc)"
    and get: "\<And>k. map_of doc k = (case Option.bind (map_of payload_to_asg_tag_map k) (map_of tags) of
        Some v \<Rightarrow> Some v | None \<Rightarrow> map_of (payload_base account channel component grp) k)"
    unfolding construct_payload_def payload_base_def by blast
  have known: "map_of payload_to_asg_tag_map k = Some tag \<Longrightarrow>
      (\<exists>kind. map_of autorecycle_tag_names tag = Some kind) \<and> map_of (payload_base account channel component grp) k = None" for k tag
    by (auto simp: payload_to_asg_tag_map_def autorecycle_tag_names_def payload_base_def split: if_splits)
  have "map_of doc k = payload_lookup account channel component grp kvs k" for k
    using known by (fastforce simp: get payload_lookup_def tags split: option.splits)
  with doc show ?thesis by blast
qed

definition search_call :: "string \<Rightarrow> call" where
  "search_call c = SearchAutoScalingGroups (''AutoScalingGroups[] | [?contains(Tags[?Key==`Name`].Value, `'' @ c @ ''`)]'')"

definition tags_call :: "string \<Rightarrow> call" where
  "tags_call grp = DescribeTags (PList
     [PDict [(''Name'', PStr ''auto-scaling-group''), (''Values'', PList [PStr grp])],
      PDict [(''Name'', PStr ''key''), (''Values'', PList (map (PStr \<circ> fst) autorecycle_tag_names))]])"

text \<open>A group with these tags is to be recycled: the two required tags, the switch being true.\<close>

definition recycling_on :: "(string \<times> string) list \<Rightarrow> bool" where
  "recycling_on kvs =
     (map_of kvs ''autorecycle_strategy'' \<noteq> None \<and>
      map_option str_lower (map_of kvs ''autorecycle_recycle_on_asg_update'') = Some ''true'')"

definition machine_arn :: "string \<Rightarrow> (string \<times> string) list \<Rightarrow> string" where
  "machine_arn account kvs = ''arn:aws:states:eu-west-2:'' @ account @ '':stateMachine:'' @
     (case map_of kvs ''autorecycle_step_function_name'' of None \<Rightarrow> ''autorecycle'' | Some n \<Rightarrow> n)"

definition recycled_component :: "string \<Rightarrow> (string \<times> string) list \<Rightarrow> string" where
  "recycled_component c kvs = (case map_of kvs ''autorecycle_override_component_name'' of None \<Rightarrow> c | Some n \<Rightarrow> n)"

lemma assert_recyclable_json:
  assumes "autorecycling_tags (tags_json kvs) = Inr (PDict tags)"
  shows "assert_recyclable (PDict tags) = Inr (recycling_on kvs)"
    and "py_get (PDict tags) ''autorecycle_override_component_name'' (PStr c) = Inr (PStr (recycled_component c kvs))"
proof -
  from autorecycling_tags_json [of kvs] assms have
    tags: "\<And>k. map_of tags k = (case map_of autorecycle_tag_names k of None \<Rightarrow> None
      | Some kind \<Rightarrow> map_option (tag_value kind) (map_of kvs k))" by auto
  have "map_of tags ''autorecycle_strategy'' = map_option PStr (map_of kvs ''autorecycle_strategy'')"
    and "map_of tags ''autorecycle_recycle_on_asg_update'' =
      map_option (\<lambda>v. PBool (str_lower v = ''true'')) (map_of kvs ''autorecycle_recycle_on_asg_update'')"
    and "map_of tags ''autorecycle_override_component_name'' = map_option PStr (map_of kvs ''autorecycle_override_component_name'')"
    by (simp_all add: tags autorecycle_tag_names_def tag_value_fun)
  note t = this
  show "assert_recyclable (PDict tags) = Inr (recycling_on kvs)"
    using t(1,2) by (cases "map_of kvs ''autorecycle_recycle_on_asg_update''")
      (auto simp: assert_recyclable_def required_tags_def py_item_PDict recycling_on_def)
  show "py_get (PDict tags) ''autorecycle_override_component_name'' (PStr c) = Inr (PStr (recycled_component c kvs))"
    using t(3) by (simp add: recycled_component_def split: option.splits)
qed

lemma sf_start_execution_json:
  assumes doc: "\<And>k. map_of doc k = payload_lookup account channel component grp kvs k" and "plain (PDict doc)"
    and "reply E (calls s) LocalTimeStamp = Inr stamp"
  shows "sf_start_execution E (PDict doc) s =
     (let start = StartExecution (machine_arn account kvs) (component @ ''-'' @ py_str stamp) (PStr (json_text (PDict doc)))
      in (case reply E (calls s @ [LocalTimeStamp]) start of
            Inl e \<Rightarrow> if exn_cls e = ClientError then Inr () else Inl e | Inr _ \<Rightarrow> Inr (),
          s\<lparr>calls := calls s @ [LocalTimeStamp, start]\<rparr>))"
proof -
  have "map_of doc ''account_id'' = Some (PStr account)" "map_of doc ''component'' = Some (PStr component)"
    "map_of doc ''step_function_name'' = map_option PStr (map_of kvs ''autorecycle_step_function_name'')"
    by (simp_all add: doc payload_lookup_def payload_to_asg_tag_map_def payload_base_def autorecycle_tag_names_def
        tag_value_fun)
  then have "state_machine_arn (PDict doc) = Inr (machine_arn account kvs)"
    "py_item (PDict doc) ''component'' = Inr (PStr component)"
    by (auto simp: state_machine_arn_def py_item_PDict machine_arn_def split: option.splits)
  with plain_json_able [OF assms(2)] assms(3) show ?thesis
    by (auto simp: sf_start_execution_def json_dumps_def io_eval Let_def split: sum.splits)
qed

text \<open>
  C29. The input of an execution is read back as the payload: whatever tags a group has, they are read, the payload is constructed from them,
  and the text that is sent as the input is one that \<open>json.loads\<close> reads as that very payload, with the same keys in
  the same order, strings as strings and switches as booleans. Nothing else is sent.
\<close>

theorem execution_input_roundtrip:
  assumes "reply E (calls s) LocalTimeStamp = Inr stamp"
  shows "\<exists>tags payload arn input r.
    autorecycling_tags (tags_json kvs) = Inr tags \<and>
    construct_payload (PStr account) (PStr channel) (PStr component) (PStr grp) tags = Inr payload \<and>
    sf_start_execution E payload s =
      (r, s\<lparr>calls := calls s @ [LocalTimeStamp, StartExecution arn (component @ ''-'' @ py_str stamp) (PStr input)]\<rparr>) \<and>
    json_loads input = Inr payload"
proof -
  obtain tags where tags: "autorecycling_tags (tags_json kvs) = Inr (PDict tags)" using autorecycling_tags_json by blast
  from construct_payload_json [OF this] obtain doc where
    doc: "construct_payload (PStr account) (PStr channel) (PStr component) (PStr grp) (PDict tags) = Inr (PDict doc)"
      "plain (PDict doc)" "\<And>k. map_of doc k = payload_lookup account channel component grp kvs k" by blast
  from sf_start_execution_json [of doc, OF doc(3,2) assms] obtain r where "sf_start_execution E (PDict doc) s =
      (r, s\<lparr>calls := calls s @ [LocalTimeStamp, StartExecution (machine_arn account kvs) (component @ ''-'' @ py_str stamp)
        (PStr (json_text (PDict doc)))]\<rparr>)" unfolding Let_def by blast
  with tags doc(1) dumps_loads [OF doc(2)] show ?thesis by blast
qed

text \<open>The answers of the services from which the Lambda learns the group of a component and its tags.\<close>

definition tagged_group :: "env \<Rightarrow> call list \<Rightarrow> string \<Rightarrow> string \<Rightarrow> (string \<times> string) list \<Rightarrow> bool" where
  "tagged_group E h c grp kvs =
     (\<exists>asg others answer. reply E h (search_call c) = Inr (PList (PDict asg # others)) \<and>
        map_of asg ''AutoScalingGroupName'' = Some (PStr grp) \<and>
        reply E (h @ [search_call c]) (tags_call grp) = Inr (PDict answer) \<and>
        map_of answer ''Tags'' = Some (tags_json kvs))"

lemma invoke_run:
  assumes "get_component_name event = Inr (Some c)"
    and "environ E ''ACCOUNT_ID'' = Some account" and "environ E ''SLACK_CHANNEL'' = Some channel"
    and "tagged_group E (calls s) c grp kvs" and "autorecycling_tags (tags_json kvs) = Inr (PDict tags)"
    and "u = s\<lparr>calls := calls s @ [search_call c, tags_call grp]\<rparr>"
  shows "invoke_lambda_handler E event s =
    (if recycling_on kvs
     then io_bind (io_res (construct_payload (PStr account) (PStr channel) (PStr (recycled_component c kvs)) (PStr grp) (PDict tags)))
            (sf_start_execution E) u
     else (Inr (), u))"
proof -
  from assms(4) obtain asg others answer where group: "reply E (calls s) (search_call c) = Inr (PList (PDict asg # others))"
      "map_of asg ''AutoScalingGroupName'' = Some (PStr grp)"
    and answer: "reply E (calls s @ [search_call c]) (tags_call grp) = Inr (PDict answer)"
      "map_of answer ''Tags'' = Some (tags_json kvs)"
    unfolding tagged_group_def by blast
  have asg: "get_asg E c s = (Inr (PDict asg), s\<lparr>calls := calls s @ [search_call c]\<rparr>)"
    using group by (simp add: get_asg_def io_eval search_call_def)
  have tagged: "get_autorecycling_tags E (PStr grp) (s\<lparr>calls := calls s @ [search_call c]\<rparr>) = (Inr (PDict tags), u)"
    using answer assms(5,6) by (simp add: get_autorecycling_tags_def io_eval tags_call_def py_item_PDict)
  have "(case map_of tags ''autorecycle_override_component_name'' of None \<Rightarrow> PStr c | Some v \<Rightarrow> v) =
      PStr (recycled_component c kvs)"
    using assert_recyclable_json(2) [OF assms(5), of c] by simp
  with assms(1-3) group(2) show ?thesis
    by (simp add: invoke_lambda_handler_def io_bind_def io_res_def io_return_def get_account_id_def
        get_slack_channel_def os_environ_def asg tagged assert_recyclable_json(1) [OF assms(5)] py_item_PDict)
qed

text \<open>\<open>started\<close>: the call that starts an execution for a group, and the document its input reads as.\<close>

definition started ::
    "string \<Rightarrow> string \<Rightarrow> string \<Rightarrow> string \<Rightarrow> (string \<times> string) list \<Rightarrow> pyval \<Rightarrow> call \<Rightarrow> (string \<times> pyval) list \<Rightarrow> bool" where
  "started account channel c grp kvs stamp start doc =
     (\<exists>input. start = StartExecution (machine_arn account kvs) (recycled_component c kvs @ ''-'' @ py_str stamp) (PStr input) \<and>
        json_loads input = Inr (PDict doc) \<and>
        (\<forall>k. map_of doc k = payload_lookup account channel (recycled_component c kvs) grp kvs k))"

lemma invoke_started:
  assumes "get_component_name event = Inr (Some c)"
    and "environ E ''ACCOUNT_ID'' = Some account" and "environ E ''SLACK_CHANNEL'' = Some channel"
    and "tagged_group E (calls s) c grp kvs"
    and "reply E (calls s @ [search_call c, tags_call grp]) LocalTimeStamp = Inr stamp" and "recycling_on kvs"
  obtains start doc where "started account channel c grp kvs stamp start doc"
    "invoke_lambda_handler E event s =
      (case reply E (calls s @ [search_call c, tags_call grp, LocalTimeStamp]) start of
         Inl e \<Rightarrow> if exn_cls e = ClientError then Inr () else Inl e | Inr _ \<Rightarrow> Inr (),
       s\<lparr>calls := calls s @ [search_call c, tags_call grp, LocalTimeStamp, start]\<rparr>)"
proof -
  obtain tags where tags: "autorecycling_tags (tags_json kvs) = Inr (PDict tags)"
    using autorecycling_tags_json by blast
  let ?u = "s\<lparr>calls := calls s @ [search_call c, tags_call grp]\<rparr>"
  from construct_payload_json [OF tags] obtain doc where
    doc: "construct_payload (PStr account) (PStr channel) (PStr (recycled_component c kvs)) (PStr grp) (PDict tags) = Inr (PDict doc)"
      "plain (PDict doc)" "\<And>k. map_of doc k = payload_lookup account channel (recycled_component c kvs) grp kvs k"
    by blast
  let ?start = "StartExecution (machine_arn account kvs) (recycled_component c kvs @ ''-'' @ py_str stamp) (PStr (json_text (PDict doc)))"
  have "started account channel c grp kvs stamp ?start doc"
    using loads_text [OF doc(2)] doc(3) unfolding started_def by blast
  moreover have "invoke_lambda_handler E event s =
      (case reply E (calls s @ [search_call c, tags_call grp, LocalTimeStamp]) ?start of
         Inl e \<Rightarrow> if exn_cls e = ClientError then Inr () else Inl e | Inr _ \<Rightarrow> Inr (),
       s\<lparr>calls := calls s @ [search_call c, tags_call grp, LocalTimeStamp, ?start]\<rparr>)"
    using sf_start_execution_json [of doc, OF doc(3,2), of E ?u stamp] invoke_run [OF assms(1-4) tags] assms(5,6) doc(1)
    by (simp add: io_bind_def io_res_def Let_def del: json_text.simps)
  ultimately show thesis by (rule that)
qed

text \<open>
  C12. For an event that names a component, the Lambda looks its group up, reads its tags, and starts
  one execution exactly when the recycling tags are on. The execution runs on the state machine
  the tags name (or \<open>autorecycle\<close>), its name starts with the component the tags override, and its
  input is a JSON text that reads as an object with the account, the channel, the group, and each tag
  of the payload's map that the group has, under its payload key. A \<open>ClientError\<close> of the start is swallowed; any other error is not.
\<close>

theorem invoke_starts_execution:
  assumes "get_component_name event = Inr (Some c)"
    and "environ E ''ACCOUNT_ID'' = Some account" and "environ E ''SLACK_CHANNEL'' = Some channel"
    and "reply E (calls s) (search_call c) = Inr (PList (PDict asg # others))"
    and "map_of asg ''AutoScalingGroupName'' = Some (PStr grp)"
    and "reply E (calls s @ [search_call c]) (tags_call grp) = Inr (PDict answer)"
    and "map_of answer ''Tags'' = Some (tags_json kvs)"
    and "reply E (calls s @ [search_call c, tags_call grp]) LocalTimeStamp = Inr stamp"
  shows "if recycling_on kvs
    then \<exists>doc input. (let start = StartExecution (machine_arn account kvs) (recycled_component c kvs @ ''-'' @ py_str stamp) (PStr input)
      in invoke_lambda_handler E event s =
        (case reply E (calls s @ [search_call c, tags_call grp, LocalTimeStamp]) start of
           Inl e \<Rightarrow> if exn_cls e = ClientError then Inr () else Inl e | Inr _ \<Rightarrow> Inr (),
         s\<lparr>calls := calls s @ [search_call c, tags_call grp, LocalTimeStamp, start]\<rparr>)) \<and>
      json_loads input = Inr (PDict doc) \<and>
      (\<forall>k. map_of doc k = payload_lookup account channel (recycled_component c kvs) grp kvs k)
    else invoke_lambda_handler E event s = (Inr (), s\<lparr>calls := calls s @ [search_call c, tags_call grp]\<rparr>)"
proof -
  have group: "tagged_group E (calls s) c grp kvs" using assms(4-7) unfolding tagged_group_def by blast
  show ?thesis
  proof (cases "recycling_on kvs")
    case True
    from invoke_started [OF assms(1-3) group assms(8) True] obtain start doc where
      "started account channel c grp kvs stamp start doc" and
      run: "invoke_lambda_handler E event s =
        (case reply E (calls s @ [search_call c, tags_call grp, LocalTimeStamp]) start of
           Inl e \<Rightarrow> if exn_cls e = ClientError then Inr () else Inl e | Inr _ \<Rightarrow> Inr (),
         s\<lparr>calls := calls s @ [search_call c, tags_call grp, LocalTimeStamp, start]\<rparr>)" .
    then obtain input where
      "start = StartExecution (machine_arn account kvs) (recycled_component c kvs @ ''-'' @ py_str stamp) (PStr input)"
      "json_loads input = Inr (PDict doc)"
      "\<forall>k. map_of doc k = payload_lookup account channel (recycled_component c kvs) grp kvs k"
      unfolding started_def by blast
    with run True show ?thesis unfolding Let_def by auto
  next
    case False
    obtain tags where "autorecycling_tags (tags_json kvs) = Inr (PDict tags)" using autorecycling_tags_json by blast
    from invoke_run [OF assms(1-3) group this refl] False show ?thesis by simp
  qed
qed

definition sample_tags :: "(string \<times> string) list" where
  "sample_tags = [(''autorecycle_strategy'', ''in-out''), (''autorecycle_recycle_on_asg_update'', ''True''),
     (''autorecycle_team'', ''infra'')]"

definition sample_account :: env where
  "sample_account = \<lparr>reply = (\<lambda>h c. case c of
       SearchAutoScalingGroups _ \<Rightarrow> Inr (PList [PDict [(''AutoScalingGroupName'', PStr ''api-asg-2024'')]])
     | DescribeTags _ \<Rightarrow> Inr (PDict [(''Tags'', tags_json sample_tags)])
     | LocalTimeStamp \<Rightarrow> Inr (PStr ''20240101120000'')
     | _ \<Rightarrow> Inr PNone),
     environ = map_of [(''ACCOUNT_ID'', ''1''), (''SLACK_CHANNEL'', ''team'')]\<rparr>"

lemma sample_update_component: "get_component_name (PDict sample_update) = Inr (Some ''api'')"
  by (simp add: get_component_name_def sample_update_def sample_detail_def sample_params_def py_item_PDict is_dict_def
      tag_events_def update_event_component_def component_of_name_def)

lemma invoke_starts_execution_witness:
  "\<exists>doc input. calls (snd (invoke_lambda_handler sample_account (PDict sample_update) fresh_world)) =
     [search_call ''api'', tags_call ''api-asg-2024'', LocalTimeStamp,
      StartExecution ''arn:aws:states:eu-west-2:1:stateMachine:autorecycle'' ''api-20240101120000'' (PStr input)] \<and>
     json_loads input = Inr (PDict doc) \<and> map_of doc ''strategy'' = Some (PStr ''in-out'')"
proof -
  have on: "recycling_on sample_tags"
    by (simp add: recycling_on_def sample_tags_def str_lower_def lower_char_def) (simp add: char_of_def bit_simps)
  have "\<exists>doc input. calls (snd (invoke_lambda_handler sample_account (PDict sample_update) fresh_world)) =
      [search_call ''api'', tags_call ''api-asg-2024'', LocalTimeStamp,
       StartExecution (machine_arn ''1'' sample_tags) (recycled_component ''api'' sample_tags @ ''-'' @ py_str (PStr ''20240101120000'')) (PStr input)] \<and>
      json_loads input = Inr (PDict doc) \<and>
      (\<forall>k. map_of doc k = payload_lookup ''1'' ''team'' (recycled_component ''api'' sample_tags) ''api-asg-2024'' sample_tags k)"
    using invoke_starts_execution [OF sample_update_component, of sample_account "''1''" "''team''" fresh_world
        "[(''AutoScalingGroupName'', PStr ''api-asg-2024'')]" "[]" "''api-asg-2024''" "[(''Tags'', tags_json sample_tags)]"
        sample_tags "PStr ''20240101120000''"] on
    by (auto simp: sample_account_def fresh_world_def search_call_def tags_call_def Let_def)
  moreover have "machine_arn ''1'' sample_tags = ''arn:aws:states:eu-west-2:1:stateMachine:autorecycle''"
    "recycled_component ''api'' sample_tags = ''api''"
    "payload_lookup ''1'' ''team'' ''api'' ''api-asg-2024'' sample_tags ''strategy'' = Some (PStr ''in-out'')"
    by (simp_all add: machine_arn_def recycled_component_def payload_lookup_def payload_to_asg_tag_map_def
        autorecycle_tag_names_def tag_value_def sample_tags_def)
  ultimately show ?thesis by auto
qed

lemma execution_input_roundtrip_witness:
  "\<exists>tags payload arn input r.
    autorecycling_tags (tags_json sample_tags) = Inr tags \<and>
    construct_payload (PStr ''1'') (PStr ''team'') (PStr ''api'') (PStr ''api-asg-2024'') tags = Inr payload \<and>
    sf_start_execution sample_account payload fresh_world =
      (r, \<lparr>calls = [LocalTimeStamp, StartExecution arn ''api-20240101120000'' (PStr input)]\<rparr>) \<and>
    json_loads input = Inr payload"
  using execution_input_roundtrip [of sample_account fresh_world "PStr ''20240101120000''" sample_tags "''1''" "''team''" "''api''"
      "''api-asg-2024''"]
  by (simp add: sample_account_def fresh_world_def)

end
