(* ===== verification/MachineInOut.thy ===== *)
theory MachineInOut
  imports MachineBounds
begin

text \<open>
  What an execution of the in-out strategy that succeeds has done: its scaling Lambda found nothing
  left to do, or its runs ran out.
\<close>

section \<open>A run of the scaling Lambda\<close>

text \<open>
  \<open>nothing_left E compile c s t\<close>: from some state after \<open>s\<close> and before \<open>t\<close>, the last activities of all groups of
  \<open>c\<close> were complete and successful, and no group had an instance to replace or was empty.
\<close>

definition nothing_left :: "env \<Rightarrow> (string \<Rightarrow> (string \<Rightarrow> bool) res) \<Rightarrow> string \<Rightarrow> execution \<Rightarrow> execution \<Rightarrow> bool" where
  "nothing_left E compile c s t =
     (\<exists>u asgs details. extends UNIV s u \<and> decided E compile (PStr c) u asgs details None \<and> extends UNIV u t)"

lemma scale_finds:
  assumes "scale_lambda_handler E compile validate v x = (Inr out, y)" and "pydantic validate"
    and "runs_counted v = Some n" and "0 \<le> n" and "n < 60" and "path_get [''component''] v = Some (PStr c)"
  shows "path_get [''component''] out = Some (PStr c)"
    and "recycled out \<Longrightarrow> \<exists>asgs details. decided E compile (PStr c) x asgs details None"
proof -
  from scale_run [OF assms(1-5)] obtain e f o' where e: "validate v = Inr e" and f: "ev_component f = ev_component e"
    "ev_counter f = Some (PInt n)" and run: "scale_asg E compile f x = (Inr o', y)" and out: "out = model_dump o'" .
  from validated_component [OF assms(2) e assms(6)] f have c: "field_or PNone (ev_component f) = PStr c" by (simp add: field_or_def)
  from scale_asg_counts [OF f(2), of E compile x] run c out show "path_get [''component''] out = Some (PStr c)"
    by (simp add: model_dump_get)
  from f(2) have "ev_counter f \<in> {None, Some PNone} \<union> range (Some \<circ> PInt)" by simp
  from scale_asg_run [OF run this c] have "run_outcome E compile (PStr c) x o' (calls y)" by auto
  then show "recycled out \<Longrightarrow> \<exists>asgs details. decided E compile (PStr c) x asgs details None"
    by (simp add: run_outcome_def recycled_def out model_dump_get)
qed

section \<open>An execution that succeeds\<close>

definition in_out_found :: "env \<Rightarrow> (string \<Rightarrow> (string \<Rightarrow> bool) res) \<Rightarrow> string \<Rightarrow> execution \<Rightarrow> execution \<Rightarrow> bool" where
  "in_out_found E compile c x0 x = (recycled (document x) \<and> nothing_left E compile c x0 x)"

definition runs_out :: "execution \<Rightarrow> bool" where
  "runs_out x = (path_get [''counter''] (document x) = Some (PInt 21))"

definition in_out_running :: "env \<Rightarrow> (string \<Rightarrow> (string \<Rightarrow> bool) res) \<Rightarrow> string \<Rightarrow> execution \<Rightarrow> execution \<Rightarrow> bool" where
  "in_out_running E compile c x0 x =
     (since x0 x \<and> current x = ChooseStrategy \<and> path_get [''strategy''] (document x) = Some (PStr ''in-out'') \<and>
        runs_counted (document x) = Some 0 \<or>
      since x0 x \<and> current x = RecycleSingle \<and> countable_run (document x) \<or>
      since x0 x \<and> current x \<in> {IsFirstRun, SlackSingle, WaitSingle, IsSingleDone} \<and> counted (document x) \<and>
        (recycled (document x) \<longrightarrow> in_out_found E compile c x0 x) \<or>
      ending (\<lambda>y. in_out_found E compile c x0 y \<or> runs_out y) x)"

lemma in_out_found_kept:
  assumes "in_out_found E compile c x0 x" and "same_fields x y" and "extends UNIV x y"
  shows "in_out_found E compile c x0 y"
  using assms(1) same_fieldsD [OF assms(2), of "''recycle_success''"] extends_trans [OF _ assms(3)]
  unfolding in_out_found_def nothing_left_def recycled_def by auto

lemma recycled_back: "same_fields x y \<Longrightarrow> recycled (document y) \<Longrightarrow> recycled (document x)"
  using same_fieldsD [of x y "''recycle_success''"] by (simp add: recycled_def)

lemma scale_task:
  assumes "scale_lambda_handler E compile validate (document x) x = (Inr out, z)" and "pydantic validate"
    and "since x0 x" and "path_get [''component''] (document x0) = Some (PStr c)" and "countable_run (document x)"
    and "document y = out" and "calls y = calls z"
  shows "since x0 y \<and> counted out \<and> (recycled out \<longrightarrow> in_out_found E compile c x0 y)"
proof -
  from assms(5) obtain n where n: "runs_counted (document x) = Some n" "0 \<le> n" "n \<le> 20" by (auto simp: countable_run_def)
  then have less: "n < 60" by simp
  from assms(3,4) have c: "path_get [''component''] (document x) = Some (PStr c)" by (simp add: since_def)
  note finds = scale_finds [OF assms(1,2) n(1,2) less c]
  from footprintD [OF scale_log, of x E compile validate "document x"] assms(1,7) have log: "extends UNIV x y"
    by (simp add: extends_def)
  with assms(3,4,6) finds(1) have "since x0 y" by (auto simp: since_def intro: extends_trans)
  moreover from counted_run [OF n scale_counts [OF assms(1,2) n(1,2) less]] have "counted out" by simp
  moreover have "in_out_found E compile c x0 y" if "recycled out"
    using finds(2) [OF that] that assms(3,6) log unfolding in_out_found_def nothing_left_def since_def by auto
  ultimately show ?thesis by blast
qed

lemma in_out_running_step:
  assumes "sm_step F V x y" and "in_out_running E compile c x0 x" and "slack_keeps F" and "keeps_log F"
    and "F ScaleAsgLambda = scale_lambda_handler E compile validate" and "pydantic validate"
    and "path_get [''component''] (document x0) = Some (PStr c)"
  shows "in_out_running E compile c x0 y"
proof -
  note step = since_step [OF _ assms(4,1)]
  note found = in_out_found_kept [OF _ _ step_log [OF assms(4,1)]]
  have stays: "same_fields x y \<Longrightarrow> counted (document x) \<and> (recycled (document x) \<longrightarrow> in_out_found E compile c x0 x) \<Longrightarrow>
      counted (document y) \<and> (recycled (document y) \<longrightarrow> in_out_found E compile c x0 y)"
    using counted_keep [of "document x" "document y"] same_fieldsD [of x y "''counter''"] found recycled_back by auto
  from assms(2) consider "since x0 x" "current x = ChooseStrategy" "path_get [''strategy''] (document x) = Some (PStr ''in-out'')"
      "runs_counted (document x) = Some 0"
    | "since x0 x" "current x = RecycleSingle" "countable_run (document x)"
    | "since x0 x" "current x \<in> {IsFirstRun, SlackSingle, WaitSingle}"
      "counted (document x) \<and> (recycled (document x) \<longrightarrow> in_out_found E compile c x0 x)"
    | "since x0 x" "current x = IsSingleDone" "counted (document x)" "recycled (document x) \<longrightarrow> in_out_found E compile c x0 x"
    | "ending (\<lambda>y. in_out_found E compile c x0 y \<or> runs_out y) x"
    by (auto simp: in_out_running_def)
  then show ?thesis
  proof cases
    case 1
    from step_choice [OF assms(1)] 1 step show ?thesis
      by (auto simp: in_out_running_def countable_run_def)
  next
    case 2
    then have node: "sm_node V (current x) = lambda_task ScaleAsgLambda IsFirstRun" by simp
    show ?thesis
      by (cases rule: step_lambda [OF assms(1) node])
        (use 2 step assms(5) scale_task [OF _ assms(6) 2(1) assms(7) 2(3)] in \<open>auto simp: in_out_running_def ending_def\<close>)
  next
    case 3
    from stays 3(3) have keeps: "same_fields x y \<Longrightarrow> current y \<in> {SlackSingle, WaitSingle, IsSingleDone} \<Longrightarrow> ?thesis"
      using since_same [OF 3(1) assms(4,1)] by (auto simp: in_out_running_def)
    have aborts: "current y = Aborted \<Longrightarrow> ?thesis" by (simp add: in_out_running_def ending_def)
    from 3(2) consider (first) "current x = IsFirstRun" | (slack) "current x = SlackSingle" | (pause) "current x = WaitSingle" by auto
    then show ?thesis
    proof cases
      case first
      with step_choice [OF assms(1), of "[(NumericLessThanEquals [''counter''] 1, SlackSingle)]" WaitSingle] keeps aborts
        same_document [of y x] show ?thesis
        by (auto split: option.splits if_splits bool.splits)
    next
      case slack
      then have node: "sm_node V (current x) = slack_task WaitSingle" by simp
      show ?thesis by (cases rule: step_slack [OF assms(1) node assms(3)]) (use keeps aborts in \<open>auto simp: same_fields_def\<close>)
    next
      case pause
      with step_wait [OF assms(1), of 60 IsSingleDone] keeps same_document [of y x] show ?thesis by auto
    qed
  next
    case 4
    from 4(3) obtain n where n: "path_get [''counter''] (document x) = Some (PInt n)" "1 \<le> n" "n \<le> 21"
      by (auto simp: counted_def)
    from step_choice [OF assms(1), of "[(BooleanEquals [''recycle_success''] True, SlackEnd),
        (NumericGreaterThan [''counter''] 20, SlackEnd)]" RecycleSingle] 4 n step found [OF _ same_document]
    show ?thesis
      by (auto simp: in_out_running_def ending_def recycled_def runs_out_def json_number_def countable_run_def runs_counted_def
          split: option.splits if_splits bool.splits)
  next
    case 5
    have "runs_out y" if "same_fields x y" "runs_out x"
      using that same_fieldsD [of x y "''counter''"] by (simp add: runs_out_def)
    with found have "ending (\<lambda>y. in_out_found E compile c x0 y \<or> runs_out y) y"
      by (intro ending_step [OF assms(1) 5 assms(3)]) auto
    then show ?thesis by (simp add: in_out_running_def)
  qed
qed

lemma in_out_success:
  assumes "slack_keeps F" and "keeps_log F" and "F ScaleAsgLambda = scale_lambda_handler E compile validate"
    and "pydantic validate" and "(sm_step F V)\<^sup>*\<^sup>* x y" and "current x = ChooseStrategy"
    and "path_get [''strategy''] (document x) = Some (PStr ''in-out'')" and "runs_counted (document x) = Some 0"
    and "path_get [''component''] (document x) = Some (PStr c)" and "current y = SuccessState"
  shows "in_out_found E compile c x y \<or> runs_out y"
proof -
  have "in_out_running E compile c x y"
    by (rule execution_invariant [OF assms(5)])
      (use assms(1-4,6-9) in \<open>auto simp: in_out_running_def [of _ _ _ x x] since_def intro: in_out_running_step\<close>)
  with assms(10) show ?thesis by (auto simp: in_out_running_def ending_def)
qed

text \<open>
  C10. An execution of the in-out strategy that succeeds found, after its start, the last activities
  of all groups of its component complete and successful and nothing left to scale, and reports
  that; or it came to the end of its 21 runs.
\<close>

theorem in_out_success_scaled:
  assumes "slack_keeps F" and "keeps_log F" and "F ScaleAsgLambda = scale_lambda_handler E compile validate"
    and "pydantic validate" and "(sm_step F V)\<^sup>*\<^sup>* x y" and "current x = ChooseStrategy"
    and "path_get [''strategy''] (document x) = Some (PStr ''in-out'')" and "runs_counted (document x) = Some 0"
    and "path_get [''component''] (document x) = Some (PStr c)" and "current y = SuccessState"
  shows "path_get [''recycle_success''] (document y) = Some (PBool True) \<and>
      (\<exists>u asgs details. extends UNIV x u \<and> decided E compile (PStr c) u asgs details None \<and> extends UNIV u y) \<or>
    path_get [''counter''] (document y) = Some (PInt 21)"
  using in_out_success [OF assms] unfolding in_out_found_def recycled_def nothing_left_def runs_out_def by blast

section \<open>A component with nothing to do\<close>

definition tidy_group :: scaling_group where
  "tidy_group = \<lparr>sg_name = ''api-asg-1'', sg_version = Some ''2'', sg_instances = [(''i-1'', Some ''2'')]\<rparr>"

definition tidy_site :: env where
  "tidy_site = \<lparr>reply = (\<lambda>h c. case c of
       DescribeAutoScalingGroups \<Rightarrow> Inr (PList [PDict [(''AutoScalingGroups'', PList [scaling_group_json tidy_group])]])
     | DescribeScalingActivities _ _ \<Rightarrow> Inr (PDict [(''Activities'', PList [last_activity_json (Some 5)])])
     | ReadClock \<Rightarrow> Inr (PDate False 0)
     | _ \<Rightarrow> Inr PNone),
     environ = (\<lambda>_. None)\<rparr>"

lemma tidy_matching: "matching_groups no_pattern ''api'' [scaling_group_json tidy_group] = Inr [scaling_group_json tidy_group]"
proof -
  have "literal_match ''api'' False ''api-asg-1''"
    by (simp add: literal_match_def drop_prefix_def asg_ending_def id_char_def Let_def)
  moreover have "re_sub_end az_suffix ''api'' = ''api''" by (simp add: az_suffix_def)
  moreover have "list_all plain_char ''api''" by (simp add: plain_char_def)
  ultimately show ?thesis
    using matching_groups_json [of "''api''" "''api''" no_pattern "[tidy_group]"] by (simp add: tidy_group_def)
qed

lemma tidy_next:
  "\<exists>v. get_next_asg_action tidy_site [scaling_group_json tidy_group] [(''api-asg-1'', last_activity_json (Some 5))] u = (Inr None, v)"
proof -
  have "reply tidy_site h ReadClock = Inr (PDate False 0)" for h by (simp add: tidy_site_def)
  from first_group_to_shrink_json [OF this, of "[tidy_group]" "[tidy_group]" "\<lambda>_. Some 5" u]
  obtain v where "first_group_to_shrink tidy_site [(''api-asg-1'', last_activity_json (Some 5))] [scaling_group_json tidy_group] u = (Inr None, v)"
    by (cases "first_group_to_shrink tidy_site [(''api-asg-1'', last_activity_json (Some 5))] [scaling_group_json tidy_group] u")
      (simp add: details_json_def tidy_group_def kept_def recent_def minutes_def)
  with first_empty_group_json [of "[tidy_group]"] show ?thesis
    by (simp add: get_next_asg_action_def io_bind_def io_res_def io_return_def) (simp add: tidy_group_def)
qed

lemma tidy_scale:
  assumes "ev_component e = Some (PStr ''api'')" and "ev_counter e = Some (PInt 0)"
  shows "\<exists>out t. scale_asg tidy_site no_pattern e s = (Inr out, t) \<and> ev_counter out = Some (PInt 1) \<and>
    ev_recycle_success out = Some (PBool True) \<and> ev_status out = Some (PBool True)"
proof -
  let ?g = "scaling_group_json tidy_group" and ?act = "last_activity_json (Some 5)"
  obtain out0 where out0: "create_output_params e = Inr out0" and f: "ev_counter out0 = Some (PInt 1)"
    using assms by (simp add: create_output_params_def Let_def field_or_def)
  have groups: "\<exists>t. describe_asg tidy_site no_pattern (PStr ''api'') s = (Inr [?g], t)"
    by (simp add: describe_asg_def io_eval need_str_def)
      (simp add: tidy_site_def all_groups_def py_iter_def py_item_PDict tidy_matching)
  have activities: "\<exists>u. activity_details tidy_site [?g] [] t = (Inr [(''api-asg-1'', ?act)], u)" for t :: "'a world_scheme"
    by (simp add: io_eval scaling_items describe_scaling_activities_def py_str_def)
      (simp add: tidy_site_def tidy_group_def py_item_PDict py_len_def py_index_def list_index_def Let_def io_eval)
  have over: "get_overall_progress [?act] = Inr True" "get_overall_statuscode [?act] = Inr True"
    by (simp_all add: get_overall_progress_def get_overall_statuscode_def last_activity_json_def py_get_def)
  from groups activities tidy_next obtain t u v where
    "describe_asg tidy_site no_pattern (PStr ''api'') s = (Inr [?g], t)"
    "activity_details tidy_site [?g] [] t = (Inr [(''api-asg-1'', ?act)], u)"
    "get_next_asg_action tidy_site [?g] [(''api-asg-1'', ?act)] u = (Inr None, v)" by meson
  with over assms(1) have "scale_groups tidy_site no_pattern e flds out0 s =
      (Inr ((with_message ''good'' flds initiated True out0)\<lparr>ev_status := Some (PBool True)\<rparr>), v)" for flds
    by (simp add: scale_groups_def scale_next_def io_bind_def io_res_def io_return_def field_or_def)
  with out0 f show ?thesis
    by (simp add: scale_asg_def io_bind_def io_res_def io_catch_def Let_def with_message_def)
qed

lemma tidy_sample:
  "current (drive 8 (sample_lambdas tidy_site) sample_variables (sample_start sample_in_out)) = SuccessState"
proof -
  let ?F = "sample_lambdas tidy_site" and ?V = sample_variables
  let ?x = "\<lambda>st d. \<lparr>calls = [], current = st, document = d, attempts = 0\<rparr> :: execution"
  have strategy: "path_get [''strategy''] (PDict sample_in_out) = Some (PStr ''in-out'')" by (simp add: sample_in_out_def)
  have slack: "?F SlackNotifications v x = (Inr v, x)" for v x by (simp add: sample_lambdas_def io_return_def)
  obtain e where e: "strict_validate (PDict sample_in_out) = Inr e" and comp: "ev_component e = Some (PStr ''api'')"
    by (simp add: strict_validate_def kept_event_def sample_in_out_def document_typed_def fields_typed_def event_types_def required_fields_def)
  have "runs_counted (PDict sample_in_out) = Some 0" by (simp add: runs_counted_def sample_in_out_def)
  from scale_event [OF strict_validate_pydantic e this, of tidy_site no_pattern] obtain f where
    f: "ev_component f = Some (PStr ''api'')" "ev_counter f = Some (PInt 0)" and
    run: "handle_event tidy_site no_pattern strict_validate (PDict sample_in_out) s = scale_asg tidy_site no_pattern f s"
      for s :: execution using comp by (metis zero_less_numeral order_refl)
  from tidy_scale [OF f, of "?x RecycleSingle (PDict sample_in_out)"] run obtain o' t where
    task: "?F ScaleAsgLambda (PDict sample_in_out) (?x RecycleSingle (PDict sample_in_out)) = (Inr (model_dump o'), t)"
    and o': "ev_counter o' = Some (PInt 1)" "ev_recycle_success o' = Some (PBool True)" "ev_status o' = Some (PBool True)"
    by (auto simp: sample_lambdas_def scale_lambda_handler_def io_bind_def io_return_def)
  have first: "drive 8 ?F ?V (sample_start sample_in_out) = drive 7 ?F ?V (?x RecycleSingle (PDict sample_in_out))"
    by (simp add: eval_nat_numeral advance_def sample_start_def strategy del: path_get_one)
  obtain d where d: "model_dump o' = PDict d" "map_of d = field_of o'" using model_dump_fields by blast
  with o' task have "current (drive 7 ?F ?V (?x RecycleSingle (PDict sample_in_out))) = SuccessState"
    by (simp add: eval_nat_numeral advance_def lambda_task_def slack_task_def slack json_number_def)
  with first show ?thesis by (simp only:)
qed

lemma in_out_success_scaled_witness:
  "path_get [''recycle_success''] (document (drive 8 (sample_lambdas tidy_site) sample_variables (sample_start sample_in_out))) = Some (PBool True) \<and>
     (\<exists>u asgs details. extends UNIV (sample_start sample_in_out) (u :: execution) \<and>
        decided tidy_site no_pattern (PStr ''api'') u asgs details None) \<or>
   path_get [''counter''] (document (drive 8 (sample_lambdas tidy_site) sample_variables (sample_start sample_in_out))) = Some (PInt 21)"
proof -
  have code: "sample_lambdas E ScaleAsgLambda = scale_lambda_handler E no_pattern strict_validate" for E
    by (simp add: sample_lambdas_def fun_eq_iff)
  from in_out_success_scaled [OF sample_slack sample_log code strict_validate_pydantic drive_steps _ _ _ _ tidy_sample, of "''api''"]
  show ?thesis by (auto simp: sample_start_def sample_in_out_def runs_counted_def)
qed

end
