(* ===== verification/MachineSafety.thy ===== *)
theory MachineSafety
  imports MachineInOut
begin

text \<open>
  What an execution of the state machine may do to the site, whatever its strategy and whatever fails
  in it: every call that ends or moves an instance has its cause in the log before it.

  A task that fails is one whose code was cut short: its calls are a first part of those that the
  code makes. \<open>orderly\<close> adds that to the step relation. It also says that an attempt is over
  before the next step, as it is when the Lambda's own timeout is no longer than that of the task; both
  are 300 seconds, and 900 for the Mongo recycler.
\<close>

section \<open>Causes\<close>

text \<open>\<open>caused J h cs\<close>: each of the calls \<open>cs\<close>, made one after another after the log \<open>h\<close>, has its cause.\<close>

fun caused :: "(call list \<Rightarrow> call \<Rightarrow> bool) \<Rightarrow> call list \<Rightarrow> call list \<Rightarrow> bool" where
  "caused J h [] = True"
| "caused J h (c # cs) = (J h c \<and> caused J (h @ [c]) cs)"

lemma caused_append: "caused J h (as @ bs) = (caused J h as \<and> caused J (h @ as) bs)"
  by (induction as arbitrary: h) auto

lemma caused_at: "caused J h (pre @ c # post) \<Longrightarrow> J (h @ pre) c"
  by (simp add: caused_append)

lemma causedI: "(\<And>pre c post. cs = pre @ c # post \<Longrightarrow> J (h @ pre) c) \<Longrightarrow> caused J h cs"
proof (induction cs arbitrary: h)
  case (Cons c cs)
  have "J h c" using Cons.prems [of "[]" c cs] by simp
  moreover have "caused J (h @ [c]) cs"
  proof (rule Cons.IH)
    fix pre d post
    assume "cs = pre @ d # post"
    then show "J ((h @ [c]) @ pre) d" using Cons.prems [of "c # pre" d post] by simp
  qed
  ultimately show ?case by simp
qed simp

lemma caused_quiet: "(\<And>h c. c \<in> S \<Longrightarrow> J h c) \<Longrightarrow> set cs \<subseteq> S \<Longrightarrow> caused J h cs"
  by (induction cs arbitrary: h) auto

text \<open>A computation all of whose calls have a cause, and what is left of it when it is cut short.\<close>

definition accountable :: "(call list \<Rightarrow> call \<Rightarrow> bool) \<Rightarrow> ('z world_scheme, 'a) io \<Rightarrow> bool" where
  "accountable J m = (\<forall>s. \<exists>cs. calls (snd (m s)) = calls s @ cs \<and> caused J (calls s) cs)"

lemma accountableI: "(\<And>s. \<exists>cs. calls (snd (m s)) = calls s @ cs \<and> caused J (calls s) cs) \<Longrightarrow> accountable J m"
  by (simp add: accountable_def)

lemma accountable_quiet:
  assumes "footprint m S" and "\<And>h c. c \<in> S \<Longrightarrow> J h c"
  shows "accountable J m"
proof (rule accountableI)
  fix s
  from footprintD [OF assms(1), of s] obtain cs where cs: "calls (snd (m s)) = calls s @ cs" "set cs \<subseteq> S"
    by (auto simp: extends_def)
  have "caused J (calls s) cs" by (rule caused_quiet [OF _ cs(2)]) (rule assms(2))
  with cs(1) show "\<exists>cs. calls (snd (m s)) = calls s @ cs \<and> caused J (calls s) cs" by blast
qed

lemma accountable_cut:
  assumes "accountable J m" and "calls t = calls s @ cs" and "prefix (calls t) (calls (snd (m s)))"
  shows "caused J (calls s) cs"
proof -
  from assms(1) obtain ds where ds: "calls (snd (m s)) = calls s @ ds" "caused J (calls s) ds"
    unfolding accountable_def by blast
  from assms(3) obtain es where "calls (snd (m s)) = calls t @ es" by (rule prefixE)
  with ds(1) assms(2) have "ds = cs @ es" by simp
  with ds(2) show ?thesis by (simp add: caused_append)
qed

lemma accountable_bind:
  assumes "accountable J m" and "\<And>x. accountable J (f x)"
  shows "accountable J (io_bind m f)"
proof (rule accountableI)
  fix s
  obtain r t where m: "m s = (r, t)" by fastforce
  with assms(1) obtain cs where cs: "calls t = calls s @ cs" "caused J (calls s) cs"
    unfolding accountable_def by (metis snd_conv)
  show "\<exists>cs. calls (snd (io_bind m f s)) = calls s @ cs \<and> caused J (calls s) cs"
  proof (cases r)
    case (Inl e)
    with m cs show ?thesis by (auto simp: io_bind_def)
  next
    case (Inr x)
    from assms(2) obtain ds where "calls (snd (f x t)) = calls t @ ds" "caused J (calls t) ds"
      unfolding accountable_def by metis
    with Inr m cs show ?thesis by (intro exI [of _ "cs @ ds"]) (simp add: io_bind_def caused_append)
  qed
qed

section \<open>Orderly executions\<close>

definition orderly :: "lambda_code \<Rightarrow> variables \<Rightarrow> execution \<Rightarrow> execution \<Rightarrow> bool" where
  "orderly F V x y =
     (sm_step F V x y \<and>
      (case sm_node V (current x) of
         Task l inp res n st err cat \<Rightarrow>
           (case path_get inp (document x) of
              None \<Rightarrow> True
            | Some v \<Rightarrow> prefix (calls y) (calls (snd (F l v x))))
       | _ \<Rightarrow> True))"

text \<open>The calls of a step: those of the task, as far as it got, or the sleep of a wait.\<close>

lemma orderly_calls:
  assumes "orderly F V x y" and "keeps_log F"
  obtains (task) l v cs where "current x \<noteq> Aborted" "\<exists>inp res n st err cat. sm_node V (current x) = Task l inp res n st err cat \<and>
      path_get inp (document x) = Some v"
      "calls y = calls x @ cs" "prefix (calls y) (calls (snd (F l v x)))"
  | (other) cs where "calls y = calls x @ cs" "set cs \<subseteq> range Sleep"
proof -
  from assms(1) have step: "sm_step F V x y" by (simp add: orderly_def)
  from step_log [OF assms(2) step] obtain cs where cs: "calls y = calls x @ cs" by (auto simp: extends_def)
  show thesis
  proof (cases "sm_node V (current x)")
    case (Task l inp res n st err cat)
    show thesis
    proof (cases "path_get inp (document x)")
      case None
      with step Task have "calls y = calls x" by (auto elim: sm_stepE)
      then show thesis by (intro other [of "[]"]) auto
    next
      case (Some v)
      with assms(1) Task have "prefix (calls y) (calls (snd (F l v x)))" by (simp add: orderly_def)
      moreover from Task have "current x \<noteq> Aborted" by auto
      ultimately show thesis using Task Some cs by (intro task) blast+
    qed
  qed (use step in \<open>auto elim!: sm_stepE simp: move_def split: option.splits intro: other [of "[]"] other\<close>)
qed

section \<open>What may be the cause of a call\<close>

text \<open>
  \<open>replaces E retry c h obj\<close>: at the end of the log \<open>h\<close> stands a step on the component \<open>c\<close> which has ended
  nothing yet, has found an instance with another image than that of the launch templates, is ready to
  end it, and has just looked up the object \<open>obj\<close> of it. \<open>demotes\<close>: the checks of a step on \<open>c\<close> have left no outdated secondary, and
  the address is that of the outdated primary.
\<close>

definition replaces :: "env \<Rightarrow> unit execution_ext retrier \<Rightarrow> string \<Rightarrow> call list \<Rightarrow> pyval \<Rightarrow> bool" where
  "replaces E retry c h obj =
     (\<exists>(s::execution) ami st u i seen p. h = calls s @ seen \<and> terminations seen = [] \<and>
        cleared E retry c s ami st u \<and> i \<in> set st \<and> \<not> py_eq (image_id i) ami \<and>
        h = p @ [FilterInstances (instance_id i)] \<and> reply E p (FilterInstances (instance_id i)) = Inr (PList [obj]) \<and>
        ready E (decide_on_action st ami) i (calls u) p \<and>
        (mongo_state i = ''SECONDARY'' \<or>
         mongo_state i = ''PRIMARY'' \<and> healthy_seen E p \<and>
           list_all (\<lambda>j. \<not> (outdated ami j \<and> mongo_state j = ''SECONDARY'')) st))"

definition demotes :: "env \<Rightarrow> unit execution_ext retrier \<Rightarrow> string \<Rightarrow> call list \<Rightarrow> pyval \<Rightarrow> bool" where
  "demotes E retry c h ip =
     (\<exists>(s::execution) ami st u i. cleared E retry c s ami st u \<and> i \<in> set st \<and> ip = ip_address i \<and> prefix (calls u) h \<and>
        outdated ami i \<and> mongo_state i = ''PRIMARY'' \<and>
        list_all (\<lambda>j. \<not> (outdated ami j \<and> mongo_state j = ''SECONDARY'')) st)"

definition scales :: "env \<Rightarrow> (string \<Rightarrow> (string \<Rightarrow> bool) res) \<Rightarrow> string \<Rightarrow> call list \<Rightarrow> call \<Rightarrow> bool" where
  "scales E compile c h policy =
     (\<exists>(s::execution) asgs details nxt reads. decided E compile (PStr c) s asgs details (Some nxt) \<and>
        policy = policy_call nxt \<and> h = calls s @ reads \<and> set reads \<subseteq> scaling_reads)"

text \<open>
  The cause that a call of an execution for the component \<open>c\<close> must have. The calls that only look, the
  sleeps and the reconfigurations of the replica set need none.
\<close>

definition accounted :: "env \<Rightarrow> unit execution_ext retrier \<Rightarrow> (string \<Rightarrow> (string \<Rightarrow> bool) res) \<Rightarrow> string \<Rightarrow> call list \<Rightarrow> call \<Rightarrow> bool" where
  "accounted E retry compile c h call =
     (case call of
        InstanceTerminate obj \<Rightarrow> replaces E retry c h obj
      | TerminateInstances obj \<Rightarrow> False
      | ReplSetStepDown ip n \<Rightarrow> demotes E retry c h ip
      | ExecutePolicy grp p \<Rightarrow> scales E compile c h call
      | SendMessage q a b \<Rightarrow> \<exists>account. call = recycle_message (PStr c) account
      | DynamoPutItem table v \<Rightarrow> \<exists>seconds. call = start_record (PStr c) seconds
      | StartExecution arn name input \<Rightarrow> False
      | SsmSendCommand v \<Rightarrow> False
      | _ \<Rightarrow> True)"

definition needs_no_cause :: "call set" where
  "needs_no_cause = {call. case call of
       InstanceTerminate _ \<Rightarrow> False | TerminateInstances _ \<Rightarrow> False | ReplSetStepDown _ _ \<Rightarrow> False | ExecutePolicy _ _ \<Rightarrow> False
     | SendMessage _ _ _ \<Rightarrow> False | DynamoPutItem _ _ \<Rightarrow> False | StartExecution _ _ _ \<Rightarrow> False | SsmSendCommand _ \<Rightarrow> False
     | _ \<Rightarrow> True}"

lemma no_cause: "call \<in> needs_no_cause \<Longrightarrow> accounted E retry compile c h call"
  by (cases call) (simp_all add: needs_no_cause_def accounted_def)

lemma reading_no_cause: "reading \<subseteq> needs_no_cause" "scaling_reads \<subseteq> needs_no_cause"
  by (auto simp: reading_def observing_def scaling_reads_def needs_no_cause_def)

lemma no_cause_members [simp]:
  "Sleep n \<in> needs_no_cause" "DescribeAutoScalingGroups \<in> needs_no_cause" "DescribeScalingActivities g k \<in> needs_no_cause"
  "SlackNotification v \<in> needs_no_cause" "ReadTime \<in> needs_no_cause"
  by (simp_all add: needs_no_cause_def)

lemma accountable_no_cause: "footprint m needs_no_cause \<Longrightarrow> accountable (accounted E retry compile c) m"
  by (erule accountable_quiet) (rule no_cause)

section \<open>The Lambdas\<close>

lemma step_calls_accounted:
  assumes retry: "bounded_retry retry 10" and lists: "instances_are_lists E"
    and run: "step E retry (PStr c) s = (r, t)" and log: "calls t = calls s @ pre @ call # post"
  shows "accounted E retry compile c (calls s @ pre) call"
proof -
  from footprintD [OF step_footprint [OF retry], of s E "PStr c"] run log have "call \<in> stepping" by (auto simp: extends_def)
  then consider "call \<in> needs_no_cause" | obj where "call = InstanceTerminate obj" | ip n where "call = ReplSetStepDown ip n"
    by (cases call) (auto simp: stepping_def needs_no_cause_def)
  then show ?thesis
  proof cases
    case 1
    then show ?thesis by (rule no_cause)
  next
    case (2 obj)
    with log have "calls t = calls s @ pre @ [InstanceTerminate obj] @ post" by simp
    from step_replaces [OF retry lists run this] have "replaces E retry c (calls s @ pre) obj"
      unfolding replaces_def by blast
    with 2 show ?thesis by (simp add: accounted_def)
  next
    case (3 ip n)
    from retry run show ?thesis
    proof (cases rule: step_cases)
      case (Refused e)
      with log 3 show ?thesis by (auto simp: extends_def reading_def observing_def)
    next
      case (Executed ami st u r')
      from cleared_extends [OF retry Executed(1)] obtain seen where
        seen: "calls u = calls s @ seen" "set seen \<subseteq> reading" by (auto simp: extends_def)
      from footprintD [OF execute_action_down [OF retry, of E c "decide_on_action st ami"], of u] Executed(2) obtain new where
        new: "calls t = calls u @ new" "set new \<subseteq> down_only (decide_on_action st ami)" by (auto simp: extends_def)
      with seen(1) log 3 have eq: "seen @ new = pre @ ReplSetStepDown ip n # post" by simp
      from seen(2) have "ReplSetStepDown ip n \<notin> set seen" by (auto simp: reading_def observing_def)
      with eq obtain p where p: "pre = seen @ p" "new = p @ ReplSetStepDown ip n # post"
        by (auto simp: append_eq_append_conv2 Cons_eq_append_conv append_eq_Cons_conv)
      with new(2) obtain i where i: "action (decide_on_action st ami) = STEP_DOWN_AND_RECYCLE_PRIMARY"
        "target (decide_on_action st ami) = Some i" "ip = ip_address i" by (auto simp: down_only_def)
      have "demotes E retry c (calls s @ pre) ip"
      proof (cases st ami rule: decide_cases)
        case (Primary a k b)
        with i Executed(1) seen(1) p(1) show ?thesis
          unfolding demotes_def
          by (intro exI [of _ s] exI [of _ ami] exI [of _ st] exI [of _ u] exI [of _ k])
            (fastforce simp: step_down_and_recycle_primary_def list_all_iff)
      qed (use i in \<open>auto simp: recycle_secondary_def done_decision_def\<close>)
      with 3 show ?thesis by (simp add: accounted_def)
    qed
  qed
qed

lemma step_accountable:
  assumes "bounded_retry retry 10" and "instances_are_lists E"
  shows "accountable (accounted E retry compile c) (step E retry (PStr c))"
proof (rule accountableI)
  fix s :: execution
  obtain r t where run: "step E retry (PStr c) s = (r, t)" by fastforce
  with footprintD [OF step_footprint [OF assms(1)], of s E "PStr c"] obtain cs where cs: "calls t = calls s @ cs"
    by (auto simp: extends_def)
  have "caused (accounted E retry compile c) (calls s) cs"
    by (rule causedI) (use step_calls_accounted [OF assms run] cs in auto)
  with run cs show "\<exists>cs. calls (snd (step E retry (PStr c) s)) = calls s @ cs \<and>
      caused (accounted E retry compile c) (calls s) cs" by auto
qed

lemma bind_res_Inr: "io_bind (io_res (Inr x)) f = f x"
  by (simp add: io_bind_def io_res_def fun_eq_iff)

lemma path_component: "path_get [k] v = Some w \<Longrightarrow> py_item v k = Inr w"
  by (cases v) (simp_all add: path_get.simps(2) py_item_PDict split: option.splits)

lemma mongo_accountable:
  assumes "bounded_retry retry 10" and "instances_are_lists E" and "path_get [''component''] v = Some (PStr c)"
  shows "accountable (accounted E retry compile c) (mongo_lambda_handler E retry v)"
proof -
  let ?J = "accounted E retry compile c" and ?S = "needs_no_cause \<union> range (start_record (PStr c))"
  have cause: "call \<in> ?S \<Longrightarrow> ?J h call" for h call
    using no_cause [of call E retry compile c h] by (auto simp: accounted_def start_record_def)
  have "footprint (record_recycle_starting E (PStr c) :: (execution, unit) io) ?S"
    by (rule footprintI) (auto simp: record_recycle_starting_run extends_def split: sum.splits)
  then have start: "accountable ?J (record_recycle_starting E (PStr c) :: (execution, unit) io)"
    by (rule accountable_quiet) (rule cause)
  have pure: "accountable ?J (io_res r)" "accountable ?J (io_return x)" for r :: "'b res" and x :: 'c
    by (rule accountable_no_cause, rule footprint_res, rule accountable_no_cause, rule footprint_return)
  have "mongo_lambda_handler E retry v =
      io_bind (io_res (is_first_run v)) (\<lambda>first.
        io_bind (if first then record_recycle_starting E (PStr c) else io_return ()) (\<lambda>_.
          io_bind (step E retry (PStr c)) (\<lambda>d. io_res (after_step v d))))"
    unfolding mongo_lambda_handler_def path_component [OF assms(3)] io_then_def
    by (rule bind_res_Inr)
  then show ?thesis
    using start step_accountable [OF assms(1,2)] by (auto intro!: accountable_bind pure)
qed

lemma scaled_accounted:
  assumes "scaled E compile (PStr c) (s :: execution) h"
  shows "\<exists>cs. h = calls s @ cs \<and> caused (accounted E retry compile c) (calls s) cs"
proof -
  from assms obtain reads policy where h: "h = calls s @ reads @ policy" and reads: "set reads \<subseteq> scaling_reads"
    and policy: "policy = [] \<or> (\<exists>asgs details nxt. decided E compile (PStr c) s asgs details (Some nxt) \<and> policy = [policy_call nxt])"
    unfolding scaled_def by blast
  from reads reading_no_cause(2) have "caused (accounted E retry compile c) (calls s) reads"
    by (intro caused_quiet [OF no_cause]) auto
  moreover have "caused (accounted E retry compile c) (calls s @ reads) policy"
  proof -
    have "accounted E retry compile c (calls s @ reads) (policy_call nxt)"
      if "decided E compile (PStr c) s asgs details (Some nxt)" for asgs details nxt
    proof -
      from that reads have "scales E compile c (calls s @ reads) (policy_call nxt)" unfolding scales_def by blast
      then show ?thesis by (simp add: accounted_def policy_call_def)
    qed
    with policy show ?thesis by auto
  qed
  ultimately show ?thesis using h by (auto simp: caused_append)
qed

text \<open>A run of the in-out recycler, whatever its event counts: it scales, or makes no call.\<close>

lemma handle_event_cases [consumes 2, case_names scaling late over]:
  assumes "pydantic validate" and "validate v = Inr e"
  obtains (scaling) f n where "ev_component f = ev_component e" "ev_counter f = Some (PInt n)"
      "\<And>s :: execution. handle_event E compile validate v s = scale_asg E compile f s"
  | (late) "\<And>s :: execution. handle_event E compile validate v s = (Inr (taking_too_long e), s)"
  | (over) x where "\<And>s :: execution. handle_event E compile validate v s = (Inl x, s)"
proof -
  from assms have "event_typed e" by (auto simp: pydantic_def)
  then have typed: "if_set (optional is_int) (ev_counter e)" by (simp add: event_typed_iff)
  have "ev_counter e = None \<or> ev_counter e = Some PNone \<or> (\<exists>n. ev_counter e = Some (PInt n))"
  proof (cases "ev_counter e")
    case (Some w)
    with typed show ?thesis by (cases w) (auto simp: optional_def)
  qed simp
  then consider "\<not> py_truth (field_or PNone (ev_counter e))" | n where "ev_counter e = Some (PInt n)" "n \<noteq> 0"
    by (cases "py_truth (field_or PNone (ev_counter e))") (auto simp: field_or_def)
  then show thesis
  proof cases
    case 1
    with assms(2) show thesis
      by (intro scaling [of "e\<lparr>ev_counter := Some (PInt 0), ev_channels := Some (field_or PNone (ev_success_channel e))\<rparr>" 0])
        (simp_all add: handle_event_def io_bind_def io_res_def Let_def)
  next
    case (2 n)
    with assms(2) have "handle_event E compile validate v s =
        (if n < 60 then scale_asg E compile e s else if n = 60 then (Inr (taking_too_long e), s) else (Inl (Exn PyException None), s))"
      for s :: execution
      by (simp add: handle_event_def io_bind_def io_res_def io_return_def io_raise_def Let_def field_or_def)
    with 2 that show thesis by (cases "n < 60"; cases "n = 60") auto
  qed
qed

lemma scale_handler_shape:
  "handle_event E compile validate v s = r \<Longrightarrow>
   scale_lambda_handler E compile validate v s = (case r of (Inl x, t) \<Rightarrow> (Inl x, t) | (Inr o', t) \<Rightarrow> (Inr (model_dump o'), t))"
  by (auto simp: scale_lambda_handler_def io_bind_def io_return_def split: prod.splits sum.splits)

lemma scale_accountable:
  assumes "pydantic validate" and "path_get [''component''] v = Some (PStr c)"
  shows "accountable (accounted E retry compile c) (scale_lambda_handler E compile validate v :: (execution, pyval) io)"
proof (rule accountableI)
  fix s :: execution
  show "\<exists>cs. calls (snd (scale_lambda_handler E compile validate v s)) = calls s @ cs \<and>
      caused (accounted E retry compile c) (calls s) cs"
  proof (cases "validate v")
    case (Inl x)
    then show ?thesis by (simp add: scale_lambda_handler_def handle_event_def io_bind_def io_res_def)
  next
    case (Inr e)
    from validated_component [OF assms(1) Inr assms(2)] have e: "ev_component e = Some (PStr c)" .
    from assms(1) Inr show ?thesis
    proof (cases rule: handle_event_cases [where E = E and compile = compile])
      case (scaling f n)
      obtain r t where run: "scale_asg E compile f s = (r, t)" by fastforce
      from scale_asg_run [OF run, of "PStr c"] scaling(1,2) e obtain out where
        r: "r = Inr out" and "run_outcome E compile (PStr c) s out (calls t)" by (auto simp: field_or_def)
      with scaled_accounted outcome_scaled obtain cs where
        "calls t = calls s @ cs" "caused (accounted E retry compile c) (calls s) cs" by blast
      with scale_handler_shape [OF scaling(3)] run r show ?thesis by auto
    next
      case late
      from scale_handler_shape [OF late] show ?thesis by simp
    next
      case (over x)
      from scale_handler_shape [OF over] show ?thesis by simp
    qed
  qed
qed

lemma sqs_accountable:
  assumes "path_get [''component''] v = Some (PStr c)"
  shows "accountable (accounted E retry compile c) (sqs_lambda_handler E v)"
proof (rule accountable_quiet)
  show "footprint (sqs_lambda_handler E v) (range (recycle_message (PStr c)))"
    unfolding sqs_lambda_handler_def path_component [OF assms] bind_res_Inr
    by (intro footprint_intros footprintI) (auto simp: send_to_sqs_run extends_def)
  show "call \<in> range (recycle_message (PStr c)) \<Longrightarrow> accounted E retry compile c h call" for h call
    by (auto simp: accounted_def recycle_message_def)
qed

lemma monitor_accountable: "accountable (accounted E retry compile c) (monitor_lambda_handler E v)"
  by (rule accountable_no_cause)
    (auto simp: monitor_lambda_handler_def monitor_autorecycle_def check_def monitor_describe_asg_def
      monitor_scaling_activities_def intro!: footprint_intros)

text \<open>What the Lambdas keep of their document: the component.\<close>

lemma scale_component:
  assumes "pydantic validate" and "path_get [''component''] v = Some (PStr c)"
    and "scale_lambda_handler E compile validate v (x :: execution) = (Inr out, y)"
  shows "path_get [''component''] out = Some (PStr c)"
proof -
  from assms(3) obtain e where e: "validate v = Inr e"
    by (cases "validate v") (auto simp: scale_lambda_handler_def handle_event_def io_bind_def io_res_def)
  from validated_component [OF assms(1) e assms(2)] have comp: "ev_component e = Some (PStr c)" .
  from assms(1) e show ?thesis
  proof (cases rule: handle_event_cases [where E = E and compile = compile])
    case (scaling f n)
    with scale_handler_shape [OF scaling(3), of x] scale_asg_counts [OF scaling(2), of E compile x] comp assms(3)
    show ?thesis by (auto simp: model_dump_get field_or_def simp del: path_get_one)
  next
    case late
    with scale_handler_shape [OF late, of x] comp assms(3) show ?thesis
      by (auto simp: model_dump_get taking_too_long_def unset_event_def Let_def field_or_def simp del: path_get_one)
  next
    case (over w)
    with scale_handler_shape [OF over, of x] assms(3) show ?thesis by auto
  qed
qed

lemma mongo_component:
  assumes "bounded_retry retry n" and "mongo_lambda_handler E retry v x = (Inr out, y)"
  shows "path_get [''component''] out = path_get [''component''] v"
  using assms by (rule handler_done) simp

section \<open>The component of an execution\<close>

text \<open>
  All the code behind the tasks. The Lambdas of other repositories are assumed not to end, scale or start
  anything themselves by the calls that \<open>accounted\<close> is about.
\<close>

definition all_code :: "env \<Rightarrow> unit execution_ext retrier \<Rightarrow> (string \<Rightarrow> (string \<Rightarrow> bool) res) \<Rightarrow> (pyval \<Rightarrow> Event res) \<Rightarrow> lambda_code \<Rightarrow> bool" where
  "all_code E retry compile validate F =
     (repository_code E compile validate F \<and> F MongoLambda = mongo_lambda_handler E retry)"

definition others_harmless :: "lambda_code \<Rightarrow> bool" where
  "others_harmless F =
     (\<forall>l \<in> {SlackNotifications, StartRefreshLambda, CancelRefreshLambda, RefreshStatusLambda}. \<forall>v. footprint (F l v) needs_no_cause)"

lemma all_code_log:
  assumes "all_code E retry compile validate F" and "others_harmless F" and "bounded_retry retry 10"
  shows "keeps_log F"
proof -
  have "footprint (F l v) UNIV" for l v
    using assms sqs_log [of E v] scale_log [of E compile validate v] monitor_log [of E v] mongo_log [OF assms(3), of E v]
    by (cases l) (auto simp: all_code_def repository_code_def others_harmless_def intro: footprint_mono [OF _ subset_UNIV])
  then show ?thesis by (simp add: keeps_log_def)
qed

definition over :: "execution \<Rightarrow> bool" where
  "over x = (current x \<in> {LambdaErrored, SlackEnd, StatusChoice, SuccessState, FailState, Aborted})"

definition on_component :: "string \<Rightarrow> execution \<Rightarrow> bool" where
  "on_component c x = (over x \<or> path_get [''component''] (document x) = Some (PStr c))"

lemma over_step:
  assumes "sm_step F V x y" and "over x" and "slack_keeps F"
  shows "over y"
proof -
  from assms(2) have "ending (\<lambda>_. True) x" by (auto simp: over_def ending_def)
  from ending_step [OF assms(1) this assms(3)] have "ending (\<lambda>_. True) y" by simp
  then show ?thesis by (cases "current y") (auto simp: over_def ending_def)
qed

lemma refresh_step:
  assumes "sm_step F V x y" and "sm_node V (current x) = refresh_task l inp (output_path name) st err"
  shows "over y \<or> path_get [''component''] (document y) = path_get [''component''] (document x)"
proof -
  have other: "name @ ''-output'' \<noteq> ''component''"
  proof
    assume "name @ ''-output'' = ''component''"
    then have "rev (name @ ''-output'') = rev ''component''" by (rule arg_cong)
    then show False by simp
  qed
  have kept: "path_get [''component''] v' = path_get [''component''] v" if "path_put (output_path name) w v = Some v'" for w v v'
    by (rule path_put_other [OF that [unfolded output_path_def] other [symmetric]])
  from assms(1) show ?thesis
    by (cases rule: sm_stepE) (use assms(2) kept in \<open>auto simp: refresh_task_def over_def move_def split: option.splits\<close>)
qed

lemma arguments_component:
  "slack_arguments V st chs content v = Some w \<Longrightarrow> path_get [''component''] w = path_get [''component''] v"
  by (auto simp: slack_arguments_def)

lemma lambda_component:
  assumes "sm_step F V x y" and "sm_node V (current x) = lambda_task l st" and "path_get [''component''] (document x) = Some (PStr c)"
    and "all_code E retry compile validate F" and "pydantic validate" and "bounded_retry retry 10"
    and "l \<in> {AutorecycleLambda, ScaleAsgLambda, MonitorLambda, MongoLambda}"
  shows "over y \<or> path_get [''component''] (document y) = Some (PStr c)"
  using assms(1,2)
proof (cases rule: step_lambda)
  case (finished out z)
  have "path_get [''component''] out = Some (PStr c)"
    using assms(4,7) finished(1) assms(3) sqs_keeps [of E "document x" x out z] monitor_completed [of E "document x" x out z]
      scale_component [OF assms(5,3), of E compile x out z] mongo_component [OF assms(6), of E "document x" x out z]
    by (auto simp: all_code_def repository_code_def simp del: path_get_one)
  with finished show ?thesis by simp
qed (use assms(3) in \<open>auto simp: over_def\<close>)

lemma on_component_step:
  assumes step: "sm_step F V x y" and on: "on_component c x"
    and code: "all_code E retry compile validate F" "pydantic validate" "bounded_retry retry 10" "slack_keeps F"
  shows "on_component c y"
proof (cases "over x")
  case True
  with over_step [OF step _ code(4)] show ?thesis by (simp add: on_component_def)
next
  case False
  with on have comp: "path_get [''component''] (document x) = Some (PStr c)" by (simp add: on_component_def)
  have aborts: "current y = Aborted \<Longrightarrow> over y" by (simp add: over_def)
  have wait: "sm_node V (current x) = Wait n st \<Longrightarrow> ?thesis" for n st
    using step_wait [OF step] comp by (simp add: on_component_def)
  have choice: "sm_node V (current x) = Choice rs dflt \<Longrightarrow> ?thesis" for rs dflt
    using step_choice [OF step] comp aborts by (fastforce simp: on_component_def split: option.splits)
  have slack: "sm_node V (current x) = slack_task st \<Longrightarrow> ?thesis" for st
    using aborts comp by (cases rule: step_slack [OF step _ code(4), of st]) (auto simp: on_component_def simp del: path_get_one)
  have lambda: "sm_node V (current x) = lambda_task l st \<Longrightarrow> l \<in> {AutorecycleLambda, ScaleAsgLambda, MonitorLambda, MongoLambda} \<Longrightarrow> ?thesis" for l st
    using lambda_component [OF step _ comp code(1-3)] by (auto simp: on_component_def)
  have refresh: "sm_node V (current x) = refresh_task l inp (output_path name) st err \<Longrightarrow> ?thesis" for l inp name st err
    using refresh_step [OF step] comp by (auto simp: on_component_def)
  have pass: "sm_node V (current x) = Pass f st \<Longrightarrow>
      (\<And>w. f (document x) = Some w \<Longrightarrow> path_get [''component''] w = path_get [''component''] (document x)) \<Longrightarrow> ?thesis" for f st
    using step_pass [OF step] comp aborts by (fastforce simp: on_component_def split: option.splits)
  have checked: "record_refresh_checked v = Some w \<Longrightarrow> path_get [''component''] w = path_get [''component''] v" for v w
    unfolding record_refresh_checked_def by (erule path_put_other) simp
  show ?thesis
  proof (cases "current x")
    case RefreshStatus
    then show ?thesis by (simp add: choice Let_def)
  next
    case IsRefreshComplete
    then show ?thesis by (simp add: choice Let_def)
  qed (use False in \<open>simp_all add: wait choice slack lambda refresh pass arguments_component checked over_def\<close>)
qed

section \<open>The calls of an execution\<close>

lemma orderly_step_accounted:
  assumes run: "orderly F V x y" and on: "on_component c x"
    and code: "all_code E retry compile validate F" "others_harmless F" "pydantic validate" "bounded_retry retry 10"
      "instances_are_lists E"
  shows "\<exists>cs. calls y = calls x @ cs \<and> caused (accounted E retry compile c) (calls x) cs"
  using run all_code_log [OF code(1,2,4)]
proof (cases rule: orderly_calls)
  case (task l v cs)
  then obtain inp res n st err cat where node: "sm_node V (current x) = Task l inp res n st err cat"
    and v: "path_get inp (document x) = Some v" by blast
  have "accountable (accounted E retry compile c) (F l v)"
  proof (cases "l \<in> {SlackNotifications, StartRefreshLambda, CancelRefreshLambda, RefreshStatusLambda}")
    case True
    with code(2) have "footprint (F l v) needs_no_cause" by (auto simp: others_harmless_def)
    then show ?thesis by (rule accountable_no_cause)
  next
    case False
    with node have "\<not> over x \<and> inp = []"
      by (cases "current x") (auto simp: over_def node_defs Let_def)
    with on v have "path_get [''component''] v = Some (PStr c)" by (simp add: on_component_def)
    with False code mongo_accountable scale_accountable sqs_accountable monitor_accountable show ?thesis
      by (cases l) (simp_all add: all_code_def repository_code_def)
  qed
  with task show ?thesis by (blast intro: accountable_cut)
next
  case (other cs)
  have "caused (accounted E retry compile c) (calls x) cs"
    by (rule caused_quiet [OF no_cause]) (use other in auto)
  with other show ?thesis by blast
qed

lemma orderly_accounted:
  assumes "all_code E retry compile validate F" and "others_harmless F" and "slack_keeps F" and "pydantic validate"
    and "bounded_retry retry 10" and "instances_are_lists E"
    and "(orderly F V)\<^sup>*\<^sup>* x y" and "on_component c x"
  shows "on_component c y \<and> (\<exists>cs. calls y = calls x @ cs \<and> caused (accounted E retry compile c) (calls x) cs)"
  using assms(7)
proof (induction rule: rtranclp_induct)
  case base
  with assms(8) show ?case by auto
next
  case (step u v)
  then have "sm_step F V u v" by (simp add: orderly_def)
  with on_component_step [OF this _ assms(1,4,5,3)] step.IH have "on_component c v" by blast
  moreover obtain cs ds where "calls u = calls x @ cs" "caused (accounted E retry compile c) (calls x) cs"
    "calls v = calls u @ ds" "caused (accounted E retry compile c) (calls u) ds"
    using orderly_step_accounted [OF step.hyps(2) _ assms(1,2,4-6)] step.IH by blast
  ultimately show ?case by (intro conjI exI [of _ "cs @ ds"]) (simp_all add: caused_append)
qed

text \<open>
  C2. Whatever the strategy of an execution and whatever fails in it, each of its calls that ends or demotes
  an instance, executes a scaling policy, or sends or records the start of a recycle has its cause, and concerns
  the component it was started for. (The Lambdas of the instance refresh belong to another repository
  and are assumed to make none of these calls.) An instance is ended
  only after a check made since the last one was ended, which found it to be an outdated one of
  the component's replica set, with chaining off, and an outdated primary only after all outdated secondaries
  and after its step-down; a primary steps down only as the last outdated node; a scaling policy is executed only as the
  next action decided from groups whose activities are all complete and successful; the message and the
  record of a recycle name the component; nothing else is ended, and no execution starts another.
\<close>

theorem execution_accounted:
  assumes "all_code E retry compile validate F" and "others_harmless F" and "slack_keeps F" and "pydantic validate"
    and "bounded_retry retry 10" and "instances_are_lists E"
    and "(orderly F V)\<^sup>*\<^sup>* x y" and "current x = ChooseStrategy" and "path_get [''component''] (document x) = Some (PStr c)"
    and "calls y = calls x @ pre @ call # post"
  shows "accounted E retry compile c (calls x @ pre) call"
proof -
  from assms(9) have "on_component c x" by (simp add: on_component_def)
  from orderly_accounted [OF assms(1-7) this] assms(10) have "caused (accounted E retry compile c) (calls x) (pre @ call # post)" by simp
  then show ?thesis by (rule caused_at)
qed

section \<open>A sample execution\<close>

lemma advance_orderly:
  assumes "keeps_log F" and "current x \<notin> {SuccessState, FailState, Aborted}"
  shows "orderly F V x (advance F V x)"
proof -
  have "prefix (calls (advance F V x)) (calls (snd (F l v x)))"
    if node: "sm_node V (current x) = Task l inp res n st err cat" and v: "path_get inp (document x) = Some v" for l inp res n st err cat v
  proof -
    obtain r z where run: "F l v x = (r, z)" by fastforce
    from assms(1) have "footprint (F l v) UNIV" by (simp add: keeps_log_def)
    from footprintD [OF this, of x] run obtain cs where "calls z = calls x @ cs" by (auto simp: extends_def)
    with node v run show ?thesis
      by (auto simp: advance_def move_def split: sum.splits option.splits)
  qed
  with advance_step [OF assms(2)] show ?thesis by (auto simp: orderly_def split: node.splits option.splits)
qed

lemma drive_orderly: "keeps_log F \<Longrightarrow> (orderly F V)\<^sup>*\<^sup>* x (drive n F V x)"
proof (induction n arbitrary: x)
  case (Suc n)
  then show ?case using advance_orderly [of F x V] by (auto intro: converse_rtranclp_into_rtranclp)
qed simp

definition sample_recycle_log :: "call list" where
  "sample_recycle_log = [ReadTime, start_record (PStr ''mongo'') 1000] @ sample_checked @ sample_before @
     [InstanceTerminate (PStr ''i-1'')] @ sample_after"

lemma sample_recycle:
  "calls (drive 4 (sample_lambdas sample_site) sample_variables (sample_start sample_mongo)) = sample_recycle_log"
proof -
  let ?F = "sample_lambdas sample_site" and ?V = sample_variables
  obtain e m where start: "\<And>E k. drive (Suc (Suc (Suc k))) (sample_lambdas E) ?V (sample_start sample_mongo) =
      drive k (sample_lambdas E) ?V \<lparr>calls = [], current = RecycleMongo, document = PDict e, attempts = 0\<rparr>"
    and e: "map_of e ''component'' = Some (PStr ''mongo'')" "map_of e ''counter'' = None"
    by (rule mongo_sample_start) blast
  let ?x = "\<lparr>calls = [], current = RecycleMongo, document = PDict e, attempts = 0\<rparr> :: execution"
  have "event_after e 0 (PDict e)" using e(2) by (simp add: event_after_def MongoRun.counted_def)
  from after_step_continues [OF this, of "recycle_secondary sample_secondary"] obtain out where
    out: "after_step (PDict e) (recycle_secondary sample_secondary) = Inr out" by (auto simp: recycle_secondary_def)
  have now: "reply sample_site [] ReadTime = Inr (PInt 1000)"
      "reply sample_site [ReadTime] (start_record (PStr ''mongo'') 1000) = Inr PNone"
    by (simp_all add: one_node_site_def start_record_def)
  from now e out have "?F MongoLambda (PDict e) ?x = (Inr out, ?x\<lparr>calls := sample_recycle_log\<rparr>)"
    by (simp add: sample_lambdas_def mongo_lambda_handler_def py_item_PDict is_first_run_def io_bind_def io_then_def io_res_def
        record_recycle_starting_run int_of_time_def sample_site_step sample_recycle_log_def)
  then have "calls (drive (Suc 0) ?F ?V ?x) = sample_recycle_log"
    by (simp add: advance_def lambda_task_def)
  moreover have "(4 :: nat) = Suc (Suc (Suc (Suc 0)))" by simp
  ultimately show ?thesis by (simp only: start)
qed

lemma sample_others: "others_harmless (sample_lambdas E)"
  by (simp add: others_harmless_def sample_lambdas_def footprint_return)

lemma sample_code: "all_code E (retry_now 9) no_pattern strict_validate (sample_lambdas E)"
  using sample_repository by (simp add: all_code_def sample_lambdas_def fun_eq_iff)

lemma execution_accounted_witness:
  "replaces sample_site (retry_now 9) ''mongo''
     ([ReadTime, start_record (PStr ''mongo'') 1000] @ sample_checked @ sample_before) (PStr ''i-1'')"
proof -
  let ?pre = "[ReadTime, start_record (PStr ''mongo'') 1000] @ sample_checked @ sample_before"
  have start: "current (sample_start sample_mongo) = ChooseStrategy" "calls (sample_start sample_mongo) = []"
      "path_get [''component''] (document (sample_start sample_mongo)) = Some (PStr ''mongo'')"
    by (simp_all add: sample_start_def sample_mongo_def)
  have log: "calls (drive 4 (sample_lambdas sample_site) sample_variables (sample_start sample_mongo)) =
      calls (sample_start sample_mongo) @ ?pre @ InstanceTerminate (PStr ''i-1'') # sample_after"
    by (simp add: sample_recycle start(2)) (simp add: sample_recycle_log_def)
  from execution_accounted [OF sample_code sample_others sample_slack strict_validate_pydantic retry_now_bounded
      sample_site_lists drive_orderly [OF sample_log] start(1,3) log]
  show ?thesis by (simp add: accounted_def start(2))
qed

end
