(* ===== verification/MongoEnds.thy ===== *)
theory MongoEnds
  imports MachineSafety
begin

text \<open>
  An execution of the strategy \<open>mongo\<close> ends, when the platform does its part: an instance that was ended is replaced
  by one of the launch templates' image. The number of steps is bounded by the outdated nodes that
  there are at the start; without the platform's part the loop has no bound. Where the runs of the
  recycler meet no error besides, the execution succeeds.
\<close>

section \<open>The platform's part\<close>

text \<open>
  \<open>renews E retry c\<close>: whenever a step on \<open>c\<close> has ended the instance \<open>i\<close> of the status that its checks read, every later
  check finds the same image in the launch templates and, of the outdated instances, at most those that were there
  without \<open>i\<close>. \<open>outdated_below E retry c B x\<close>: no check after \<open>x\<close> finds more than \<open>B\<close> outdated instances.
\<close>

definition renews :: "env \<Rightarrow> unit execution_ext retrier \<Rightarrow> string \<Rightarrow> bool" where
  "renews E retry c =
     (\<forall>(s::execution) ami st u t i (s'::execution) ami' st' u'.
        cleared E retry c s ami st u \<longrightarrow> step E retry (PStr c) s = (Inr (decide_on_action st ami), t) \<longrightarrow>
        target (decide_on_action st ami) = Some i \<longrightarrow> extends UNIV t s' \<longrightarrow> cleared E retry c s' ami' st' u' \<longrightarrow>
        ami' = ami \<and> replaced ami i st st')"

definition outdated_below :: "env \<Rightarrow> unit execution_ext retrier \<Rightarrow> string \<Rightarrow> nat \<Rightarrow> execution \<Rightarrow> bool" where
  "outdated_below E retry c B x =
     (\<forall>(s::execution) ami st u. extends UNIV x s \<longrightarrow> cleared E retry c s ami st u \<longrightarrow> card (stale_ids ami st) \<le> B)"

text \<open>\<open>recycled_runs E retry c B x k\<close>: by \<open>x\<close> at least \<open>k\<close> runs have recycled an instance, and of the last one's
  status at most \<open>B - k\<close> outdated instances are left without its own.\<close>

definition recycled_runs :: "env \<Rightarrow> unit execution_ext retrier \<Rightarrow> string \<Rightarrow> nat \<Rightarrow> execution \<Rightarrow> nat \<Rightarrow> bool" where
  "recycled_runs E retry c B x k =
     (k = 0 \<or>
      (\<exists>(s::execution) ami st u t i. cleared E retry c s ami st u \<and> step E retry (PStr c) s = (Inr (decide_on_action st ami), t) \<and>
         target (decide_on_action st ami) = Some i \<and> extends UNIV t x \<and> card (stale_ids ami st) + k \<le> B + 1))"

lemma recycled_runs_kept: "recycled_runs E retry c B x k \<Longrightarrow> extends UNIV x y \<Longrightarrow> recycled_runs E retry c B y k"
  unfolding recycled_runs_def by (blast intro: extends_trans)

lemma recycled_runs_bound: "recycled_runs E retry c B x k \<Longrightarrow> k \<le> B"
proof -
  have "1 \<le> card (stale_ids ami st)" if "target (decide_on_action st ami) = Some i" for ami st i
    using target_stale [OF that] finite_stale card_gt_0_iff [of "stale_ids ami st"] by (auto simp: Suc_le_eq)
  then show "recycled_runs E retry c B x k \<Longrightarrow> k \<le> B" by (fastforce simp: recycled_runs_def)
qed

lemma step_cleared:
  assumes "bounded_retry retry n" and "step E retry (PStr c) s = (Inr d, t)"
  obtains ami st u where "cleared E retry c s ami st u" "d = decide_on_action st ami"
  using assms
proof (cases rule: step_cases)
  case (Executed ami st u r')
  with that show thesis by (auto split: sum.splits)
qed simp

lemma step_terminates:
  assumes "bounded_retry retry 10" and "instances_are_lists E" and "step E retry (PStr c) s = (Inr d, t)" and "action d \<noteq> DONE"
  shows "terminations (calls t) \<noteq> []"
  using assms(1,3)
proof (cases rule: step_cases)
  case (Executed ami st u r')
  then obtain x where "r' = Inr x" and d: "d = decide_on_action st ami" by (auto split: sum.splits)
  with wp_Inr [OF execute_action_wp [OF assms(1,2)]] Executed(2) have "execution_done E d (calls u) (calls t)" by blast
  with assms(4) obtain i p where "ended_one E i p (calls t)" by (auto simp: execution_done_def)
  then show ?thesis by (auto dest!: ended_one_shape)
qed simp

lemma decided_target: "action (decide_on_action st ami) \<noteq> DONE \<Longrightarrow> \<exists>i. target (decide_on_action st ami) = Some i"
  by (cases st ami rule: decide_cases) (auto simp: recycle_secondary_def step_down_and_recycle_primary_def done_decision_def)

text \<open>One more run that recycles an instance.\<close>

lemma recycled_runs_Suc:
  assumes "recycled_runs E retry c B x k" and "renews E retry c" and "outdated_below E retry c B x0" and "bounded_retry retry n"
    and "step E retry (PStr c) s = (Inr d, t)" and "action d \<noteq> DONE" and "extends UNIV x0 x" and "extends UNIV x s" and "extends UNIV t y"
  shows "recycled_runs E retry c B y (Suc k)"
proof -
  from step_cleared [OF assms(4,5)] obtain ami st u where
    st: "cleared E retry c s ami st u" "d = decide_on_action st ami" .
  from decided_target [of st ami] assms(6) st(2) obtain i where i: "target (decide_on_action st ami) = Some i" by blast
  have "card (stale_ids ami st) + k \<le> B"
  proof (cases "k = 0")
    case True
    with assms(3) st(1) extends_trans [OF assms(7,8)] show ?thesis by (auto simp: outdated_below_def)
  next
    case False
    with assms(1) obtain s0 ami0 st0 u0 t0 i0 where
      0: "cleared E retry c s0 ami0 st0 u0" "step E retry (PStr c) s0 = (Inr (decide_on_action st0 ami0), t0)"
        "target (decide_on_action st0 ami0) = Some i0" "extends UNIV t0 x" "card (stale_ids ami0 st0) + k \<le> B + 1"
      unfolding recycled_runs_def by blast
    from 0(4) assms(8) have "extends UNIV t0 s" by (rule extends_trans)
    with assms(2) 0(1-3) st(1) have "ami = ami0 \<and> replaced ami0 i0 st0 st" unfolding renews_def by blast
    with target_stale [OF 0(3)] have "stale_ids ami st \<subset> stale_ids ami0 st0" by (auto simp: replaced_def)
    then have "card (stale_ids ami st) < card (stale_ids ami0 st0)" by (rule psubset_card_mono [OF finite_stale])
    with 0(5) show ?thesis by simp
  qed
  then have "card (stale_ids ami st) + Suc k \<le> B + 1" by simp
  with st(1) assms(5) [unfolded st(2)] assms(9) i show ?thesis unfolding recycled_runs_def by blast
qed

section \<open>How long an execution runs\<close>

text \<open>
  The states of an execution that has recycled in \<open>k\<close> runs, with the steps that it can still take: a
  run takes at most 11, for the 9 attempts at the task, the decision and the wait.
\<close>

definition mongo_left :: "nat \<Rightarrow> nat \<Rightarrow> execution \<Rightarrow> nat" where
  "mongo_left B k x =
     (case current x of
        ChooseStrategy \<Rightarrow> 16 + 11 * (B - k)
      | MongoRecycle \<Rightarrow> 15 + 11 * (B - k)
      | SlackMongo \<Rightarrow> 14 + 11 * (B - k)
      | RecycleMongo \<Rightarrow> 13 + 11 * (B - k) - attempts x
      | MongoAutorecycleDecision \<Rightarrow> (if mongo_done (document x) then 3 else 15 + 11 * (B - k))
      | WaitMongo \<Rightarrow> 14 + 11 * (B - k)
      | LambdaErrored \<Rightarrow> 3
      | SlackEnd \<Rightarrow> 2
      | StatusChoice \<Rightarrow> 1
      | _ \<Rightarrow> 0)"

definition decided_actions :: "pyval \<Rightarrow> bool" where
  "decided_actions v = (\<exists>a \<in> {STEP_DOWN_AND_RECYCLE_PRIMARY, RECYCLE_SECONDARY, DONE}.
     path_get [''decision'', ''action''] v = Some (PStr a))"

definition mongo_ending :: "env \<Rightarrow> unit execution_ext retrier \<Rightarrow> string \<Rightarrow> nat \<Rightarrow> execution \<Rightarrow> nat \<Rightarrow> execution \<Rightarrow> bool" where
  "mongo_ending E retry c B x0 k x =
     (extends UNIV x0 x \<and>
      (current x = ChooseStrategy \<and> path_get [''strategy''] (document x) = Some (PStr ''mongo'') \<or>
       current x \<in> {MongoRecycle, SlackMongo, WaitMongo} \<or>
       current x = RecycleMongo \<and> attempts x \<le> 8 \<or>
       current x = MongoAutorecycleDecision \<and> decided_actions (document x) \<or> over x) \<and>
      on_component c x \<and> recycled_runs E retry c B x k)"

lemma decided_action: "action (decide_on_action st ami) \<in> {STEP_DOWN_AND_RECYCLE_PRIMARY, RECYCLE_SECONDARY, DONE}"
  by (cases st ami rule: decide_cases) (auto simp: recycle_secondary_def step_down_and_recycle_primary_def done_decision_def)

lemma mongo_task_left:
  assumes "bounded_retry retry 10" and "renews E retry c"
    and "outdated_below E retry c B x0" and "mongo_ending E retry c B x0 k x" and "current x = RecycleMongo"
    and "mongo_lambda_handler E retry (document x) x = (Inr out, z)" and "current y = MongoAutorecycleDecision"
    and "document y = out" and "attempts y = 0" and "calls y = calls z" and "on_component c y" and "extends UNIV x y"
  shows "\<exists>k'. mongo_ending E retry c B x0 k' y \<and> mongo_left B k' y < mongo_left B k x"
  using assms(6)
proof (rule handler_step)
  fix e o' c' d u
  assume e: "document x = PDict e" "map_of e ''component'' = Some (PStr c')"
    and o': "out = PDict o'" "map_of o' ''decision'' = Some (decision_json d)"
    and run: "extends UNIV x u" "step E retry (PStr c') u = (Inr d, z)"
  from assms(4,5) have x: "extends UNIV x0 x" "attempts x \<le> 8" "on_component c x" "recycled_runs E retry c B x k"
    by (auto simp: mongo_ending_def over_def)
  from x(3) assms(5) e have [simp]: "c' = c" by (auto simp: on_component_def over_def)
  from step_cleared [OF assms(1) run(2)] obtain ami st w where "d = decide_on_action st ami" .
  then have acts: "action d \<in> {STEP_DOWN_AND_RECYCLE_PRIMARY, RECYCLE_SECONDARY, DONE}" using decided_action by simp
  have act: "path_get [''decision'', ''action''] (document y) = Some (PStr (action d))"
    using o' assms(8) by (simp add: path_get.simps(2) decision_json_def)
  from x(1) assms(12) have y: "extends UNIV x0 y" by (rule extends_trans)
  show ?thesis
  proof (cases "action d = DONE")
    case True
    have "mongo_ending E retry c B x0 k y"
      using y act acts assms(7,11) recycled_runs_kept [OF x(4) assms(12)] by (auto simp: mongo_ending_def decided_actions_def)
    moreover have "mongo_left B k y < mongo_left B k x"
      using True act assms(5,7) x(2) by (simp add: mongo_left_def mongo_done_def)
    ultimately show ?thesis by blast
  next
    case False
    have "extends UNIV z y" by (simp add: extends_def assms(10))
    from recycled_runs_Suc [OF x(4) assms(2,3,1) run(2) [unfolded \<open>c' = c\<close>] False x(1) run(1) this]
    have runs: "recycled_runs E retry c B y (Suc k)" .
    from recycled_runs_bound [OF this] have "Suc k \<le> B" .
    then have "B - k = Suc (B - Suc k)" by simp
    then have "mongo_left B (Suc k) y < mongo_left B k x"
      using False act assms(5,7) x(2) by (simp add: mongo_left_def mongo_done_def)
    moreover have "mongo_ending E retry c B x0 (Suc k) y"
      using y act acts assms(7,11) runs by (auto simp: mongo_ending_def decided_actions_def)
    ultimately show ?thesis by blast
  qed
qed

lemma over_left:
  assumes "sm_step F V x y" and "over x" and "slack_keeps F"
  shows "mongo_left B k y < mongo_left B k x"
proof -
  from assms(2) consider "current x = LambdaErrored" | "current x = SlackEnd" | "current x = StatusChoice"
    | "current x \<in> {SuccessState, FailState, Aborted}"
    by (auto simp: over_def)
  then show ?thesis
  proof cases
    case 1
    with step_pass [OF assms(1), of "lambda_error_arguments V" SlackEnd] show ?thesis
      by (auto simp: mongo_left_def split: option.splits)
  next
    case 2
    then have node: "sm_node V (current x) = slack_task StatusChoice" by simp
    show ?thesis by (cases rule: step_slack [OF assms(1) node assms(3)]) (use 2 in \<open>auto simp: mongo_left_def\<close>)
  next
    case 3
    with step_choice [OF assms(1), of "[(StringEquals [''status''] ''fail'', FailState)]" SuccessState] show ?thesis
      by (auto simp: mongo_left_def split: option.splits if_splits bool.splits)
  next
    case 4
    with step_end [of V x F y] assms(1) show ?thesis by auto
  qed
qed

lemma mongo_left_step:
  assumes step: "sm_step F V x y" and x: "mongo_ending E retry c B x0 k x"
    and code: "all_code E retry compile validate F" "pydantic validate" "bounded_retry retry 10" "slack_keeps F" "keeps_log F"
    and site: "renews E retry c" "outdated_below E retry c B x0"
  shows "\<exists>k'. mongo_ending E retry c B x0 k' y \<and> mongo_left B k' y < mongo_left B k x"
proof -
  from x have on: "on_component c x" and runs: "recycled_runs E retry c B x k" and x0: "extends UNIV x0 x"
    by (simp_all add: mongo_ending_def)
  have ext: "extends UNIV x y" by (rule step_log [OF code(5) step])
  have y: "extends UNIV x0 y" "on_component c y" "recycled_runs E retry c B y k"
    using extends_trans [OF x0 ext] on_component_step [OF step on code(1-4)] recycled_runs_kept [OF runs ext] by simp_all
  have moves: ?thesis
    if "current y \<in> {MongoRecycle, SlackMongo, WaitMongo} \<or> current y = RecycleMongo \<and> attempts y \<le> 8 \<or> over y"
      and "mongo_left B k y < mongo_left B k x"
    using y that by (intro exI [of _ k]) (auto simp: mongo_ending_def)
  from x consider "current x = ChooseStrategy" "path_get [''strategy''] (document x) = Some (PStr ''mongo'')"
    | "current x = MongoRecycle" | "current x = SlackMongo" | "current x = WaitMongo"
    | "current x = RecycleMongo" "attempts x \<le> 8"
    | "current x = MongoAutorecycleDecision" "decided_actions (document x)" | "over x"
    by (auto simp: mongo_ending_def)
  then show ?thesis
  proof cases
    case 1
    from step_choice [OF step] 1 show ?thesis by (intro moves) (auto simp: mongo_left_def)
  next
    case 2
    from step_pass [OF step] 2 have "attempts y = 0 \<and> (current y = Aborted \<or> current y = SlackMongo)" by (auto split: option.splits)
    with 2 show ?thesis by (intro moves) (auto simp: mongo_left_def over_def)
  next
    case 3
    then have node: "sm_node V (current x) = slack_task RecycleMongo" by simp
    then have "attempts y = 0 \<and> (current y = Aborted \<or> current y = RecycleMongo)"
      by (cases rule: step_slack [OF step _ code(4)]) auto
    with 3 show ?thesis by (intro moves) (auto simp: mongo_left_def over_def)
  next
    case 4
    from step_wait [OF step] 4 show ?thesis by (intro moves) (auto simp: mongo_left_def)
  next
    case 5
    then have node: "sm_node V (current x) = lambda_task MongoLambda MongoAutorecycleDecision" by simp
    from code(1) have F: "F MongoLambda = mongo_lambda_handler E retry" by (simp add: all_code_def)
    from step node show ?thesis
    proof (cases rule: step_lambda)
      case (finished out z)
      from finished(1) F have "mongo_lambda_handler E retry (document x) x = (Inr out, z)" by simp
      then show ?thesis by (rule mongo_task_left [OF code(3) site x 5(1)]) (rule finished(2-5) y(2) ext)+
    next
      case retried
      with 5 show ?thesis by (intro moves) (auto simp: mongo_left_def)
    next
      case failed
      with 5 show ?thesis by (intro moves) (auto simp: mongo_left_def over_def)
    qed
  next
    case 6
    from step_choice [OF step] 6 have "current y = Aborted \<or> mongo_done (document x) \<and> current y = SlackEnd \<or>
        \<not> mongo_done (document x) \<and> current y = WaitMongo"
      by (auto simp: mongo_done_def decided_actions_def split: option.splits if_splits bool.splits)
    with 6 show ?thesis by (intro moves) (auto simp: mongo_left_def over_def)
  next
    case 7
    have "over y" by (rule over_step [OF step 7 code(4)])
    moreover have "mongo_left B k y < mongo_left B k x" by (rule over_left [OF step 7 code(4)])
    ultimately show ?thesis by (intro moves) simp_all
  qed
qed

lemma mongo_left_steps:
  assumes code: "all_code E retry compile validate F" "pydantic validate" "bounded_retry retry 10" "slack_keeps F" "keeps_log F"
    and site: "renews E retry c" "outdated_below E retry c B x0"
  shows "(sm_step F V ^^ n) x y \<Longrightarrow> mongo_ending E retry c B x0 k x \<Longrightarrow>
    \<exists>k'. mongo_ending E retry c B x0 k' y \<and> mongo_left B k' y + n \<le> mongo_left B k x"
proof (induction n arbitrary: y)
  case (Suc n)
  then obtain u where u: "(sm_step F V ^^ n) x u" "sm_step F V u y" by auto
  from Suc.IH [OF u(1) Suc.prems(2)] obtain j where
    "mongo_ending E retry c B x0 j u" "mongo_left B j u + n \<le> mongo_left B k x" by blast
  with mongo_left_step [OF u(2) _ code site] show ?case by fastforce
qed auto

text \<open>\<open>ends_within F V N x\<close>: no execution from \<open>x\<close> takes more than \<open>N\<close> steps, and one that is driven comes to an end.\<close>

definition ends_within :: "lambda_code \<Rightarrow> variables \<Rightarrow> nat \<Rightarrow> execution \<Rightarrow> bool" where
  "ends_within F V N x =
     ((\<forall>n y. (sm_step F V ^^ n) x y \<longrightarrow> n \<le> N) \<and> current (drive (Suc N) F V x) \<in> {SuccessState, FailState, Aborted})"

lemma ends_withinI:
  assumes "\<And>n y. (sm_step F V ^^ n) x y \<Longrightarrow> n \<le> N"
  shows "ends_within F V N x"
  using assms drive_ends [of "Suc N" F V x] assms [of "Suc N"] unfolding ends_within_def by fastforce

lemma mongo_ends:
  assumes "all_code E retry compile validate F" and "others_harmless F" and "slack_keeps F" and "pydantic validate"
    and "bounded_retry retry 10" and "renews E retry c" and "outdated_below E retry c B x"
    and "current x = ChooseStrategy" and "path_get [''strategy''] (document x) = Some (PStr ''mongo'')"
    and "path_get [''component''] (document x) = Some (PStr c)"
  shows "ends_within F V (16 + 11 * B) x"
proof -
  note code = assms(1,4,5,3) all_code_log [OF assms(1,2,5)]
  have "mongo_ending E retry c B x 0 x" using assms(8-10) by (simp add: mongo_ending_def on_component_def recycled_runs_def)
  moreover have "mongo_left B 0 x = 16 + 11 * B" using assms(8) by (simp add: mongo_left_def)
  ultimately have "(sm_step F V ^^ m) x z \<Longrightarrow> m \<le> 16 + 11 * B" for m z
    using mongo_left_steps [OF code assms(6,7), of m V x z 0] by fastforce
  then show ?thesis by (rule ends_withinI)
qed

text \<open>
  C18. An execution of the strategy \<open>mongo\<close> ends, whatever fails in it, when the platform does its part: if every ended
  instance is replaced by one of the same launch templates' image and no check finds more than \<open>B\<close>
  outdated instances, then at most \<open>16 + 11 B\<close> steps can be taken, failed attempts included, and an execution that
  is driven on comes to an end.
\<close>

theorem mongo_executions_end:
  assumes "all_code E retry compile validate F" and "others_harmless F" and "slack_keeps F" and "pydantic validate"
    and "bounded_retry retry 10" and "renews E retry c" and "outdated_below E retry c B x"
    and "current x = ChooseStrategy" and "path_get [''strategy''] (document x) = Some (PStr ''mongo'')"
    and "path_get [''component''] (document x) = Some (PStr c)"
  shows "ends_within F V (16 + 11 * B) x"
  by (rule mongo_ends [OF assms])

section \<open>A recycle that completes\<close>

text \<open>
  \<open>runs_return E retry c\<close>: the runs of the recycler on \<open>c\<close> meet no error. \<open>calm c x\<close> is what an execution is like
  then: it is never on the way to an error, and its document is one that the recycler can take.
\<close>

definition runs_return :: "env \<Rightarrow> unit execution_ext retrier \<Rightarrow> string \<Rightarrow> bool" where
  "runs_return E retry c =
     (\<forall>s::execution. (\<exists>t. record_recycle_starting E (PStr c) s = (Inr (), t)) \<and>
        (\<exists>d t. step E retry (PStr c) s = (Inr d, t)))"

definition takes :: "string \<Rightarrow> pyval \<Rightarrow> bool" where
  "takes c v =
     (path_get [''component''] v = Some (PStr c) \<and> (\<exists>m. path_get [''message_content''] v = Some (PDict m)) \<and>
      (path_get [''counter''] v = None \<or> (\<exists>n. path_get [''counter''] v = Some (PInt n))) \<and>
      (\<exists>st. path_get [''status''] v = Some st \<and> st \<noteq> PStr ''fail''))"

definition calm :: "string \<Rightarrow> execution \<Rightarrow> bool" where
  "calm c x =
     (case current x of
        ChooseStrategy \<Rightarrow> path_get [''strategy''] (document x) = Some (PStr ''mongo'') \<and> path_get [''component''] (document x) = Some (PStr c)
      | MongoRecycle \<Rightarrow> path_get [''component''] (document x) = Some (PStr c)
      | SlackMongo \<Rightarrow> takes c (document x)
      | RecycleMongo \<Rightarrow> takes c (document x)
      | WaitMongo \<Rightarrow> takes c (document x)
      | MongoAutorecycleDecision \<Rightarrow> takes c (document x) \<and> decided_actions (document x)
      | SlackEnd \<Rightarrow> takes c (document x)
      | StatusChoice \<Rightarrow> takes c (document x)
      | SuccessState \<Rightarrow> True
      | _ \<Rightarrow> False)"

lemma takes_same: "takes c v \<Longrightarrow> (\<And>k. k \<notin> {''channels'', ''error-info''} \<Longrightarrow> path_get [k] w = path_get [k] v) \<Longrightarrow> takes c w"
  by (simp add: takes_def del: path_get_one)

text \<open>A message to Slack, sent or not, ends in the next state.\<close>

lemma advance_slack:
  assumes "slack_keeps F" and "sm_node V (current x) = slack_task st" and "takes c (document x)"
  shows "current (advance F V x) = st \<and> takes c (document (advance F V x))"
proof -
  from assms(3) obtain d where d: "document x = PDict d" by (auto simp: takes_def dest: path_get_dict)
  obtain r y where run: "F SlackNotifications (document x) x = (r, y)" by fastforce
  show ?thesis
  proof (cases r)
    case (Inr out)
    with slack_keepsD [OF assms(1) run [unfolded Inr]] have "takes c out" by (intro takes_same [OF assms(3)]) auto
    with run Inr assms(2) show ?thesis by (simp add: advance_def slack_task_def)
  next
    case (Inl e)
    obtain w where w: "path_put error_path (error_info (exn_class_name (exn_cls e)) (exn_str e)) (document x) = Some w"
      by (simp add: d error_path_def)
    then have "takes c w"
      by (intro takes_same [OF assms(3)] path_put_other [of "''error-info''"]) (auto simp: error_path_def)
    with run Inl w assms(2) show ?thesis by (simp add: advance_def slack_task_def)
  qed
qed

text \<open>A run of the recycler on such a document returns one.\<close>

lemma after_step_takes:
  assumes "takes c v" and "action d \<in> {STEP_DOWN_AND_RECYCLE_PRIMARY, RECYCLE_SECONDARY, DONE}"
  shows "\<exists>out. after_step v d = Inr out \<and> takes c out \<and> decided_actions out"
proof -
  from assms(1) obtain e m st where e: "v = PDict e" "map_of e ''component'' = Some (PStr c)" "map_of e ''message_content'' = Some (PDict m)"
    "map_of e ''counter'' = None \<or> (\<exists>n. map_of e ''counter'' = Some (PInt n))" "map_of e ''status'' = Some st" "st \<noteq> PStr ''fail''"
    by (auto simp: takes_def dest!: path_get_dict)
  have incr: "\<exists>n e''. increment_counter (PDict e') = Inr (PDict e'') \<and> map_of e'' = (map_of e')(''counter'' \<mapsto> PInt n)"
    if "map_of e' ''counter'' = map_of e ''counter''" for e'
    using e(4) that by (auto simp: increment_counter_def py_item_PDict update_conv' py_add_one_def)
  have takes: "takes c (PDict e'') \<and> decided_actions (PDict e'')"
    if "map_of e'' = (map_of e')(''counter'' \<mapsto> PInt n)" "map_of e' ''component'' = Some (PStr c)" "map_of e' ''message_content'' = Some (PDict m')"
      "map_of e' ''status'' = Some st" "map_of e' ''decision'' = Some (decision_json d)" for e' e'' m' n
    using that e(6) assms(2) by (auto simp: takes_def decided_actions_def path_get.simps(2) decision_json_def)
  let ?e1 = "AList.update ''decision'' (decision_json d) e"
  show ?thesis
  proof (cases "action d = DONE")
    case False
    with e(1) have after: "after_step v d = increment_counter (PDict ?e1)" by (simp add: after_step_def)
    from incr [of ?e1] obtain n e'' where "increment_counter (PDict ?e1) = Inr (PDict e'')"
      and "map_of e'' = (map_of ?e1)(''counter'' \<mapsto> PInt n)" by (auto simp: update_conv')
    with after takes [of e'' ?e1 n m] e(2,3,5) show ?thesis by (simp add: update_conv')
  next
    case True
    define report where "report = (case map_of e ''counter'' of None \<Rightarrow> ''No instances were recycled, because there was nothing to do''
      | Some n \<Rightarrow> ''Autorecycling has successfully completed. Recycled '' @ py_str n @ '' mongo instances.'')"
    let ?m = "AList.update ''text'' (PStr report) m"
    let ?e2 = "AList.update ''message_content'' (PDict ?m) ?e1"
    have after: "after_step v d = increment_counter (PDict ?e2)"
      using True e(1,3,4)
      by (auto simp: after_step_def set_message_text_def report_def py_item_PDict update_conv' split: option.splits)
    from incr [of ?e2] obtain n e'' where "increment_counter (PDict ?e2) = Inr (PDict e'')"
      and "map_of e'' = (map_of ?e2)(''counter'' \<mapsto> PInt n)" by (auto simp: update_conv')
    with after takes [of e'' ?e2 n ?m] e(2,5) show ?thesis by (simp add: update_conv')
  qed
qed

lemma handler_returns:
  assumes "runs_return E retry c" and "bounded_retry retry 10" and "takes c v"
  shows "\<exists>out y. mongo_lambda_handler E retry v (x :: execution) = (Inr out, y) \<and> takes c out \<and> decided_actions out"
proof -
  from assms(3) obtain e where e: "v = PDict e" "py_item v ''component'' = Inr (PStr c)"
    by (auto simp: takes_def path_component dest: path_get_dict)
  have first: "\<exists>first. is_first_run v = Inr first" by (simp add: e(1) is_first_run_def)
  then obtain first where f: "is_first_run v = Inr first" ..
  from assms(1) obtain t where start: "(if first then record_recycle_starting E (PStr c) else io_return ()) x = (Inr (), t)"
    unfolding runs_return_def io_return_def by (cases first) auto
  from assms(1) obtain d y where run: "step E retry (PStr c) t = (Inr d, y)" unfolding runs_return_def by blast
  from step_cleared [OF assms(2) run] obtain ami st u where "d = decide_on_action st ami" .
  with decided_action after_step_takes [OF assms(3)] obtain out where
    "after_step v d = Inr out" "takes c out" "decided_actions out" by metis
  with e(2) f start run show ?thesis
    by (auto simp: mongo_lambda_handler_def io_bind_def io_then_def io_res_def)
qed

lemma calm_advance:
  assumes calm: "calm c x" and going: "current x \<noteq> SuccessState"
    and code: "slack_keeps F" "F MongoLambda = mongo_lambda_handler E retry" "bounded_retry retry 10" "runs_return E retry c"
  shows "calm c (advance F V x)"
proof -
  from calm going consider "current x = ChooseStrategy" | "current x = MongoRecycle" | "current x = SlackMongo"
    | "current x = RecycleMongo" | "current x = WaitMongo" | "current x = MongoAutorecycleDecision"
    | "current x = SlackEnd" | "current x = StatusChoice"
    by (auto simp: calm_def split: sm_state.splits)
  then show ?thesis
  proof cases
    case 1
    with calm show ?thesis by (simp add: calm_def advance_def)
  next
    case 2
    with calm obtain d where "document x = PDict d" "map_of d ''component'' = Some (PStr c)"
      by (auto simp: calm_def dest: path_get_dict)
    with 2 show ?thesis by (simp add: calm_def advance_def slack_arguments_def takes_def)
  next
    case 3
    then have "sm_node V (current x) = slack_task RecycleMongo" by simp
    from advance_slack [OF code(1) this] calm 3 show ?thesis by (simp add: calm_def)
  next
    case 4
    with calm have "takes c (document x)" by (simp add: calm_def)
    from handler_returns [OF code(4,3) this] obtain out y where
      run: "mongo_lambda_handler E retry (document x) x = (Inr out, y)" and out: "takes c out" "decided_actions out" by blast
    with 4 code(2) show ?thesis by (simp add: calm_def advance_def lambda_task_def)
  next
    case 5
    with calm show ?thesis by (simp add: calm_def advance_def)
  next
    case 6
    with calm show ?thesis
      by (auto simp: calm_def advance_def decided_actions_def)
  next
    case 7
    then have "sm_node V (current x) = slack_task StatusChoice" by simp
    from advance_slack [OF code(1) this] calm 7 show ?thesis by (simp add: calm_def)
  next
    case 8
    with calm show ?thesis by (auto simp: calm_def advance_def takes_def)
  qed
qed

lemma calm_drive:
  assumes "slack_keeps F" and "F MongoLambda = mongo_lambda_handler E retry" and "bounded_retry retry 10" and "runs_return E retry c"
  shows "calm c x \<Longrightarrow> calm c (drive n F V x)"
proof (induction n arbitrary: x)
  case (Suc n)
  then show ?case using calm_advance [OF _ _ assms] by auto
qed simp

text \<open>
  C5. A recycle of a replica set whose runs meet no error, on a platform that renews what is ended, completes: driven on, the
  execution succeeds, whether its messages are sent or not, and at the end every primary and secondary that
  the last check read runs the image of the launch templates, with chaining on again.
\<close>

theorem mongo_recycle_completes:
  assumes "all_code E retry compile validate F" and "others_harmless F" and "slack_keeps F" and "pydantic validate"
    and "bounded_retry retry 10" and "renews E retry c" and "outdated_below E retry c B x" and "runs_return E retry c"
    and "current x = ChooseStrategy" and "path_get [''strategy''] (document x) = Some (PStr ''mongo'')"
    and "path_get [''component''] (document x) = Some (PStr c)"
  shows "current (drive (17 + 11 * B) F V x) = SuccessState \<and> all_current E retry c x (drive (17 + 11 * B) F V x)"
proof -
  let ?y = "drive (17 + 11 * B) F V x"
  from assms(1) have F: "F MongoLambda = mongo_lambda_handler E retry" by (simp add: all_code_def)
  have "calm c x" using assms(9-11) by (simp add: calm_def)
  with calm_drive [OF assms(3) F assms(5,8)] have "calm c ?y" .
  moreover from mongo_ends [OF assms(1-7,9-11), of V] have "current ?y \<in> {SuccessState, FailState, Aborted}"
    by (simp add: ends_within_def)
  ultimately have y: "current ?y = SuccessState" by (auto simp: calm_def)
  from mongo_success_found [OF assms(3) all_code_log [OF assms(1,2,5)] F assms(5) drive_steps assms(9,10) y] assms(11) y
  show ?thesis by (auto simp: mongo_found_def)
qed

section \<open>A platform that renews\<close>

text \<open>
  The sample site with its platform: once an instance was ended, the cluster shows its replacement, which
  runs the image of the launch templates.
\<close>

definition renewed_node :: ec2_instance where
  "renewed_node = \<lparr>ec2_id = ''i-2'', ec2_image = ''ami-new'', ec2_state = ''running'', ec2_nics = [(''10.0.0.1'', False)]\<rparr>"

definition renewing_site :: env where
  "renewing_site = \<lparr>reply = (\<lambda>h c. case c of
       DescribeInstancesByName _ \<Rightarrow> Inr (reservations_json [[if terminations h = [] then sample_node else renewed_node]])
     | _ \<Rightarrow> reply sample_site h c),
     environ = (\<lambda>_. None)\<rparr>"

definition renewed_secondary :: Instance where
  "renewed_secondary = \<lparr>instance_id = PStr ''i-2'', image_id = PStr ''ami-new'', ip_address = PStr ''10.0.0.1'',
     mongo_state = ''SECONDARY'', replica_set_name = PStr ''rs''\<rparr>"

lemma renewing_ami:
  "get_ami_and_check_all_amis_match renewing_site ''mongo'' s =
     (Inr (PStr ''ami-new''),
      s\<lparr>calls := calls s @ [DescribeLaunchTemplates ''mongo*'', DescribeLaunchTemplateVersions (PStr ''lt'') ''1'']\<rparr>)"
  by (simp add: get_ami_and_check_all_amis_match_def get_launch_template_image_ids_def io_eval renewing_site_def one_node_site_def
      py_item_PDict py_index_def list_index_def assert_amis_match_and_get_ami_def hashable_def py_set_def set_add_def one_str)

lemma renewing_instances:
  "get_mongo_db_instances renewing_site ''mongo'' s =
     (Inr [described (if terminations (calls s) = [] then sample_node else renewed_node)], s\<lparr>calls := calls s @ [look]\<rparr>)"
  by (simp add: get_mongo_db_instances_def io_eval mongo_names look_def renewing_site_def)
    (simp add: describe_mongodb_instances_spec sample_node_def renewed_node_def described_def lasting_address_def)

lemma renewing_connect:
  "connect renewing_site (retry_now 9) (PStr ''10.0.0.1'') s =
     (Inr (PStr ''10.0.0.1''), s\<lparr>calls := calls s @ connecting_calls\<rparr>)"
  by (simp add: connect_def connect_once_def io_eval renewing_site_def one_node_site_def numeral_eq_Suc connecting_calls_def)

lemma renewing_details:
  "get_node_details renewing_site (retry_now 9) (PStr ''10.0.0.1'') s =
     (Inr \<lparr>node_state = ''SECONDARY'', node_set = PStr ''rs''\<rparr>,
      s\<lparr>calls := calls s @ connecting_calls @ [ReplSetGetStatus (PStr ''10.0.0.1'')]\<rparr>)"
  by (simp add: get_node_details_def io_bind_def renewing_connect)
    (simp add: io_eval renewing_site_def one_node_site_def node_details_def py_item_PDict state_string_from_status_def
      states_item_def list_index_def member_states_def)

lemma renewing_status:
  "\<exists>t. fetch_replica_set_status renewing_site (retry_now 9) ''mongo'' s =
     (Inr [if terminations (calls s) = [] then sample_secondary else renewed_secondary], t)"
  by (auto simp: fetch_replica_set_status_def io_bind_def io_res_def io_return_def py_item_PDict renewing_details
      renewing_instances described_def lasting_address_def sample_node_def renewed_node_def sample_secondary_def
      renewed_secondary_def)

lemma renewing_cleared:
  assumes "cleared renewing_site (retry_now 9) ''mongo'' (s :: execution) ami st u"
  shows "ami = PStr ''ami-new'' \<and> st = [if terminations (calls s) = [] then sample_secondary else renewed_secondary]"
proof -
  let ?t = "s\<lparr>calls := calls s @ [DescribeLaunchTemplates ''mongo*'', DescribeLaunchTemplateVersions (PStr ''lt'') ''1'']\<rparr>"
  have "terminations (calls ?t) = terminations (calls s)" by simp
  with assms renewing_status [of ?t] show ?thesis by (auto simp: cleared_def renewing_ami)
qed

lemma renewing_lists: "instances_are_lists renewing_site"
  by (simp add: instances_are_lists_def renewing_site_def one_node_site_def)

lemma renewing_renews: "renews renewing_site (retry_now 9) ''mongo''"
proof -
  have "ami' = ami \<and> replaced ami i st st'"
    if 1: "cleared renewing_site (retry_now 9) ''mongo'' s ami st u"
      and run: "step renewing_site (retry_now 9) (PStr ''mongo'') s = (Inr (decide_on_action st ami), t)"
      and i: "target (decide_on_action st ami) = Some i" and later: "extends UNIV t s'"
      and 2: "cleared renewing_site (retry_now 9) ''mongo'' s' ami' st' u'"
    for s s' t u u' :: execution and ami ami' st st' i
  proof -
    from i have "action (decide_on_action st ami) \<noteq> DONE"
      by (cases st ami rule: decide_cases) (auto simp: recycle_secondary_def step_down_and_recycle_primary_def done_decision_def)
    with step_terminates [OF retry_now_bounded renewing_lists run] have "terminations (calls t) \<noteq> []" by blast
    with later have "terminations (calls s') \<noteq> []" by (auto simp: extends_def)
    with renewing_cleared [OF 1] renewing_cleared [OF 2] have "ami' = ami" "stale_ids ami st' = {}"
      by (auto simp: stale_ids_def renewed_secondary_def)
    then show ?thesis by (simp add: replaced_def)
  qed
  then show ?thesis unfolding renews_def by blast
qed

lemma renewing_below: "outdated_below renewing_site (retry_now 9) ''mongo'' 1 (sample_start sample_mongo)"
proof -
  have "card (stale_ids ami st) \<le> 1" if "cleared renewing_site (retry_now 9) ''mongo'' (s :: execution) ami st u" for s ami st u
  proof -
    from renewing_cleared [OF that] have "stale_ids ami st \<subseteq> {PStr ''i-1''}"
      by (auto simp: stale_ids_def sample_secondary_def renewed_secondary_def split: if_splits)
    from card_mono [OF _ this] show ?thesis by simp
  qed
  then show ?thesis by (auto simp: outdated_below_def)
qed

lemma mongo_executions_end_witness: "ends_within (sample_lambdas renewing_site) sample_variables 27 (sample_start sample_mongo)"
  using mongo_executions_end [OF sample_code sample_others sample_slack strict_validate_pydantic retry_now_bounded renewing_renews
    renewing_below, of sample_variables]
  by (simp add: sample_start_def sample_mongo_def)

text \<open>The runs of the recycler on that site return, the one that replaces and the one that finds nothing to replace.\<close>

lemma renewing_address:
  "addresses_of [described (if b then sample_node else renewed_node)] = Inr ''10.0.0.1''"
  by (simp add: addresses_of_def py_item_PDict described_def lasting_address_def sample_node_def renewed_node_def)

lemma renewing_chaining:
  "\<exists>v t. set_chaining renewing_site (retry_now 9) (PStr ''10.0.0.1'') b s = (Inr v, t)"
  by (cases b; simp add: set_chaining_def io_bind_def renewing_connect)
    (simp_all add: io_eval renewing_site_def one_node_site_def sample_config_def py_item_PDict chaining_of_def
      new_chaining_config_def py_set_item_def py_add_one_def)

lemma renewing_healthy: "\<exists>t. wait_until_cluster_healthy renewing_site (retry_now 9) ''mongo'' s = (Inr (), t)"
proof -
  have "assert_replica_set_healthy (PDict [(''ok'', PInt 1), (''myState'', PInt 2), (''set'', PStr ''rs''),
      (''members'', PList [member_json \<lparr>member_name = ''n'', state_str = ''PRIMARY'', source = None\<rparr>])]) = Inr ()"
    using assert_all_nodes_healthy_json [of "[\<lparr>member_name = ''n'', state_str = ''PRIMARY'', source = None\<rparr>]"]
      assert_one_primary_node_json [of "[\<lparr>member_name = ''n'', state_str = ''PRIMARY'', source = None\<rparr>]"]
    by (simp add: assert_replica_set_healthy_def py_item_PDict healthy_member_def)
  then show ?thesis
    by (simp add: wait_until_cluster_healthy_def poll_def poll_from_unfold assert_healthy_def replica_set_status_def
        io_bind_def io_res_def renewing_instances renewing_address renewing_connect del: if_split)
      (simp add: request_def renewing_site_def one_node_site_def)
qed

lemma renewing_recycle: "\<exists>t. recycle_instance renewing_site sample_secondary s = (Inr (), t)"
  by (simp add: recycle_instance_def poll_def poll_from_unfold is_terminated_def get_instance_state_def
      io_eval renewing_site_def one_node_site_def sample_secondary_def list_index_def sample_aws_state assert_terminated_def)

lemma renewing_execute:
  assumes "d = recycle_secondary sample_secondary \<or> d = done_decision"
  shows "\<exists>t. execute_action renewing_site (retry_now 9) ''mongo'' d s = (Inr (), t)"
proof -
  let ?s = "s\<lparr>calls := calls s @ [look]\<rparr>"
  obtain v t where off: "set_chaining renewing_site (retry_now 9) (PStr ''10.0.0.1'') False ?s = (Inr v, t)"
    using renewing_chaining by blast
  obtain u where recycle: "recycle_instance renewing_site sample_secondary t = (Inr (), u)" using renewing_recycle by blast
  obtain w where healthy: "wait_until_cluster_healthy renewing_site (retry_now 9) ''mongo'' u = (Inr (), w)"
    using renewing_healthy by blast
  obtain v' t' where on: "set_chaining renewing_site (retry_now 9) (PStr ''10.0.0.1'') True ?s = (Inr v', t')"
    using renewing_chaining by blast
  from assms off recycle healthy on show ?thesis
    by (auto simp: execute_action_def io_bind_def io_then_def io_res_def io_return_def renewing_instances renewing_address
        recycle_secondary_def done_decision_def simp del: if_split)
qed

lemma renewing_step: "\<exists>d t. step renewing_site (retry_now 9) (PStr ''mongo'') s = (Inr d, t)"
proof -
  let ?s = "s\<lparr>calls := calls s @ [DescribeLaunchTemplates ''mongo*'', DescribeLaunchTemplateVersions (PStr ''lt'') ''1'']\<rparr>"
  let ?i = "if terminations (calls ?s) = [] then sample_secondary else renewed_secondary"
  obtain t where status: "fetch_replica_set_status renewing_site (retry_now 9) ''mongo'' ?s = (Inr [?i], t)"
    using renewing_status by blast
  have same: "assert_all_nodes_in_same_replica_set [?i] = Inr ()"
    by (simp add: assert_same_replica_set_iff sample_secondary_def renewed_secondary_def hashable_def)
  have "decide_on_action [?i] (PStr ''ami-new'') = recycle_secondary sample_secondary \<or>
      decide_on_action [?i] (PStr ''ami-new'') = done_decision"
    by (simp add: sample_site_decision)
      (simp add: decide_on_action_def find_candidates_def find_instances_def candidate_states_def renewed_secondary_def)
  from renewing_execute [OF this] obtain u where
    "execute_action renewing_site (retry_now 9) ''mongo'' (decide_on_action [?i] (PStr ''ami-new'')) t = (Inr (), u)" by blast
  with status same show ?thesis
    by (simp add: step_def mongo_init_PStr io_bind_def io_then_def io_res_def io_return_def Let_def renewing_ami del: if_split)
qed

lemma renewing_runs: "runs_return renewing_site (retry_now 9) ''mongo''"
  using renewing_step
  by (auto simp: runs_return_def record_recycle_starting_run res_bind_def renewing_site_def one_node_site_def start_record_def
      int_of_time_def)

lemma mongo_recycle_completes_witness:
  "current (drive 28 (sample_lambdas renewing_site) sample_variables (sample_start sample_mongo)) = SuccessState"
  using mongo_recycle_completes [OF sample_code sample_others sample_slack strict_validate_pydantic retry_now_bounded renewing_renews
    renewing_below renewing_runs, of sample_variables]
  by (simp add: sample_start_def sample_mongo_def)

end
