(* ===== verification/Recycle.thy ===== *)
theory Recycle
  imports InvokeSF MongoEnds
begin

text \<open>
  A recycle from its event to its end: the Lambda of \<open>InvokeSF\<close> and the state machine that its
  execution runs on, joined by the JSON text of the input.
\<close>

section \<open>The document of a started execution\<close>

text \<open>An execution of the state machine \<open>autorecycle\<close> that starts on the input of a \<open>StartExecution\<close>.\<close>

fun execution_input :: "call \<Rightarrow> pyval res" where
  "execution_input (StartExecution arn name (PStr input)) = json_loads input"
| "execution_input _ = Inl (py_exception ''not a start of an execution'')"

definition begins :: "call \<Rightarrow> execution \<Rightarrow> bool" where
  "begins start x = (current x = ChooseStrategy \<and> execution_input start = Inr (document x) \<and> attempts x = 0)"

lemma payload_document:
  assumes "\<forall>k. map_of doc k = payload_lookup account channel c grp kvs k" and "map_of kvs ''autorecycle_strategy'' = Some strategy"
  shows "path_get [''strategy''] (PDict doc) = Some (PStr strategy)" and "runs_counted (PDict doc) = Some 0"
    and "path_get [''component''] (PDict doc) = Some (PStr c)"
  using assms
  by (simp_all add: payload_lookup_def payload_to_asg_tag_map_def payload_base_def autorecycle_tag_names_def tag_value_fun
      runs_counted_def)

lemma begins_document:
  assumes "started account channel c grp kvs stamp start doc" and "begins start x"
    and "map_of kvs ''autorecycle_strategy'' = Some strategy"
  shows "path_get [''strategy''] (document x) = Some (PStr strategy)" and "runs_counted (document x) = Some 0"
    and "path_get [''component''] (document x) = Some (PStr (recycled_component c kvs))" and "current x = ChooseStrategy"
proof -
  from assms(1,2) have x: "document x = PDict doc" "current x = ChooseStrategy"
    and doc: "\<forall>k. map_of doc k = payload_lookup account channel (recycled_component c kvs) grp kvs k"
    by (auto simp: started_def begins_def)
  from x(1) payload_document [OF doc assms(3)]
  show "path_get [''strategy''] (document x) = Some (PStr strategy)" "runs_counted (document x) = Some 0"
    "path_get [''component''] (document x) = Some (PStr (recycled_component c kvs))"
    by (simp_all del: path_get_one)
  from x(2) show "current x = ChooseStrategy" .
qed

section \<open>From the event to the end\<close>

text \<open>
  \<open>meant E retry compile strategy c x y\<close>: what the success of the execution from \<open>x\<close> to \<open>y\<close> means for the
  component \<open>c\<close>. The Mongo recycler found no outdated node and set chaining on; the in-out strategy found
  nothing left to scale, or came to the end of its 21 runs; the standard strategy had a check that found
  the recycle complete or the group scaled down.
\<close>

definition meant ::
    "env \<Rightarrow> unit execution_ext retrier \<Rightarrow> (string \<Rightarrow> (string \<Rightarrow> bool) res) \<Rightarrow> string \<Rightarrow> string \<Rightarrow> execution \<Rightarrow> execution \<Rightarrow> bool" where
  "meant E retry compile strategy c x y =
     (if strategy = ''mongo'' then all_current E retry c x y
      else if strategy = ''in-out''
      then (\<exists>u asgs details. extends UNIV x u \<and> decided E compile (PStr c) u asgs details None \<and> extends UNIV u y) \<or>
        path_get [''counter''] (document y) = Some (PInt 21)
      else (\<exists>u r w. extends UNIV x u \<and> check E (PStr c) u = (r, w) \<and>
        (case r of Inr complete \<Rightarrow> complete | Inl e \<Rightarrow> exn_cls e = ScaledDownASGException) \<and> extends UNIV w y))"

lemma begun_ends:
  assumes code: "slack_keeps F" "repository_code E compile validate F" "pydantic validate"
    and strategy: "strategy \<notin> {''mongo'', ''instance-refresh''}" "path_get [''strategy''] (document x) = Some (PStr strategy)"
    and x: "runs_counted (document x) = Some 0" "current x = ChooseStrategy"
  shows "ends_within F V 450 x"
proof -
  from strategy(1) have "PStr strategy \<notin> {PStr ''mongo'', PStr ''instance-refresh''}" by auto
  with strategy(2) x have "counting x" by (simp add: counting_def)
  moreover from x(2) have "rank x = 450" by (simp add: rank_def Let_def)
  ultimately have "(sm_step F V ^^ n) x y \<Longrightarrow> n \<le> 450" for n y
    using counting_steps [OF code, of n V x y] by simp
  then show ?thesis by (rule ends_withinI)
qed

lemma begun_means:
  assumes code: "slack_keeps F" "keeps_log F" "all_code E retry compile validate F" "pydantic validate" "bounded_retry retry 10"
    and strategy: "strategy \<noteq> ''instance-refresh''" "path_get [''strategy''] (document x) = Some (PStr strategy)"
    and x: "runs_counted (document x) = Some 0" "path_get [''component''] (document x) = Some (PStr c)" "current x = ChooseStrategy"
    and run: "(sm_step F V)\<^sup>*\<^sup>* x y" "current y = SuccessState"
  shows "meant E retry compile strategy c x y"
proof -
  from code(3) have F: "F MongoLambda = mongo_lambda_handler E retry" "F ScaleAsgLambda = scale_lambda_handler E compile validate"
      "F AutorecycleLambda = sqs_lambda_handler E" "F MonitorLambda = monitor_lambda_handler E"
    by (simp_all add: all_code_def repository_code_def)
  consider "strategy = ''mongo''" | "strategy = ''in-out''" | "strategy \<notin> {''mongo'', ''in-out''}" by blast
  then show ?thesis
  proof cases
    case 1
    with mongo_success_found [OF code(1,2) F(1) code(5) run(1) x(3) _ run(2)] strategy(2) x(2) show ?thesis
      by (auto simp: mongo_found_def meant_def)
  next
    case 2
    with in_out_success [OF code(1,2) F(2) code(4) run(1) x(3) _ x(1,2) run(2)] strategy(2) show ?thesis
      by (auto simp: meant_def in_out_found_def nothing_left_def runs_out_def)
  next
    case 3
    with strategy have "standard_strategy (document x)" by (simp add: standard_strategy_def)
    with standard_success_found [OF code(1,2) F(3,4) run(1) x(3) _ run(2)] have "standard_found E x y" by blast
    with x(2) have "\<exists>u r w. extends UNIV x u \<and> check E (PStr c) u = (r, w) \<and>
        (case r of Inr complete \<Rightarrow> complete | Inl e \<Rightarrow> exn_cls e = ScaledDownASGException) \<and> extends UNIV w y"
      unfolding standard_found_def completed_def by fastforce
    with 3 show ?thesis by (simp add: meant_def)
  qed
qed

text \<open>
  C3. The whole of a recycle that is not an instance refresh. An event
  of a group whose tags switch the recycling on makes the Lambda start one execution, with a JSON
  input. An execution of the state machine on what that input reads as comes to an end whatever fails on the way: within
  450 steps, or for the strategy \<open>mongo\<close> when the platform renews the instances that are ended, within a number
  of steps that their number gives. It ends as a success only when it has found, for the
  component that the tags name, what its strategy is to bring about, or when the runs of the in-out
  strategy have run out; and what it ends or scales on the way is of that component, with its cause.
\<close>

theorem recycle_settles:
  assumes "get_component_name event = Inr (Some c)"
    and "environ E ''ACCOUNT_ID'' = Some account" and "environ E ''SLACK_CHANNEL'' = Some channel"
    and "tagged_group E (calls s) c grp kvs"
    and "reply E (calls s @ [search_call c, tags_call grp]) LocalTimeStamp = Inr stamp" and "recycling_on kvs"
    and "map_of kvs ''autorecycle_strategy'' = Some strategy" and "strategy \<noteq> ''instance-refresh''"
    and "slack_keeps F" and "others_harmless F" and "all_code E' retry compile validate F" and "pydantic validate"
    and "bounded_retry retry 10" and "instances_are_lists E'"
    and "map_of kvs ''autorecycle_step_function_name'' = None"
  shows "\<exists>start. calls (snd (invoke_lambda_handler E event s)) = calls s @ [search_call c, tags_call grp, LocalTimeStamp, start] \<and>
    (\<exists>name input doc. json_loads input = Inr doc \<and>
       start = StartExecution (''arn:aws:states:eu-west-2:'' @ account @ '':stateMachine:autorecycle'') name (PStr input)) \<and>
    (\<forall>x. begins start x \<longrightarrow>
       (if strategy = ''mongo''
        then \<forall>B. renews E' retry (recycled_component c kvs) \<longrightarrow> outdated_below E' retry (recycled_component c kvs) B x \<longrightarrow>
          ends_within F V (16 + 11 * B) x
        else ends_within F V 450 x) \<and>
       (\<forall>y. (sm_step F V)\<^sup>*\<^sup>* x y \<longrightarrow> current y = SuccessState \<longrightarrow>
          meant E' retry compile strategy (recycled_component c kvs) x y) \<and>
       (\<forall>y. (orderly F V)\<^sup>*\<^sup>* x y \<longrightarrow>
          (\<exists>cs. calls y = calls x @ cs \<and> caused (accounted E' retry compile (recycled_component c kvs)) (calls x) cs)))"
proof -
  obtain start doc where start: "started account channel c grp kvs stamp start doc"
    and run: "invoke_lambda_handler E event s =
      (case reply E (calls s @ [search_call c, tags_call grp, LocalTimeStamp]) start of
         Inl e \<Rightarrow> if exn_cls e = ClientError then Inr () else Inl e | Inr _ \<Rightarrow> Inr (),
       s\<lparr>calls := calls s @ [search_call c, tags_call grp, LocalTimeStamp, start]\<rparr>)"
    by (rule invoke_started [OF assms(1-6)])
  from run have log: "calls (snd (invoke_lambda_handler E event s)) = calls s @ [search_call c, tags_call grp, LocalTimeStamp, start]"
    by simp
  from start assms(15) have input: "\<exists>name input doc. json_loads input = Inr doc \<and>
      start = StartExecution (''arn:aws:states:eu-west-2:'' @ account @ '':stateMachine:autorecycle'') name (PStr input)"
    by (auto simp: started_def machine_arn_def)
  note document = begins_document [OF start _ assms(7)]
  from assms(11) have code: "repository_code E' compile validate F" by (simp add: all_code_def)
  from all_code_log [OF assms(11,10,13)] have keeps: "keeps_log F" .
  have ends: "ends_within F V 450 x" if "begins start x" "strategy \<noteq> ''mongo''" for x
    using begun_ends [OF assms(9) code assms(12) _ document(1,2,4) [OF that(1)]] assms(8) that(2) by blast
  have mongo: "ends_within F V (16 + 11 * B) x"
    if "begins start x" "strategy = ''mongo''" "renews E' retry (recycled_component c kvs)"
      "outdated_below E' retry (recycled_component c kvs) B x" for x B
    using mongo_ends [OF assms(11,10,9,12,13) that(3,4)] document(1,3,4) [OF that(1)] that(2) by simp
  have means: "meant E' retry compile strategy (recycled_component c kvs) x y"
    if "begins start x" "(sm_step F V)\<^sup>*\<^sup>* x y" "current y = SuccessState" for x y
    by (rule begun_means [OF assms(9) keeps assms(11-13,8) document [OF that(1)] that(2,3)])
  have safe: "\<exists>cs. calls y = calls x @ cs \<and> caused (accounted E' retry compile (recycled_component c kvs)) (calls x) cs"
    if "begins start x" "(orderly F V)\<^sup>*\<^sup>* x y" for x y
    using orderly_accounted [OF assms(11,10,9,12-14) that(2)] document(3) [OF that(1)] by (simp add: on_component_def)
  show ?thesis
    by (intro exI [of _ start] conjI log input allI impI) (use ends mongo means safe in \<open>auto simp del: path_get_one\<close>)+
qed

section \<open>A sample recycle\<close>

definition standard_tags :: "(string \<times> string) list" where
  "standard_tags = [(''autorecycle_strategy'', ''default''), (''autorecycle_recycle_on_asg_update'', ''True'')]"

definition standard_account :: env where
  "standard_account = sample_account\<lparr>reply := (\<lambda>h c. case c of
       DescribeTags _ \<Rightarrow> Inr (PDict [(''Tags'', tags_json standard_tags)]) | _ \<Rightarrow> reply sample_account h c)\<rparr>"

lemma standard_account_group: "tagged_group standard_account h ''api'' ''api-asg-2024'' standard_tags"
  by (auto simp: tagged_group_def standard_account_def sample_account_def search_call_def tags_call_def)

lemma standard_tags_on: "recycling_on standard_tags"
  by (simp add: recycling_on_def standard_tags_def str_lower_def lower_char_def) (simp add: char_of_def bit_simps)

lemma scaled_down_lists: "instances_are_lists scaled_down_site"
  by (simp add: instances_are_lists_def scaled_down_site_def)

lemma recycle_settles_witness:
  "\<exists>start x. calls (snd (invoke_lambda_handler standard_account (PDict sample_update) fresh_world)) =
      [search_call ''api'', tags_call ''api-asg-2024'', LocalTimeStamp, start] \<and> begins start x \<and>
    ends_within (sample_lambdas scaled_down_site) sample_variables 450 x"
proof -
  let ?F = "sample_lambdas scaled_down_site"
  have account: "environ standard_account ''ACCOUNT_ID'' = Some ''1''" "environ standard_account ''SLACK_CHANNEL'' = Some ''team''"
      "reply standard_account (calls fresh_world @ [search_call ''api'', tags_call ''api-asg-2024'']) LocalTimeStamp =
        Inr (PStr ''20240101120000'')"
    by (simp_all add: standard_account_def sample_account_def)
  have tags: "map_of standard_tags ''autorecycle_strategy'' = Some ''default''"
      "''default'' \<noteq> ''instance-refresh''" "map_of standard_tags ''autorecycle_step_function_name'' = None"
    by (simp_all add: standard_tags_def)
  have "''default'' \<noteq> ''mongo''" by simp
  note settles = recycle_settles [where V = sample_variables, OF sample_update_component account(1,2) standard_account_group
      account(3) standard_tags_on tags(1,2) sample_slack sample_others sample_code strict_validate_pydantic retry_now_bounded
      scaled_down_lists tags(3), unfolded if_not_P [OF this]]
  from settles obtain start doc name input where
    start: "calls (snd (invoke_lambda_handler standard_account (PDict sample_update) fresh_world)) =
      calls fresh_world @ [search_call ''api'', tags_call ''api-asg-2024'', LocalTimeStamp, start]"
      "json_loads input = Inr doc"
      "start = StartExecution (''arn:aws:states:eu-west-2:'' @ ''1'' @ '':stateMachine:autorecycle'') name (PStr input)"
      "\<And>x. begins start x \<Longrightarrow> ends_within ?F sample_variables 450 x"
    by blast
  let ?x = "\<lparr>calls = [], current = ChooseStrategy, document = doc, attempts = 0\<rparr> :: execution"
  have "begins start ?x" using start(2,3) by (simp add: begins_def)
  from start(1) start(4) [OF this] this show ?thesis
    by (intro exI [of _ start] exI [of _ ?x]) (simp add: fresh_world_def)
qed

end
