(* ===== verification/Spec2Isabelle.thy ===== *)
theory Spec2Isabelle
  imports ConsulTime MachineGaps Recycle
begin

text \<open>
  A model of the autorecycling Lambdas: the Python under \<open>src/src\<close> and the two state machines of
  \<open>src/terraform\<close> that run them.

  \<^bold>\<open>The program.\<close> An Auto Scaling Group of EC2 instances is recycled when its launch template
  or its tags change, so that all its instances come from the new image.
  \<^item> A CloudTrail event starts the Lambda \<open>autorecycle_invoke_stepfunctions\<close>. It names the component
    of the event, reads the tags of the component's group, and starts an execution of the state
    machine \<open>autorecycle\<close> with the tags as its document, unless a tag says not to.
  \<^item> The execution (\<open>terraform/state_machine.tf\<close>) chooses by the field \<open>strategy\<close>. The standard
    strategy sends the component to a queue (\<open>autorecycle\<close>) and then runs \<open>monitor_autorecycle\<close> until
    it finds the recycle complete. The strategy \<open>in-out\<close> runs \<open>autorecycle_scale_asg\<close>, which scales a
    group out and in again. The strategy \<open>mongo\<close> runs \<open>mongo_recycler\<close>, which ends one outdated
    instance of a replica set per run. The strategy \<open>instance-refresh\<close> runs Lambdas of another repository.
  \<^item> The execution hands a document from a run to the next: the runs count themselves in \<open>counter\<close>, and
    the loops read \<open>counter\<close>, \<open>recycle_success\<close>, \<open>decision.action\<close> and \<open>status\<close>.
  \<^item> The Consul servers have a state machine of their own (\<open>terraform/consul_recycle_state_machine.tf\<close>),
    which runs \<open>check_consul_health\<close>, \<open>get_consul_nodes\<close> and \<open>terminate_consul_instance\<close>.

  \<^bold>\<open>The model.\<close> A Python value is a \<open>pyval\<close>, whose dicts keep their order; a result is an exception
  or a value (\<open>res\<close>). A Lambda is a function on a state that holds the log of its calls to AWS,
  MongoDB, Consul and the clock (\<open>io\<close>, a state of type \<open>world\<close>), and what the services answer
  is a parameter \<open>E\<close> of type \<open>env\<close>: the answer to a call, a value or an exception, may depend on
  the whole log. A property over all \<open>E\<close> is therefore one for every behaviour of the services, and a
  property of the log is one of what was done and in which order. An integer of the program is an \<open>int\<close>,
  a float a dyadic number, a time a number of microseconds.

  \<^bold>\<open>The theories\<close>, in the order of their imports.
  \<^item> \<open>PyBase\<close>, \<open>LambdaIO\<close>: the prelude. Values and their operations, exceptions and their classes; calls,
    the log, the functions that compose Lambdas, and \<open>wp\<close>, the rule by which properties of logs are
    proved.
  \<^item> \<open>Poll\<close>: \<open>mongo_recycler/utils/poll.py\<close>. Its locale \<open>bounded_retry\<close> is the contract of a
    retrying call, which \<open>poll\<close> meets and which the \<open>tenacity\<close> decorator is assumed to.
  \<^item> \<open>MongoDecision\<close> (\<open>models\<close>, \<open>process/decision.py\<close>, \<open>process/pre_step_checks.py\<close>), \<open>MongoAWS\<close> and \<open>MongoConn\<close>
    (\<open>connectors\<close>), \<open>MongoHealth\<close> (\<open>process/replica_set_health.py\<close>), \<open>MongoStep\<close>
    (\<open>process/step.py\<close>, \<open>execute.py\<close>, \<open>instances.py\<close>): the Mongo recycler. \<open>MongoSafety\<close> has what a step may do and
    leaves behind, \<open>MongoRun\<close> the steps of a whole recycle. The locales \<open>health_gate\<close>, \<open>instance_recycler\<close> and
    \<open>gated_recycler\<close> separate the order in which instances are ended from the connectors.
  \<^item> \<open>AutorecycleSqs\<close>: \<open>autorecycle/autorecycle_lambda.py\<close>.
  \<^item> \<open>Json\<close>: \<open>json.dumps\<close> and \<open>json.loads\<close>; \<open>InvokeSF\<close>: \<open>autorecycle_invoke_stepfunctions\<close>.
  \<^item> \<open>Asg\<close>: what is common to the Lambdas that read groups; \<open>MonitorAutorecycle\<close>: \<open>monitor_autorecycle/main.py\<close>;
    \<open>ScaleASG\<close>: \<open>autorecycle_scale_asg\<close>, with the types of its event in \<open>EventTypes\<close>.
  \<^item> \<open>ConsulCert\<close>, \<open>ConsulHealth\<close>, \<open>ConsulNodes\<close>, \<open>ConsulTerminate\<close>: the three Consul Lambdas, \<open>ConsulMachine\<close>
    their state machine, \<open>ConsulRolling\<close> what it guarantees and \<open>ConsulTime\<close>
    how long it waits. The locale \<open>tls_provider\<close> is what the Lambdas ask of the certificate.
  \<^item> \<open>StateMachine\<close>: the state machine \<open>autorecycle\<close>, as a table of states and a step relation;
    \<open>MachineOutcome\<close>, \<open>MachineInOut\<close>: what an execution that succeeds has done; \<open>MachineBounds\<close>: that it ends, with the
    locale \<open>counted_lambda\<close> for the Lambdas that count their runs. \<open>MachineSafety\<close>: what an execution may
    do to the site, whatever fails in it; \<open>MongoEnds\<close>: that the strategy \<open>mongo\<close> ends and completes. \<open>MachineGaps\<close>
    has the failures that the state machine does not report, and \<open>Recycle\<close> joins the invoke Lambda to the
    state machine it starts.

  \<^bold>\<open>What is shown\<close>, by group.
  \<^item> Safety of the cluster: which instance a run may end, what it has checked before, in which
    order (\<open>step_ends_outdated\<close>, \<open>execute_action_order\<close>, \<open>step_checks_first\<close>, \<open>scale_asg_outcome\<close>,
    \<open>consul_guarded\<close>), and that the Consul execution is a rolling recycle (\<open>consul_rolling\<close>, a refinement).
  \<^item> Every outcome of a handler, errors included (\<open>invoke_starts_execution\<close>, \<open>monitor_outcome\<close>,
    \<open>handle_event_outcome\<close>, \<open>execute_action_result\<close>, \<open>nodes_leader_last\<close>, \<open>sqs_handler_reports\<close>).
  \<^item> Equality with a specification (\<open>check_spec\<close>, \<open>get_next_asg_action_spec\<close>, \<open>health_check_iff\<close>, and others),
    and the input of an execution, which \<open>json.loads\<close> reads as the payload (\<open>execution_input_roundtrip\<close>).
  \<^item> The whole machine: what a success means (\<open>standard_success_recycled\<close>, \<open>mongo_success_done\<close>,
    \<open>in_out_success_scaled\<close>), that an execution that came to \<open>Lambda Error\<close> is no success
    (\<open>lambda_error_fails\<close>), and that the counted strategies end (\<open>counted_executions_end\<close>). Every call of an
    execution that ends or demotes an instance or executes a scaling policy has its cause in the log (\<open>execution_accounted\<close>).
    The strategy \<open>mongo\<close> ends on a platform that replaces what is ended (\<open>mongo_executions_end\<close>), and succeeds
    when its runs meet no error (\<open>mongo_recycle_completes\<close>). \<open>recycle_settles\<close> follows a recycle, of any strategy
    but the instance refresh, from its event to its end.
    What the machine does not report is shown too (\<open>in_out_timeout_succeeds\<close>, \<open>failed_refresh_succeeds\<close>,
    \<open>watch_error_unreported\<close>, \<open>unsent_message_succeeds\<close>).

  \<^bold>\<open>Bounds and fuel.\<close> \<open>poll\<close> recurses on the attempts that are left, as many as its arguments say, and
  \<open>json_loads\<close> on a fuel of twice the length of the text and one, which every text that is read
  needs less than (\<open>read_rest\<close>, \<open>read_fuel\<close>). The state machine \<open>autorecycle\<close> is a relation, and its bounds
  are proved of the relation, with all retries: 450 steps for the counted strategies, and \<open>16 + 11 B\<close> for \<open>mongo\<close> when
  no check finds more than \<open>B\<close> outdated instances, which is 11 for each run that ends one and 16 for the rest.
  \<open>drive\<close>, which runs an execution for a
  number of steps, serves to show that an end is reached. The one for Consul has no loop: it is a function, which
  waits at most 1800 seconds, and 13560 for each node it asks to leave (\<open>consul_waits\<close>).

  \<^bold>\<open>Parameters and what is assumed of them.\<close>
  \<^item> The services, \<open>E\<close>: nothing, except where a property says so.
  \<^item> \<open>tenacity\<close>: a \<open>bounded_retry\<close>. pydantic: \<open>pydantic validate\<close>, that a field which it accepts and which has
    the declared type is kept, a message content with the fields of its class only. The regular expression of a component whose name is not plain: \<open>compile\<close>.
  \<^item> The Slack Lambda of another repository: \<open>slack_keeps\<close>, that it passes its event on; and
    \<open>keeps_log\<close>, that a task only adds to the log. For what an execution does to the site: \<open>others_harmless\<close>, that
    the Lambdas of other repositories make none of the calls that need a cause (an instance refresh, which they may
    start, is not such a call).
  \<^item> A task that fails: in \<open>orderly\<close> steps its calls are a first part of those that its code makes, and it is over before
    the next attempt. The timeouts of the Lambdas are no longer than those of their tasks.
  \<^item> The platform behind a replica set, only for the end of the strategy \<open>mongo\<close>: \<open>renews\<close>, that an
    ended instance comes back with the image of the launch templates, if it comes back, and \<open>outdated_below\<close>.
    \<open>instances_are_lists\<close>: a filter of \<open>ec2.instances\<close> answers a list.
  \<^item> The container of a Consul Lambda, whose cached certificate outlives a run: the state \<open>consul_world\<close>.

  \<^bold>\<open>Not modelled.\<close> Log lines and the modules \<open>logger.py\<close> (pure output); \<open>autorecycle_scale_asg/aws.py\<close> and
  \<open>models.py\<close>, which no Lambda calls; the intervals between the attempts of a task of \<open>autorecycle\<close>; the tests. The
  cached Step Functions client of \<open>get_stepfunctions_client\<close> is a handle without a state of its own.
\<close>

end
